(* ===== verification/Prelude.thy ===== *)
theory Prelude
  imports Main "HOL-Library.Finite_Map" "HOL-Library.Multiset" "HOL-Library.Word"
    "HOL-Library.Char_ord" "HOL-Library.List_Lexorder" "HOL-Library.Product_Lexorder"
    "HOL-Library.Code_Target_Nat" "HOL-Library.Monad_Syntax"
begin

text \<open>
  Shared vocabulary of the development: the machine integer types and the saturating
  operations the Rust code uses on them, the two clocks, hash maps as finite maps with the
  multiset of their values, and the generic list and option lemmas the components share.

  A Rust \<^verbatim>\<open>String\<close> or \<^verbatim>\<open>&str\<close> is its UTF-8 byte sequence; a \<open>char\<close> of HOL is one byte,
  so \<open>length\<close> is \<^verbatim>\<open>str::len\<close> and the order on \<open>string\<close> (from \<open>List_Lexorder\<close> and
  \<open>Char_ord\<close>) is Rust's bytewise order. A \<^verbatim>\<open>Result\<close> is a sum with the error on the left.
  Integer overflow wraps, as in the release profile (overflow checks are off there).
\<close>

section \<open>Named theorem collections\<close>

named_theorems hash_map_simps \<open>equations for lookups and value multisets of hash maps\<close>
named_theorems invariant_intros \<open>operations preserve the invariant of their component\<close>
named_theorems bound_simps \<open>machine integer bounds\<close>

section \<open>Machine integers and clocks\<close>

type_synonym u8 = "8 word"
type_synonym u16 = "16 word"
type_synonym u32 = "32 word"
type_synonym u64 = "64 word"
type_synonym bytes = "u8 list"

text \<open>
  \<open>instant\<close> is \<^verbatim>\<open>tokio::time::Instant\<close> in nanoseconds relative to the process-wide
  \<^verbatim>\<open>EPOCH\<close> of \<^verbatim>\<open>pulled_message.rs\<close> (so an instant before \<^verbatim>\<open>EPOCH\<close> is negative);
  \<open>system_time\<close> is \<^verbatim>\<open>std::time::SystemTime\<close> in nanoseconds relative to \<^verbatim>\<open>UNIX_EPOCH\<close>;
  \<open>duration\<close> is \<^verbatim>\<open>std::time::Duration\<close> in nanoseconds.
\<close>

type_synonym instant = int
type_synonym system_time = int
type_synonym duration = nat

definition nanos_per_sec :: nat where
  "nanos_per_sec = 1000000000"

definition duration_max :: duration where
  "duration_max = (2 ^ 64 - 1) * nanos_per_sec + 999999999"

definition from_secs :: "nat \<Rightarrow> duration" where
  "from_secs s = s * nanos_per_sec"

definition as_secs :: "duration \<Rightarrow> nat" where
  "as_secs d = d div nanos_per_sec"

definition subsec_nanos :: "duration \<Rightarrow> nat" where
  "subsec_nanos d = d mod nanos_per_sec"

definition saturating_mul :: "duration \<Rightarrow> nat \<Rightarrow> duration" where
  "saturating_mul d k = min duration_max (d * k)"

definition saturating_duration_since :: "instant \<Rightarrow> instant \<Rightarrow> duration" where
  "saturating_duration_since later earlier = nat (later - earlier)"

definition saturating_add :: "'a::len word \<Rightarrow> 'a word \<Rightarrow> 'a word" where
  "saturating_add a b = (if unat a + unat b < 2 ^ LENGTH('a) then a + b else - 1)"

definition saturating_sub :: "'a::len word \<Rightarrow> 'a word \<Rightarrow> 'a word" where
  "saturating_sub a b = (if b \<le> a then a - b else 0)"

lemma as_secs_subsec_nanos: "from_secs (as_secs d) + subsec_nanos d = d"
  by (simp add: from_secs_def as_secs_def subsec_nanos_def)

lemma subsec_nanos_bound: "subsec_nanos d < nanos_per_sec"
  by (simp add: subsec_nanos_def nanos_per_sec_def)

lemma unat_max_word: "unat (- 1 :: 'a::len word) = 2 ^ LENGTH('a) - 1"
  by (simp add: unsigned_minus_1_eq_mask mask_eq_exp_minus_1)

lemma unat_saturating_add [bound_simps]:
  "unat (saturating_add (a :: 'a::len word) b) = min (unat a + unat b) (2 ^ LENGTH('a) - 1)"
  by (auto simp: saturating_add_def unat_word_ariths unat_max_word)

lemma unat_saturating_sub [bound_simps]:
  "unat (saturating_sub a b) = unat a - unat b"
  by (simp add: saturating_sub_def unat_sub word_le_nat_alt)

lemma unat_min_word [bound_simps]: "unat (min a b) = min (unat a) (unat b)"
  by (simp add: min_def word_le_nat_alt)

lemma unat_max_of_words [bound_simps]: "unat (max a b) = max (unat a) (unat b)"
  by (simp add: max_def word_le_nat_alt)

lemma unat_u16_less: "unat (w :: u16) < 65536"
  using unsigned_less [of w, where ?'a = nat] by simp

section \<open>Results\<close>

text \<open>\<^verbatim>\<open>Option::map(f).transpose()\<close>, and collecting an iterator of results, which stops at the
  first error.\<close>

definition transpose_map :: "('a \<Rightarrow> 'e + 'b) \<Rightarrow> 'a option \<Rightarrow> 'e + 'b option" where
  "transpose_map f x =
     (case x of None \<Rightarrow> Inr None
      | Some a \<Rightarrow> (case f a of Inl e \<Rightarrow> Inl e | Inr b \<Rightarrow> Inr (Some b)))"

fun collect_results :: "('a \<Rightarrow> 'e + 'b) \<Rightarrow> 'a list \<Rightarrow> 'e + 'b list" where
  "collect_results f [] = Inr []"
| "collect_results f (x # xs) =
     (case f x of Inl e \<Rightarrow> Inl e
      | Inr y \<Rightarrow> (case collect_results f xs of Inl e \<Rightarrow> Inl e | Inr ys \<Rightarrow> Inr (y # ys)))"

lemma collect_results_Inr_iff:
  "collect_results f xs = Inr ys \<longleftrightarrow> list_all2 (\<lambda>x y. f x = Inr y) xs ys"
proof (induction xs arbitrary: ys)
  case (Cons x xs)
  then show ?case
    by (cases ys; cases "f x"; cases "collect_results f xs") (auto simp: list_all2_Cons1)
qed auto

lemma collect_results_length: "collect_results f xs = Inr ys \<Longrightarrow> length ys = length xs"
  by (simp add: collect_results_Inr_iff list_all2_lengthD)

section \<open>Hash maps\<close>

text \<open>
  A \<^verbatim>\<open>HashMap\<close> is a finite map. Its iteration order is not specified by the standard library,
  so an operation that consumes the values in iteration order takes that order as an argument:
  a list that \<open>enumerates\<close> the map.
\<close>

type_synonym ('k, 'v) hash_map = "('k, 'v) fmap"

definition hm_len :: "('k, 'v) hash_map \<Rightarrow> nat" where
  "hm_len m = fcard (fmdom m)"

definition hm_contains :: "'k \<Rightarrow> ('k, 'v) hash_map \<Rightarrow> bool" where
  "hm_contains k m \<longleftrightarrow> fmlookup m k \<noteq> None"

definition fmvals :: "('k, 'v) hash_map \<Rightarrow> 'v multiset" where
  "fmvals m = image_mset (\<lambda>k. the (fmlookup m k)) (mset_set (fset (fmdom m)))"

definition enumerates :: "'v list \<Rightarrow> ('k, 'v) hash_map \<Rightarrow> bool" where
  "enumerates vs m \<longleftrightarrow> mset vs = fmvals m"

lemma hm_contains_iff [hash_map_simps]: "hm_contains k m \<longleftrightarrow> (\<exists>v. fmlookup m k = Some v)"
  by (auto simp: hm_contains_def)

lemma fmdom_iff_Some: "k \<in> fset (fmdom m) \<longleftrightarrow> (\<exists>v. fmlookup m k = Some v)"
  by (metis fmdomE fmdomI)

lemma fmvals_empty [simp, hash_map_simps]: "fmvals fmempty = {#}"
  by (simp add: fmvals_def)

lemma fmvals_upd [hash_map_simps]:
  "fmvals (fmupd k v m) = add_mset v (fmvals (fmdrop k m))"
proof -
  let ?rest = "fset (fmdom m) - {k}"
  have dom: "fset (fmdom (fmupd k v m)) = insert k ?rest"
    by auto
  have cong: "image_mset (\<lambda>j. the (fmlookup (fmupd k v m) j)) (mset_set ?rest)
      = image_mset (\<lambda>j. the (fmlookup (fmdrop k m) j)) (mset_set ?rest)"
    by (rule image_mset_cong) auto
  have "fset (fmdom (fmdrop k m)) = ?rest"
    by simp
  then show ?thesis
    using cong by (simp add: fmvals_def dom mset_set.insert_remove)
qed

lemma fmdrop_idle [simp]: "fmlookup m k = None \<Longrightarrow> fmdrop k m = m"
  by (auto intro!: fmap_ext simp: fmlookup_drop)

lemma fmupd_lookup_idle: "fmlookup m k = Some v \<Longrightarrow> fmupd k v m = m"
  by (auto intro!: fmap_ext)

lemma fmvals_lookup:
  assumes "fmlookup m k = Some v"
  shows "fmvals m = add_mset v (fmvals (fmdrop k m))"
  using fmvals_upd [of k v m] fmupd_lookup_idle [OF assms] by simp

lemma fmvals_fresh: "fmlookup m k = None \<Longrightarrow> fmvals (fmupd k v m) = add_mset v (fmvals m)"
  by (simp add: fmvals_upd)

lemma in_fmvals_iff: "v \<in># fmvals m \<longleftrightarrow> (\<exists>k. fmlookup m k = Some v)"
  by (auto simp: fmvals_def fmdom_iff_Some image_iff) (metis fmdomI option.sel)

lemma size_fmvals: "size (fmvals m) = hm_len m"
  by (simp add: fmvals_def hm_len_def fcard.rep_eq)

lemma hm_len_empty [simp]: "hm_len fmempty = 0"
  by (simp add: hm_len_def)

lemma hm_len_0_iff: "hm_len m = 0 \<longleftrightarrow> m = fmempty"
  by (metis fmdom_empty fmdrop_fset_fmdom fmdrop_fset_null fcard_fempty fcard_0_eq hm_len_def)

lemma hm_len_upd_fresh: "fmlookup m k = None \<Longrightarrow> hm_len (fmupd k v m) = Suc (hm_len m)"
  by (metis fmvals_fresh size_add_mset size_fmvals)

lemma hm_len_drop: "fmlookup m k = Some v \<Longrightarrow> hm_len m = Suc (hm_len (fmdrop k m))"
  by (metis fmvals_lookup size_add_mset size_fmvals)

lemma enumerates_length: "enumerates vs m \<Longrightarrow> length vs = hm_len m"
  by (metis enumerates_def size_fmvals size_mset)

lemma enumerates_set: "enumerates vs m \<Longrightarrow> v \<in> set vs \<longleftrightarrow> (\<exists>k. fmlookup m k = Some v)"
  by (metis enumerates_def in_fmvals_iff set_mset_mset)

section \<open>Lists and multisets\<close>

lemma filter_mset_neg_split:
  "filter_mset P M + filter_mset (\<lambda>x. \<not> P x) M = M"
  by (metis multiset_partition)

lemma mset_filter_not_split:
  "mset (filter P xs) + mset (filter (\<lambda>x. \<not> P x) xs) = mset xs"
  by (metis mset_filter multiset_partition)

lemma distinct_map_nth_less: "sorted_wrt (<) (xs :: 'a::linorder list) \<Longrightarrow> distinct xs"
  by (simp add: strict_sorted_iff)

end
