(* ===== verification/Strings.thy ===== *)
theory Strings
  imports Prelude
begin

text \<open>
  The operations of Rust's \<^verbatim>\<open>str\<close> and \<^verbatim>\<open>u64\<close> that the code uses on names and identifiers:
  byte-indexed slicing with its char-boundary check, \<^verbatim>\<open>starts_with\<close>, \<^verbatim>\<open>find\<close>,
  \<^verbatim>\<open>trim_matches\<close>, decimal printing and decimal parsing. The locale \<open>text_codec\<close> states
  what a printed form promises; every identifier with a textual form interprets it.
\<close>

section \<open>Slices\<close>

definition is_continuation_byte :: "char \<Rightarrow> bool" where
  "is_continuation_byte c \<longleftrightarrow> 128 \<le> (of_char c :: nat) \<and> (of_char c :: nat) < 192"

definition is_char_boundary :: "string \<Rightarrow> nat \<Rightarrow> bool" where
  "is_char_boundary s i \<longleftrightarrow>
     i = 0 \<or> i = length s \<or> (i < length s \<and> \<not> is_continuation_byte (s ! i))"

definition get_from :: "string \<Rightarrow> nat \<Rightarrow> string option" where
  "get_from s i = (if i \<le> length s \<and> is_char_boundary s i then Some (drop i s) else None)"

definition get_to :: "string \<Rightarrow> nat \<Rightarrow> string option" where
  "get_to s i = (if i \<le> length s \<and> is_char_boundary s i then Some (take i s) else None)"

fun starts_with :: "string \<Rightarrow> string \<Rightarrow> bool" where
  "starts_with s [] = True"
| "starts_with [] (p # ps) = False"
| "starts_with (c # s) (p # ps) = (c = p \<and> starts_with s ps)"

fun find_char :: "char \<Rightarrow> string \<Rightarrow> nat option" where
  "find_char c [] = None"
| "find_char c (x # xs) = (if x = c then Some 0 else map_option Suc (find_char c xs))"

definition trim_matches :: "char \<Rightarrow> string \<Rightarrow> string" where
  "trim_matches c s = rev (dropWhile (\<lambda>x. x = c) (rev (dropWhile (\<lambda>x. x = c) s)))"

lemma starts_with_iff: "starts_with s p \<longleftrightarrow> (\<exists>r. s = p @ r)"
  by (induction s p rule: starts_with.induct) auto

lemma starts_with_append [simp]: "starts_with (p @ r) p"
  by (auto simp: starts_with_iff)

lemma find_char_append:
  "c \<notin> set xs \<Longrightarrow> find_char c (xs @ c # ys) = Some (length xs)"
  by (induction xs) auto

lemma find_char_SomeD:
  "find_char c s = Some i \<Longrightarrow> i < length s \<and> s ! i = c \<and> c \<notin> set (take i s)"
  by (induction s arbitrary: i) (auto split: if_splits)

lemma get_from_append:
  "\<not> is_continuation_byte (hd ys) \<Longrightarrow> get_from (xs @ ys) (length xs) = Some ys"
  by (cases ys) (auto simp: get_from_def is_char_boundary_def nth_append)

lemma get_to_append:
  "\<not> is_continuation_byte (hd ys) \<Longrightarrow> get_to (xs @ ys) (length xs) = Some xs"
  by (cases ys) (auto simp: get_to_def is_char_boundary_def nth_append)

lemma trim_matches_idle:
  assumes "s \<noteq> [] \<Longrightarrow> hd s \<noteq> c \<and> last s \<noteq> c"
  shows "trim_matches c s = s"
proof (cases "s = []")
  case False
  with assms have "dropWhile (\<lambda>x. x = c) s = s" "dropWhile (\<lambda>x. x = c) (rev s) = rev s"
    by (auto simp: dropWhile_eq_self_iff hd_rev)
  then show ?thesis by (simp add: trim_matches_def)
qed (simp add: trim_matches_def)

section \<open>Decimal numbers\<close>

definition digit_char :: "nat \<Rightarrow> char" where
  "digit_char d = char_of (48 + d)"

definition is_digit :: "char \<Rightarrow> bool" where
  "is_digit c \<longleftrightarrow> 48 \<le> (of_char c :: nat) \<and> (of_char c :: nat) \<le> 57"

definition digit_value :: "char \<Rightarrow> nat" where
  "digit_value c = of_char c - 48"

fun show_nat :: "nat \<Rightarrow> string" where
  "show_nat n = (if n < 10 then [digit_char n] else show_nat (n div 10) @ [digit_char (n mod 10)])"

declare show_nat.simps [simp del]

fun digits_value :: "nat \<Rightarrow> string \<Rightarrow> nat option" where
  "digits_value acc [] = Some acc"
| "digits_value acc (c # cs) =
     (if is_digit c then digits_value (acc * 10 + digit_value c) cs else None)"

text \<open>\<^verbatim>\<open><u64 as FromStr>::from_str\<close>: an optional plus sign, at least one digit, no overflow.\<close>

definition parse_u64 :: "string \<Rightarrow> u64 option" where
  "parse_u64 s =
     (let ds = (case s of [] \<Rightarrow> [] | c # cs \<Rightarrow> if c = CHR ''+'' then cs else s)
      in if ds = [] then None
         else (case digits_value 0 ds of None \<Rightarrow> None
               | Some v \<Rightarrow> if v < 2 ^ 64 then Some (of_nat v) else None))"

lemma digit_char_digit:
  "d < 10 \<Longrightarrow> is_digit (digit_char d) \<and> digit_value (digit_char d) = d"
  by (simp add: digit_char_def is_digit_def digit_value_def)

lemma digits_value_append:
  "digits_value a (xs @ ys) = Option.bind (digits_value a xs) (\<lambda>b. digits_value b ys)"
  by (induction xs arbitrary: a) auto

lemma show_nat_not_Nil: "show_nat n \<noteq> []"
  by (subst show_nat.simps) simp

lemma digits_value_show_nat: "digits_value 0 (show_nat n) = Some n"
proof (induction n rule: show_nat.induct)
  case (1 n)
  show ?case
  proof (cases "n < 10")
    case True
    then show ?thesis
      by (subst show_nat.simps) (simp add: digit_char_digit)
  next
    case False
    then have "digits_value 0 (show_nat (n div 10)) = Some (n div 10)"
      by (rule 1)
    with False show ?thesis
      by (subst show_nat.simps) (simp add: digits_value_append digit_char_digit)
  qed
qed

lemma show_nat_digits: "c \<in> set (show_nat n) \<Longrightarrow> is_digit c"
proof (induction n arbitrary: c rule: show_nat.induct)
  case (1 n)
  then show ?case
    by (cases "n < 10") (auto simp: show_nat.simps [of n] digit_char_digit)
qed

lemma show_nat_hd_not_plus: "hd (show_nat n) \<noteq> CHR ''+''"
  using show_nat_digits [of "hd (show_nat n)" n] show_nat_not_Nil [of n]
  by (auto simp: is_digit_def)

lemma parse_u64_show: "parse_u64 (show_nat (unat w)) = Some w"
proof -
  obtain c cs where s: "show_nat (unat w) = c # cs"
    using show_nat_not_Nil by (meson neq_Nil_conv)
  moreover have "c \<noteq> CHR ''+''"
    using show_nat_hd_not_plus [of "unat w"] s by simp
  moreover have "unat w < 2 ^ 64"
    using unsigned_less [of w, where ?'a = nat] by simp
  ultimately show ?thesis
    using digits_value_show_nat [of "unat w"] by (simp add: parse_u64_def)
qed

section \<open>Printed forms\<close>

locale text_codec =
  fixes show_it :: "'a \<Rightarrow> string"
    and parse_it :: "string \<Rightarrow> 'a option"
    and wf :: "'a \<Rightarrow> bool"
  assumes parse_show: "wf x \<Longrightarrow> parse_it (show_it x) = Some x"
begin

lemma show_inj: "wf x \<Longrightarrow> wf y \<Longrightarrow> show_it x = show_it y \<Longrightarrow> x = y"
  using parse_show by (metis option.inject)

lemma show_eq_iff: "wf x \<Longrightarrow> wf y \<Longrightarrow> show_it x = show_it y \<longleftrightarrow> x = y"
  using show_inj by blast

lemma parse_show_list:
  "list_all wf xs \<Longrightarrow> map parse_it (map show_it xs) = map Some xs"
  by (induction xs) (auto simp: parse_show)

end

end
