(* ===== verification/Message.thy ===== *)
theory Message
  imports Strings
begin

text \<open>
  The data that flows through the broker: message identifiers and messages
  (\<^verbatim>\<open>topics/topic_message.rs\<close>), acknowledgement identifiers (\<^verbatim>\<open>subscriptions/ack_id.rs\<close>),
  acknowledgement deadlines and pulled messages (\<^verbatim>\<open>subscriptions/pulled_message.rs\<close>),
  deadline modifications (\<^verbatim>\<open>subscriptions/deadline_modification.rs\<close>), and the in-order message
  list (\<^verbatim>\<open>collections/messages.rs\<close>).
\<close>

unbundle bit_operations_syntax

section \<open>Message identifiers and messages\<close>

datatype message_id = MessageId (mid_value: u64)

definition message_id_new :: "u32 \<Rightarrow> u32 \<Rightarrow> message_id" where
  "message_id_new topic_internal_id topic_local_message_id =
     MessageId (push_bit 32 (ucast topic_internal_id) OR ucast topic_local_message_id)"

definition message_id_default :: message_id where
  "message_id_default = MessageId 0"

definition message_id_to_string :: "message_id \<Rightarrow> string" where
  "message_id_to_string i = show_nat (unat (mid_value i))"

type_synonym attributes = "(string, string) hash_map"

record topic_message =
  tm_id :: message_id
  tm_published_at :: system_time
  tm_published_at_instant :: instant
  tm_data :: bytes
  tm_attributes :: "attributes option"
  tm_ordering_key :: "string option"

text \<open>The instant argument is the value of \<^verbatim>\<open>Instant::now()\<close> read by the constructor.\<close>

definition topic_message_new :: "instant \<Rightarrow> bytes \<Rightarrow> attributes option \<Rightarrow> topic_message" where
  "topic_message_new now d attrs =
     \<lparr>tm_id = message_id_default, tm_published_at = 0, tm_published_at_instant = now,
      tm_data = d, tm_attributes = attrs, tm_ordering_key = None\<rparr>"

definition topic_message_publish ::
    "message_id \<Rightarrow> system_time \<Rightarrow> instant \<Rightarrow> topic_message \<Rightarrow> topic_message" where
  "topic_message_publish i at now m =
     m\<lparr>tm_id := i, tm_published_at := at, tm_published_at_instant := now\<rparr>"

lemma message_id_new_inj:
  "message_id_new t l = message_id_new t' l' \<longleftrightarrow> t = t' \<and> l = l'"
proof
  assume "message_id_new t l = message_id_new t' l'"
  then have eq: "push_bit 32 (ucast t :: u64) OR ucast l = push_bit 32 (ucast t') OR ucast l'"
    by (simp add: message_id_new_def)
  have bit_lo: "bit (push_bit 32 (ucast x :: u64) OR ucast y) n = bit y n" if "n < 32"
    for x y :: u32 and n
    using that by (simp add: bit_simps)
  have bit_hi: "bit (push_bit 32 (ucast x :: u64) OR ucast y) (n + 32) = bit x n" if "n < 32"
    for x y :: u32 and n
    using that by (auto simp: bit_simps dest: bit_imp_le_length)
  have "l = l'"
    by (rule bit_word_eqI) (use bit_lo [of _ t l] bit_lo [of _ t' l'] eq in simp)
  moreover have "t = t'"
    by (rule bit_word_eqI) (use bit_hi [of _ t l] bit_hi [of _ t' l'] eq in simp)
  ultimately show "t = t' \<and> l = l'" by simp
qed simp

text \<open>The two halves of a message id do not overlap, so they can be added; this evaluates faster.\<close>

lemma message_id_new_code [code]:
  "message_id_new t l = MessageId (of_nat (unat t * 2 ^ 32 + unat l))"
proof -
  have "push_bit 32 (ucast t :: u64) AND ucast l = 0"
    by (rule bit_word_eqI) (auto simp: bit_simps dest: bit_imp_le_length)
  then have "push_bit 32 (ucast t :: u64) OR ucast l = push_bit 32 (ucast t) + ucast l"
    by (rule disjunctive_add_eq_or [symmetric])
  also have "\<dots> = of_nat (unat t) * 2 ^ 32 + of_nat (unat l)"
    by (simp add: push_bit_eq_mult)
  finally show ?thesis by (simp add: message_id_new_def)
qed

section \<open>Acknowledgement identifiers\<close>

datatype ack_id = AckId (ack_value: u64)

instantiation ack_id :: linorder
begin

definition less_eq_ack_id :: "ack_id \<Rightarrow> ack_id \<Rightarrow> bool" where
  "less_eq_ack_id a b \<longleftrightarrow> ack_value a \<le> ack_value b"

definition less_ack_id :: "ack_id \<Rightarrow> ack_id \<Rightarrow> bool" where
  "less_ack_id a b \<longleftrightarrow> ack_value a < ack_value b"

instance
  by standard (auto simp: less_eq_ack_id_def less_ack_id_def ack_id.expand)

end

definition ack_id_next :: "ack_id \<Rightarrow> ack_id" where
  "ack_id_next i = AckId (ack_value i + 1)"

datatype ack_id_parse_error = Malformed

definition ack_id_parse :: "string \<Rightarrow> ack_id_parse_error + ack_id" where
  "ack_id_parse raw = (case parse_u64 raw of None \<Rightarrow> Inl Malformed | Some v \<Rightarrow> Inr (AckId v))"

definition ack_id_to_string :: "ack_id \<Rightarrow> string" where
  "ack_id_to_string i = show_nat (unat (ack_value i))"

interpretation ack_text: text_codec ack_id_to_string
  "\<lambda>s. case ack_id_parse s of Inl _ \<Rightarrow> None | Inr i \<Rightarrow> Some i" "\<lambda>_. True"
  by unfold_locales (simp add: ack_id_to_string_def ack_id_parse_def parse_u64_show)

section \<open>Deadlines\<close>

datatype ack_deadline = AckDeadline (deadline_time: instant)

instantiation ack_deadline :: linorder
begin

definition less_eq_ack_deadline :: "ack_deadline \<Rightarrow> ack_deadline \<Rightarrow> bool" where
  "less_eq_ack_deadline a b \<longleftrightarrow> deadline_time a \<le> deadline_time b"

definition less_ack_deadline :: "ack_deadline \<Rightarrow> ack_deadline \<Rightarrow> bool" where
  "less_ack_deadline a b \<longleftrightarrow> deadline_time a < deadline_time b"

instance
  by standard (auto simp: less_eq_ack_deadline_def less_ack_deadline_def ack_deadline.expand)

end

definition div_ceil :: "nat \<Rightarrow> nat \<Rightarrow> nat" where
  "div_ceil a b = (if a mod b > 0 then a div b + 1 else a div b)"

definition precision_micros :: nat where
  "precision_micros = 100000"

definition ack_deadline_new :: "instant \<Rightarrow> ack_deadline" where
  "ack_deadline_new t =
     (let duration_since_epoch = saturating_duration_since t 0;
          time_in_micros = (duration_since_epoch div 1000) mod 2 ^ 64;
          rounded_micros = (div_ceil time_in_micros precision_micros * precision_micros) mod 2 ^ 64
      in AckDeadline (int (rounded_micros * 1000)))"

record pulled_message =
  pm_message :: topic_message
  pm_ack_id :: ack_id
  pm_deadline :: ack_deadline
  pm_delivery_attempt :: u16

definition pulled_message_new ::
    "topic_message \<Rightarrow> ack_id \<Rightarrow> ack_deadline \<Rightarrow> u16 \<Rightarrow> pulled_message" where
  "pulled_message_new m i d n =
     \<lparr>pm_message = m, pm_ack_id = i, pm_deadline = d, pm_delivery_attempt = n\<rparr>"

definition expiration_key :: "pulled_message \<Rightarrow> ack_deadline \<times> ack_id" where
  "expiration_key m = (pm_deadline m, pm_ack_id m)"

definition pulled_modify_deadline :: "ack_deadline \<Rightarrow> pulled_message \<Rightarrow> pulled_message" where
  "pulled_modify_deadline d m = m\<lparr>pm_deadline := d\<rparr>"

record deadline_modification =
  dm_ack_id :: ack_id
  dm_new_deadline :: "ack_deadline option"

definition deadline_modification_new :: "ack_id \<Rightarrow> ack_deadline \<Rightarrow> deadline_modification" where
  "deadline_modification_new i d = \<lparr>dm_ack_id = i, dm_new_deadline = Some d\<rparr>"

definition deadline_modification_nack :: "ack_id \<Rightarrow> deadline_modification" where
  "deadline_modification_nack i = \<lparr>dm_ack_id = i, dm_new_deadline = None\<rparr>"

lemma div_ceil_bounds:
  assumes "0 < b"
  shows "a \<le> div_ceil a b * b" and "div_ceil a b * b < a + b"
proof -
  have split: "b * (a div b) + a mod b = a" by (rule mult_div_mod_eq)
  have lt: "a mod b < b" using assms by simp
  have eq: "div_ceil a b * b = (if a mod b > 0 then b * (a div b) + b else b * (a div b))"
    by (simp add: div_ceil_def algebra_simps)
  show "a \<le> div_ceil a b * b"
    unfolding eq using split lt by (cases "a mod b > 0"; simp only: if_True if_False; linarith)
  show "div_ceil a b * b < a + b"
    unfolding eq using split lt by (cases "a mod b > 0"; simp only: if_True if_False; linarith)
qed

text \<open>Inside the range of the clock no truncation happens.\<close>

lemma ack_deadline_new_eq:
  assumes "t < 2 ^ 70"
  shows "deadline_time (ack_deadline_new t)
    = int (div_ceil (nat t div 1000) precision_micros * precision_micros * 1000)"
proof -
  have small: "nat t div 1000 + 100000 < 2 ^ 64"
    using assms by simp
  moreover have "div_ceil (nat t div 1000) precision_micros * precision_micros
      < nat t div 1000 + 100000"
    using div_ceil_bounds(2) [of precision_micros "nat t div 1000"]
    by (simp add: precision_micros_def)
  ultimately show ?thesis
    by (simp add: ack_deadline_new_def saturating_duration_since_def Let_def)
qed

lemma ack_deadline_lower:
  assumes "0 \<le> t" and "t < 2 ^ 70"
  shows "t - 1000 < deadline_time (ack_deadline_new t)"
proof -
  have "nat t div 1000 \<le> div_ceil (nat t div 1000) precision_micros * precision_micros"
    by (rule div_ceil_bounds) (simp add: precision_micros_def)
  then show ?thesis
    unfolding ack_deadline_new_eq [OF assms(2)] using assms(1) by linarith
qed

lemma ack_deadline_upper:
  assumes "0 \<le> t" and "t < 2 ^ 70"
  shows "deadline_time (ack_deadline_new t) < t + 100000000"
proof -
  have "div_ceil (nat t div 1000) precision_micros * precision_micros
      < nat t div 1000 + precision_micros"
    by (rule div_ceil_bounds) (simp add: precision_micros_def)
  then show ?thesis
    unfolding ack_deadline_new_eq [OF assms(2)] using assms(1)
    unfolding precision_micros_def by linarith
qed

text \<open>
  A deadline is a multiple of 100 ms measured from the epoch, later than the requested
  instant minus one microsecond (sub-microsecond digits are dropped before rounding up) and less
  than 100 ms after it.
\<close>

theorem ack_deadline_rounding:
  assumes "0 \<le> t" and "t < 2 ^ 70"
  shows "t - 1000 < deadline_time (ack_deadline_new t)
    \<and> deadline_time (ack_deadline_new t) < t + 100000000
    \<and> deadline_time (ack_deadline_new t) mod 100000000 = 0"
  using ack_deadline_lower [OF assms] ack_deadline_upper [OF assms]
  by (simp add: ack_deadline_new_eq [OF assms(2)] precision_micros_def)

theorem ack_deadline_rounding_witness:
  "50000000 - 1000 < deadline_time (ack_deadline_new 50000000)
    \<and> deadline_time (ack_deadline_new 50000000) < 50000000 + 100000000
    \<and> deadline_time (ack_deadline_new 50000000) mod 100000000 = 0"
  by (rule ack_deadline_rounding) simp_all

end
