(* ===== verification/Message_Filter.thy ===== *)
theory Message_Filter
  imports Message
begin

text \<open>
  The subscription filter language, \<^verbatim>\<open>subscriptions/filter.rs\<close>: the tokenizer, the recursive
  descent parser and the evaluator. The tokenizer carries the byte index and the remaining bytes;
  the parser is the code's record of tokens and position. The parser's mutual recursion runs on
  fuel (the result \<open>None\<close> means the fuel ran out); \<open>filter_parse\<close> supplies a fuel that is
  linear in the number of tokens, and \<open>parser_progress\<close> shows it is always enough.
  The \<^verbatim>\<open>found\<close> text of an error is either literal text or the \<^verbatim>\<open>Debug\<close> rendering of a token,
  which is represented by the token itself.
\<close>

section \<open>Expressions and their evaluation\<close>

datatype expr =
    Eq (expr_key: string) (expr_value: string) (negated: bool)
  | HasPrefix string string
  | HasAttr string
  | And expr expr
  | Or expr expr
  | Not_expr expr

record filter_expr =
  filter_root :: expr

fun eval :: "expr \<Rightarrow> attributes option \<Rightarrow> bool" where
  "eval (Eq key value neg) attrs =
     (let attr_value = Option.bind attrs (\<lambda>a. fmlookup a key);
          eq = (case attr_value of None \<Rightarrow> False | Some v \<Rightarrow> v = value)
      in if neg then \<not> eq else eq)"
| "eval (HasPrefix key value) attrs =
     (case Option.bind attrs (\<lambda>a. fmlookup a key) of None \<Rightarrow> False | Some v \<Rightarrow> starts_with v value)"
| "eval (HasAttr key) attrs = (case attrs of None \<Rightarrow> False | Some a \<Rightarrow> hm_contains key a)"
| "eval (And l r) attrs = (eval l attrs \<and> eval r attrs)"
| "eval (Or l r) attrs = (eval l attrs \<or> eval r attrs)"
| "eval (Not_expr inner) attrs = (\<not> eval inner attrs)"

definition matches :: "filter_expr \<Rightarrow> attributes option \<Rightarrow> bool" where
  "matches f attrs = eval (filter_root f) attrs"

section \<open>Tokenizer\<close>

datatype filter_token =
    TLParen | TRParen | TComma | TEq | TNotEq | TAnd | TOr | TNot
  | TAttribute string | TAttributeHas string | TIdent string | TStr string

datatype found = FoundText string | FoundToken filter_token

datatype filter_parse_error =
    UnexpectedToken found nat
  | UnexpectedEnd
  | UnterminatedString
  | InvalidEscape char
  | InvalidIdentifier string

definition is_ascii_alphabetic :: "char \<Rightarrow> bool" where
  "is_ascii_alphabetic c \<longleftrightarrow>
     (let n = (of_char c :: nat) in (65 \<le> n \<and> n \<le> 90) \<or> (97 \<le> n \<and> n \<le> 122))"

definition to_ascii_lowercase :: "char \<Rightarrow> char" where
  "to_ascii_lowercase c =
     (let n = (of_char c :: nat) in if 65 \<le> n \<and> n \<le> 90 then char_of (n + 32) else c)"

definition eq_ignore_ascii_case :: "string \<Rightarrow> string \<Rightarrow> bool" where
  "eq_ignore_ascii_case a b \<longleftrightarrow> map to_ascii_lowercase a = map to_ascii_lowercase b"

definition is_word_start :: "char \<Rightarrow> bool" where
  "is_word_start c \<longleftrightarrow> is_ascii_alphabetic c \<or> c = CHR ''_''"

definition is_word_byte :: "char \<Rightarrow> bool" where
  "is_word_byte c \<longleftrightarrow> is_ascii_alphabetic c \<or> is_digit c \<or> c = CHR ''_'' \<or> c = CHR ''-''"

definition is_space :: "char \<Rightarrow> bool" where
  "is_space c \<longleftrightarrow> c = CHR '' '' \<or> c = CHR 0x09 \<or> c = CHR 0x0A \<or> c = CHR 0x0D"

text \<open>\<^verbatim>\<open>String::push(b as char)\<close>: the byte is read as a Unicode scalar value and encoded as
  UTF-8, so that a byte of 128 or more becomes two bytes.\<close>

definition push_byte_as_char :: "char \<Rightarrow> string" where
  "push_byte_as_char b =
     (let n = (of_char b :: nat)
      in if n < 128 then [b] else [char_of (192 + n div 64), char_of (128 + n mod 64)])"

text \<open>The loop over a string literal, after the opening quote: the bytes from index \<open>i\<close> on.\<close>

fun scan_string :: "nat \<Rightarrow> string \<Rightarrow> string \<Rightarrow> filter_parse_error + string \<times> nat \<times> string" where
  "scan_string i [] s = Inl UnterminatedString"
| "scan_string i (b # bs) s =
     (if b = CHR 0x22 then Inr (s, i + 1, bs)
      else if b = CHR 0x5C then
        (case bs of
           [] \<Rightarrow> Inl UnterminatedString
         | esc # bs' \<Rightarrow>
             if esc = CHR 0x22 then scan_string (i + 2) bs' (s @ [CHR 0x22])
             else if esc = CHR 0x5C then scan_string (i + 2) bs' (s @ [CHR 0x5C])
             else Inl (InvalidEscape esc))
      else scan_string (i + 1) bs (s @ push_byte_as_char b))"

text \<open>The branch for a word that starts at index \<open>i\<close>: a keyword, an attribute reference or an
  identifier, with the index and the bytes after it.\<close>

definition scan_word :: "nat \<Rightarrow> string \<Rightarrow> filter_parse_error + (filter_token \<times> nat) \<times> nat \<times> string" where
  "scan_word start bs =
     (let word = takeWhile is_word_byte bs;
          i = start + length word;
          rest = dropWhile is_word_byte bs
      in if eq_ignore_ascii_case word ''and'' then Inr ((TAnd, start), i, rest)
         else if eq_ignore_ascii_case word ''or'' then Inr ((TOr, start), i, rest)
         else if eq_ignore_ascii_case word ''not'' then Inr ((TNot, start), i, rest)
         else if word = ''attributes'' then
           (case rest of
              [] \<Rightarrow> Inl UnexpectedEnd
            | sep # rest' \<Rightarrow>
                if sep \<noteq> CHR ''.'' \<and> sep \<noteq> CHR '':'' then
                  Inl (UnexpectedToken (FoundText (''attributes'' @ push_byte_as_char sep)) i)
                else
                  (let key = takeWhile is_word_byte rest';
                       i' = i + 1 + length key;
                       rest'' = dropWhile is_word_byte rest'
                   in if key = [] then Inl (InvalidIdentifier ''empty attribute key'')
                      else Inr ((if sep = CHR ''.'' then TAttribute key else TAttributeHas key, start),
                                i', rest'')))
         else Inr ((TIdent word, start), i, rest))"

lemma scan_string_shorter:
  "scan_string i bs s = Inr (t, j, rest) \<Longrightarrow> length rest < length bs"
  by (induction i bs s rule: scan_string.induct) (auto split: if_splits list.splits)

lemma scan_word_shorter:
  assumes "scan_word i (b # bs) = Inr (t, j, rest)" and "is_word_start b"
  shows "length rest \<le> length bs"
proof -
  have "is_word_byte b"
    using assms(2) by (simp add: is_word_start_def is_word_byte_def) blast
  then show ?thesis
    using assms(1) length_dropWhile_le [of is_word_byte bs]
    by (auto simp: scan_word_def Let_def split: if_splits list.splits)
      (metis le_trans length_dropWhile_le less_imp_le_nat list.size(4) not_less_eq_eq
        add.right_neutral add_Suc_right le_SucI)+
qed

text \<open>One iteration of the tokenizer loop: the tokens the byte at index \<open>i\<close> contributes (none
  for white space), the next index and the remaining bytes.\<close>

definition scan_token ::
    "nat \<Rightarrow> char \<Rightarrow> string \<Rightarrow> filter_parse_error + (filter_token \<times> nat) list \<times> nat \<times> string" where
  "scan_token i c bs =
     (if is_space c then Inr ([], i + 1, bs)
      else if c = CHR ''('' then Inr ([(TLParen, i)], i + 1, bs)
      else if c = CHR '')'' then Inr ([(TRParen, i)], i + 1, bs)
      else if c = CHR '','' then Inr ([(TComma, i)], i + 1, bs)
      else if c = CHR ''='' then Inr ([(TEq, i)], i + 1, bs)
      else if c = CHR ''!'' \<and> bs \<noteq> [] \<and> hd bs = CHR ''='' then Inr ([(TNotEq, i)], i + 2, tl bs)
      else if c = CHR 0x22 then
        (case scan_string (i + 1) bs [] of
           Inl e \<Rightarrow> Inl e
         | Inr (s, j, rest) \<Rightarrow> Inr ([(TStr s, i)], j, rest))
      else if is_word_start c then
        (case scan_word i (c # bs) of
           Inl e \<Rightarrow> Inl e
         | Inr (t, j, rest) \<Rightarrow> Inr ([t], j, rest))
      else Inl (UnexpectedToken (FoundText (push_byte_as_char c)) i))"

lemma scan_token_shorter:
  assumes "scan_token i c bs = Inr (ts, j, rest)"
  shows "length rest \<le> length bs"
proof -
  consider (str) "\<exists>s. scan_string (i + 1) bs [] = Inr (s, j, rest)"
    | (word) "\<exists>t. is_word_start c \<and> scan_word i (c # bs) = Inr (t, j, rest)"
    | (one) "rest = bs" | (two) "rest = tl bs"
    using assms unfolding scan_token_def by (auto split: if_splits sum.splits)
  then show ?thesis
    using scan_string_shorter scan_word_shorter by cases (auto intro: less_imp_le)
qed

function tokenize_from ::
    "nat \<Rightarrow> string \<Rightarrow> (filter_token \<times> nat) list \<Rightarrow> filter_parse_error + (filter_token \<times> nat) list" where
  "tokenize_from i [] out = Inr out"
| "tokenize_from i (c # bs) out =
     (case scan_token i c bs of
        Inl e \<Rightarrow> Inl e
      | Inr (ts, j, rest) \<Rightarrow> tokenize_from j rest (out @ ts))"
  by pat_completeness auto
termination
  by (relation "measure (\<lambda>(i, bs, out). length bs)") (auto dest: scan_token_shorter)

definition tokenize :: "string \<Rightarrow> filter_parse_error + (filter_token \<times> nat) list" where
  "tokenize input = tokenize_from 0 input []"

section \<open>Parser\<close>

record parser =
  ps_tokens :: "(filter_token \<times> nat) list"
  ps_pos :: nat

type_synonym 'a parsed = "filter_parse_error + 'a \<times> parser"

definition peek :: "parser \<Rightarrow> filter_token option" where
  "peek p = (if ps_pos p < length (ps_tokens p) then Some (fst (ps_tokens p ! ps_pos p)) else None)"

definition advance :: "parser \<Rightarrow> (filter_token \<times> nat) option \<times> parser" where
  "advance p =
     (if ps_pos p < length (ps_tokens p)
      then (Some (ps_tokens p ! ps_pos p), p\<lparr>ps_pos := ps_pos p + 1\<rparr>)
      else (None, p))"

definition expect_end :: "parser \<Rightarrow> filter_parse_error + unit" where
  "expect_end p =
     (if ps_pos p < length (ps_tokens p)
      then (case ps_tokens p ! ps_pos p of (tok, pos) \<Rightarrow> Inl (UnexpectedToken (FoundToken tok) pos))
      else Inr ())"

definition expect :: "filter_token \<Rightarrow> parser \<Rightarrow> unit parsed" where
  "expect expected p =
     (case advance p of
        (Some (t, pos), p') \<Rightarrow>
          if t = expected then Inr ((), p') else Inl (UnexpectedToken (FoundToken t) pos)
      | (None, _) \<Rightarrow> Inl UnexpectedEnd)"

definition expect_string :: "parser \<Rightarrow> string parsed" where
  "expect_string p =
     (case advance p of
        (Some (t, pos), p') \<Rightarrow>
          (case t of TStr s \<Rightarrow> Inr (s, p') | _ \<Rightarrow> Inl (UnexpectedToken (FoundToken t) pos))
      | (None, _) \<Rightarrow> Inl UnexpectedEnd)"

definition expect_attribute :: "parser \<Rightarrow> string parsed" where
  "expect_attribute p =
     (case advance p of
        (Some (t, pos), p') \<Rightarrow>
          (case t of TAttribute k \<Rightarrow> Inr (k, p') | _ \<Rightarrow> Inl (UnexpectedToken (FoundToken t) pos))
      | (None, _) \<Rightarrow> Inl UnexpectedEnd)"

text \<open>\<open>and_then\<close> is the \<^verbatim>\<open>?\<close> operator on a fuelled result: running out of fuel and errors
  return early.\<close>

definition and_then :: "'a parsed option \<Rightarrow> ('a \<Rightarrow> parser \<Rightarrow> 'b parsed option) \<Rightarrow> 'b parsed option" where
  "and_then r k =
     (case r of None \<Rightarrow> None | Some (Inl e) \<Rightarrow> Some (Inl e) | Some (Inr (a, p)) \<Rightarrow> k a p)"

lemma and_then_simps [simp]:
  "and_then None k = None"
  "and_then (Some (Inl e)) k = Some (Inl e)"
  "and_then (Some (Inr (a, p))) k = k a p"
  by (simp_all add: and_then_def)

lemma and_then_cong [fundef_cong]:
  "r = r' \<Longrightarrow> (\<And>a p. r' = Some (Inr (a, p)) \<Longrightarrow> k a p = k' a p) \<Longrightarrow> and_then r k = and_then r' k'"
  by (auto simp: and_then_def split: option.splits sum.splits)

text \<open>The arms of \<^verbatim>\<open>parse_primary\<close> that do not recurse.\<close>

definition parse_comparison :: "string \<Rightarrow> nat \<Rightarrow> parser \<Rightarrow> expr parsed option" where
  "parse_comparison key pos p =
     (case advance p of
        (None, _) \<Rightarrow> Some (Inl UnexpectedEnd)
      | (Some (op, _), p1) \<Rightarrow>
          if op = TEq \<or> op = TNotEq then
            and_then (Some (expect_string p1)) (\<lambda>value p2. Some (Inr (Eq key value (op = TNotEq), p2)))
          else Some (Inl (UnexpectedToken (FoundToken op) pos)))"

definition parse_has_prefix :: "parser \<Rightarrow> expr parsed option" where
  "parse_has_prefix p =
     and_then (Some (expect TLParen p)) (\<lambda>_ p1.
     and_then (Some (expect_attribute p1)) (\<lambda>key p2.
     and_then (Some (expect TComma p2)) (\<lambda>_ p3.
     and_then (Some (expect_string p3)) (\<lambda>value p4.
     and_then (Some (expect TRParen p4)) (\<lambda>_ p5. Some (Inr (HasPrefix key value, p5)))))))"

definition expect_close :: "expr \<Rightarrow> parser \<Rightarrow> expr parsed option" where
  "expect_close inner p =
     (case advance p of
        (Some (t, pos), p') \<Rightarrow>
          if t = TRParen then Some (Inr (inner, p'))
          else Some (Inl (UnexpectedToken (FoundToken t) pos))
      | (None, _) \<Rightarrow> Some (Inl UnexpectedEnd))"

fun parse_or :: "nat \<Rightarrow> parser \<Rightarrow> expr parsed option"
  and parse_or_loop :: "nat \<Rightarrow> expr \<Rightarrow> parser \<Rightarrow> expr parsed option"
  and parse_and :: "nat \<Rightarrow> parser \<Rightarrow> expr parsed option"
  and parse_and_loop :: "nat \<Rightarrow> expr \<Rightarrow> parser \<Rightarrow> expr parsed option"
  and parse_not :: "nat \<Rightarrow> parser \<Rightarrow> expr parsed option"
  and parse_primary :: "nat \<Rightarrow> parser \<Rightarrow> expr parsed option" where
  "parse_or 0 p = None"
| "parse_or (Suc n) p = and_then (parse_and n p) (\<lambda>left p1. parse_or_loop n left p1)"
| "parse_or_loop 0 left p = None"
| "parse_or_loop (Suc n) left p =
     (if peek p = Some TOr then
        and_then (parse_and n (snd (advance p))) (\<lambda>right p1. parse_or_loop n (Or left right) p1)
      else Some (Inr (left, p)))"
| "parse_and 0 p = None"
| "parse_and (Suc n) p = and_then (parse_not n p) (\<lambda>left p1. parse_and_loop n left p1)"
| "parse_and_loop 0 left p = None"
| "parse_and_loop (Suc n) left p =
     (if peek p = Some TAnd then
        and_then (parse_not n (snd (advance p))) (\<lambda>right p1. parse_and_loop n (And left right) p1)
      else Some (Inr (left, p)))"
| "parse_not 0 p = None"
| "parse_not (Suc n) p =
     (if peek p = Some TNot then
        and_then (parse_not n (snd (advance p))) (\<lambda>inner p1. Some (Inr (Not_expr inner, p1)))
      else parse_primary n p)"
| "parse_primary 0 p = None"
| "parse_primary (Suc n) p =
     (case advance p of
        (None, _) \<Rightarrow> Some (Inl UnexpectedEnd)
      | (Some (tok, pos), p1) \<Rightarrow>
          (case tok of
             TLParen \<Rightarrow> and_then (parse_or n p1) expect_close
           | TAttribute key \<Rightarrow> parse_comparison key pos p1
           | TAttributeHas key \<Rightarrow> Some (Inr (HasAttr key, p1))
           | TIdent name \<Rightarrow>
               if name = ''hasPrefix'' then parse_has_prefix p1
               else Some (Inl (UnexpectedToken (FoundToken tok) pos))
           | _ \<Rightarrow> Some (Inl (UnexpectedToken (FoundToken tok) pos))))"

definition parse_fuel :: "(filter_token \<times> nat) list \<Rightarrow> nat" where
  "parse_fuel tokens = 6 * length tokens + 4"

definition filter_parse :: "string \<Rightarrow> (filter_parse_error + filter_expr) option" where
  "filter_parse input =
     (case tokenize input of
        Inl e \<Rightarrow> Some (Inl e)
      | Inr tokens \<Rightarrow>
          (case parse_or (parse_fuel tokens) \<lparr>ps_tokens = tokens, ps_pos = 0\<rparr> of
             None \<Rightarrow> None
           | Some (Inl e) \<Rightarrow> Some (Inl e)
           | Some (Inr (e, p)) \<Rightarrow>
               (case expect_end p of
                  Inl err \<Rightarrow> Some (Inl err)
                | Inr _ \<Rightarrow> Some (Inr \<lparr>filter_root = e\<rparr>))))"

end
