(* ===== verification/Filter_Syntax.thy ===== *)
theory Filter_Syntax
  imports Message_Filter
begin

text \<open>
  Correctness of the filter parser: it always terminates within the supplied fuel, and it reads
  back every expression printed with the documented precedences (\<open>NOT\<close> binds tighter than
  \<open>AND\<close>, \<open>AND\<close> tighter than \<open>OR\<close>, both left associative).
\<close>

section \<open>The parser terminates\<close>

definition remaining :: "parser \<Rightarrow> nat" where
  "remaining p = length (ps_tokens p) - ps_pos p"

definition within :: "nat \<Rightarrow> 'a parsed option \<Rightarrow> bool" where
  "within k r \<longleftrightarrow> (\<exists>x. r = Some x \<and> (\<forall>a p. x = Inr (a, p) \<longrightarrow> remaining p \<le> k))"

lemma within_simps [simp]:
  "within k (Some (Inl e))"
  "within k (Some (Inr (a, p))) \<longleftrightarrow> remaining p \<le> k"
  "\<not> within k None"
  by (simp_all add: within_def)

lemma within_and_then:
  assumes "within k r" and "\<And>a p. remaining p \<le> k \<Longrightarrow> within k' (f a p)"
  shows "within k' (and_then r f)"
  using assms by (auto simp: within_def and_then_def split: sum.splits)

lemma within_weaken: "within k r \<Longrightarrow> k \<le> k' \<Longrightarrow> within k' r"
  by (auto simp: within_def)

lemma advance_remaining:
  "advance p = (t, p') \<Longrightarrow> remaining p' = (if t = None then remaining p else remaining p - 1)"
  by (auto simp: advance_def remaining_def split: if_splits)

lemma advance_None_iff: "advance p = (None, p') \<longleftrightarrow> p' = p \<and> remaining p = 0"
  by (auto simp: advance_def remaining_def)

lemma peek_Some_advance:
  "peek p = Some t \<Longrightarrow> remaining (snd (advance p)) = remaining p - 1 \<and> 0 < remaining p"
  by (auto simp: peek_def advance_def remaining_def split: if_splits)

lemma within_expect [simp]:
  "within (remaining p) (Some (expect t p))"
  "within (remaining p) (Some (expect_string p))"
  "within (remaining p) (Some (expect_attribute p))"
  by (auto simp: expect_def expect_string_def expect_attribute_def
      split: prod.splits option.splits filter_token.splits dest: advance_remaining)

lemma within_primaries [simp]:
  "within (remaining p) (parse_comparison key pos p)"
  "within (remaining p) (parse_has_prefix p)"
  "within (remaining p) (expect_close e p)"
proof -
  have *: "within k (Some (expect t p))" "within k (Some (expect_string p))"
    "within k (Some (expect_attribute p))" if "remaining p \<le> k" for k t p
    using that by (auto intro: within_weaken [where k = "remaining p"])
  show "within (remaining p) (parse_has_prefix p)"
    unfolding parse_has_prefix_def by (intro within_and_then) (auto intro: *)
  show "within (remaining p) (expect_close e p)"
    by (auto simp: expect_close_def split: prod.splits option.splits dest: advance_remaining)
  show "within (remaining p) (parse_comparison key pos p)"
    by (auto simp: parse_comparison_def split: prod.splits option.splits
        intro!: within_and_then [where k = "remaining p"] * dest!: advance_remaining)
qed

text \<open>Each successful call consumes a token, so fuel that is linear in the remaining tokens is
  enough.\<close>

lemma parser_progress:
  "(6 * remaining p + 4 \<le> n \<longrightarrow> within (remaining p - 1) (parse_or n p))
   \<and> (6 * remaining p + 1 \<le> n \<longrightarrow> within (remaining p) (parse_or_loop n e p))
   \<and> (6 * remaining p + 3 \<le> n \<longrightarrow> within (remaining p - 1) (parse_and n p))
   \<and> (6 * remaining p + 1 \<le> n \<longrightarrow> within (remaining p) (parse_and_loop n e p))
   \<and> (6 * remaining p + 2 \<le> n \<longrightarrow> within (remaining p - 1) (parse_not n p))
   \<and> (6 * remaining p + 1 \<le> n \<longrightarrow> within (remaining p - 1) (parse_primary n p))"
proof (induction n arbitrary: p e)
  case (Suc n)
  have IH_or: "6 * remaining q + 4 \<le> n \<Longrightarrow> within (remaining q - 1) (parse_or n q)"
    and IH_or_loop: "6 * remaining q + 1 \<le> n \<Longrightarrow> within (remaining q) (parse_or_loop n f q)"
    and IH_and: "6 * remaining q + 3 \<le> n \<Longrightarrow> within (remaining q - 1) (parse_and n q)"
    and IH_and_loop: "6 * remaining q + 1 \<le> n \<Longrightarrow> within (remaining q) (parse_and_loop n f q)"
    and IH_not: "6 * remaining q + 2 \<le> n \<Longrightarrow> within (remaining q - 1) (parse_not n q)"
    and IH_primary: "6 * remaining q + 1 \<le> n \<Longrightarrow> within (remaining q - 1) (parse_primary n q)"
    for q f using Suc.IH [of q f] by blast+
  have or: "within (remaining p - 1) (parse_or (Suc n) p)" if "6 * remaining p + 4 \<le> Suc n"
    using that by (auto intro!: within_and_then [OF IH_and] within_weaken [OF IH_or_loop])
  have "and": "within (remaining p - 1) (parse_and (Suc n) p)" if "6 * remaining p + 3 \<le> Suc n"
    using that by (auto intro!: within_and_then [OF IH_not] within_weaken [OF IH_and_loop])
  have or_loop: "within (remaining p) (parse_or_loop (Suc n) e p)" if "6 * remaining p + 1 \<le> Suc n"
    using that by (auto dest!: peek_Some_advance
        intro!: within_and_then [OF IH_and] within_weaken [OF IH_or_loop])
  have and_loop: "within (remaining p) (parse_and_loop (Suc n) e p)" if "6 * remaining p + 1 \<le> Suc n"
    using that by (auto dest!: peek_Some_advance
        intro!: within_and_then [OF IH_not] within_weaken [OF IH_and_loop])
  have "not": "within (remaining p - 1) (parse_not (Suc n) p)" if "6 * remaining p + 2 \<le> Suc n"
    using that IH_primary by (auto dest!: peek_Some_advance intro!: within_and_then [OF IH_not])
  have primary: "within (remaining p - 1) (parse_primary (Suc n) p)" if "6 * remaining p + 1 \<le> Suc n"
  proof (cases "advance p")
    case (Pair t p1)
    have "within (remaining p1) (and_then (parse_or n p1) expect_close)" if "t \<noteq> None"
    proof (rule within_and_then [OF IH_or])
      have "remaining p1 < remaining p"
        using Pair that by (auto simp: advance_def remaining_def split: if_splits)
      then show "6 * remaining p1 + 4 \<le> n"
        using \<open>6 * remaining p + 1 \<le> Suc n\<close> by simp
      show "within (remaining p1) (expect_close a q)" if "remaining q \<le> remaining p1 - 1" for a q
        using that by (auto intro: within_weaken [where k = "remaining q"])
    qed
    then show ?thesis
      using advance_remaining [OF Pair] Pair within_primaries [of p1]
      by (auto split: option.splits filter_token.splits)
  qed
  from or or_loop "and" and_loop "not" primary show ?case by blast
qed simp


lemma parse_or_enough:
  "\<exists>r. parse_or (parse_fuel tokens) \<lparr>ps_tokens = tokens, ps_pos = 0\<rparr> = Some r"
proof -
  have "within (length tokens - 1) (parse_or (parse_fuel tokens) \<lparr>ps_tokens = tokens, ps_pos = 0\<rparr>)"
    using parser_progress [of "\<lparr>ps_tokens = tokens, ps_pos = 0\<rparr>" "parse_fuel tokens"]
    by (simp add: remaining_def parse_fuel_def)
  then show ?thesis by (auto simp: within_def)
qed

section \<open>Fuel does not matter\<close>

definition runs :: "(nat \<Rightarrow> 'a option) \<Rightarrow> 'a \<Rightarrow> bool" where
  "runs f r \<longleftrightarrow> (\<exists>n. f n = Some r)"

definition steady :: "(nat \<Rightarrow> 'a option) \<Rightarrow> bool" where
  "steady f \<longleftrightarrow> (\<forall>n r. f n = Some r \<longrightarrow> f (Suc n) = Some r)"

lemma steady_add: "steady f \<Longrightarrow> f n = Some r \<Longrightarrow> f (n + k) = Some r"
  by (induction k) (auto simp: steady_def)

lemma steady_join:
  assumes "steady f" "steady g" "runs f a" "runs g b"
  shows "\<exists>n. f n = Some a \<and> g n = Some b"
proof -
  obtain i j where i: "f i = Some a" and j: "g j = Some b"
    using assms(3,4) by (auto simp: runs_def)
  have "f (i + j) = Some a" by (rule steady_add [OF assms(1) i])
  moreover have "g (i + j) = Some b"
    using steady_add [OF assms(2) j, of i] by (simp add: add.commute)
  ultimately show ?thesis by blast
qed

lemma runs_unique:
  assumes "steady f" "runs f a" "f n = Some b"
  shows "a = b"
proof -
  have "runs f b" using assms(3) by (auto simp: runs_def)
  from steady_join [OF assms(1,1,2) this] show ?thesis by auto
qed

lemma and_then_Some_mono:
  assumes "and_then r k = Some x" and "\<And>y. r = Some y \<Longrightarrow> r' = Some y"
    and "\<And>a p x. k a p = Some x \<Longrightarrow> k' a p = Some x"
  shows "and_then r' k' = Some x"
  using assms by (auto simp: and_then_def split: option.splits sum.splits)

lemma if_Some_mono:
  assumes "(if b then x else y) = Some r" and "x = Some r \<Longrightarrow> x' = Some r" and "y = Some r \<Longrightarrow> y' = Some r"
  shows "(if b then x' else y') = Some r"
  using assms by (auto split: if_splits)

lemma parser_Suc:
  "(\<forall>r. parse_or n p = Some r \<longrightarrow> parse_or (Suc n) p = Some r)
   \<and> (\<forall>r. parse_or_loop n e p = Some r \<longrightarrow> parse_or_loop (Suc n) e p = Some r)
   \<and> (\<forall>r. parse_and n p = Some r \<longrightarrow> parse_and (Suc n) p = Some r)
   \<and> (\<forall>r. parse_and_loop n e p = Some r \<longrightarrow> parse_and_loop (Suc n) e p = Some r)
   \<and> (\<forall>r. parse_not n p = Some r \<longrightarrow> parse_not (Suc n) p = Some r)
   \<and> (\<forall>r. parse_primary n p = Some r \<longrightarrow> parse_primary (Suc n) p = Some r)"
proof (induction n arbitrary: p e)
  case (Suc n)
  have IH: "parse_or n q = Some r \<Longrightarrow> parse_or (Suc n) q = Some r"
    "parse_or_loop n f q = Some r \<Longrightarrow> parse_or_loop (Suc n) f q = Some r"
    "parse_and n q = Some r \<Longrightarrow> parse_and (Suc n) q = Some r"
    "parse_and_loop n f q = Some r \<Longrightarrow> parse_and_loop (Suc n) f q = Some r"
    "parse_not n q = Some r \<Longrightarrow> parse_not (Suc n) q = Some r"
    "parse_primary n q = Some r \<Longrightarrow> parse_primary (Suc n) q = Some r" for q f r
    using Suc.IH [of q f] by blast+
  have "parse_or (Suc n) p = Some r \<Longrightarrow> parse_or (Suc (Suc n)) p = Some r" for r
    unfolding parse_or.simps(2) by (erule and_then_Some_mono; erule IH)
  moreover have "parse_and (Suc n) p = Some r \<Longrightarrow> parse_and (Suc (Suc n)) p = Some r" for r
    unfolding parse_and.simps(2) by (erule and_then_Some_mono; erule IH)
  moreover have "parse_or_loop (Suc n) e p = Some r \<Longrightarrow> parse_or_loop (Suc (Suc n)) e p = Some r" for r
    by (subst (asm) parse_or_loop.simps, subst parse_or_loop.simps, erule if_Some_mono)
      (erule and_then_Some_mono; erule IH)
  moreover have "parse_and_loop (Suc n) e p = Some r \<Longrightarrow> parse_and_loop (Suc (Suc n)) e p = Some r" for r
    by (subst (asm) parse_and_loop.simps, subst parse_and_loop.simps, erule if_Some_mono)
      (erule and_then_Some_mono; erule IH)
  moreover have "parse_not (Suc n) p = Some r \<Longrightarrow> parse_not (Suc (Suc n)) p = Some r" for r
    by (subst (asm) parse_not.simps, subst parse_not.simps, erule if_Some_mono)
      (erule and_then_Some_mono, erule IH, assumption, erule IH)
  moreover have "parse_primary (Suc n) p = Some r \<Longrightarrow> parse_primary (Suc (Suc n)) p = Some r" for r
  proof -
    assume h: "parse_primary (Suc n) p = Some r"
    have close: "and_then (parse_or n q) expect_close = Some r \<Longrightarrow>
        and_then (parse_or (Suc n) q) expect_close = Some r" for q
      by (erule and_then_Some_mono; (erule IH | assumption))
    show "parse_primary (Suc (Suc n)) p = Some r"
      by (use h in \<open>subst (asm) parse_primary.simps, subst parse_primary.simps\<close>)
        (auto split: prod.splits option.splits filter_token.splits if_splits intro!: close simp del: parse_or.simps)
  qed
  ultimately show ?case by blast
qed simp

lemma steady_parser [simp]:
  "steady (\<lambda>n. parse_or n p)" "steady (\<lambda>n. parse_or_loop n e p)" "steady (\<lambda>n. parse_and n p)"
  "steady (\<lambda>n. parse_and_loop n e p)" "steady (\<lambda>n. parse_not n p)"
  "steady (\<lambda>n. parse_primary n p)"
  using parser_Suc by (auto simp: steady_def)

section \<open>Reading back printed tokens\<close>

text \<open>The tokens of an expression with as few parentheses as the precedences allow: level 0 is the
  operand of \<open>OR\<close> on the left, 1 the operand of \<open>AND\<close> on the left or of \<open>OR\<close> on the right,
  2 the operand of \<open>NOT\<close> or of \<open>AND\<close> on the right.\<close>

definition parens :: "bool \<Rightarrow> filter_token list \<Rightarrow> filter_token list" where
  "parens b ts = (if b then TLParen # ts @ [TRParen] else ts)"

fun tokens_of :: "nat \<Rightarrow> expr \<Rightarrow> filter_token list" where
  "tokens_of lvl (Eq k v neg) = [TAttribute k, if neg then TNotEq else TEq, TStr v]"
| "tokens_of lvl (HasPrefix k v) =
     [TIdent ''hasPrefix'', TLParen, TAttribute k, TComma, TStr v, TRParen]"
| "tokens_of lvl (HasAttr k) = [TAttributeHas k]"
| "tokens_of lvl (And l r) = parens (1 < lvl) (tokens_of 1 l @ TAnd # tokens_of 2 r)"
| "tokens_of lvl (Or l r) = parens (0 < lvl) (tokens_of 0 l @ TOr # tokens_of 1 r)"
| "tokens_of lvl (Not_expr e) = TNot # tokens_of 2 e"

definition ahead :: "parser \<Rightarrow> filter_token list" where
  "ahead p = map fst (drop (ps_pos p) (ps_tokens p))"

definition skip :: "nat \<Rightarrow> parser \<Rightarrow> parser" where
  "skip k p = p\<lparr>ps_pos := ps_pos p + k\<rparr>"

lemma skip_skip [simp]: "skip j (skip i p) = skip (i + j) p"
  by (simp add: skip_def add.assoc)

lemma ahead_skip [simp]: "ahead (skip k p) = drop k (ahead p)"
  by (simp add: ahead_def skip_def drop_map add.commute)

lemma drop_Cons_less: "drop n xs = y # ys \<Longrightarrow> n < length xs"
  by (cases "n < length xs") auto

lemma peek_ahead: "peek p = (case ahead p of [] \<Rightarrow> None | t # _ \<Rightarrow> Some t)"
  by (cases "drop (ps_pos p) (ps_tokens p)")
    (auto simp: ahead_def peek_def hd_drop_conv_nth [symmetric] dest: drop_Cons_less)

lemma advance_ahead:
  "ahead p = t # ts \<Longrightarrow> \<exists>pos. advance p = (Some (t, pos), skip 1 p)"
  by (cases "drop (ps_pos p) (ps_tokens p)")
    (auto simp: ahead_def advance_def skip_def hd_drop_conv_nth [symmetric]
      dest: drop_Cons_less)

lemma snd_advance [simp]: "ahead p = t # ts \<Longrightarrow> snd (advance p) = skip 1 p"
  using advance_ahead by fastforce

lemma expect_ahead [simp]:
  "ahead p = t # ts \<Longrightarrow> expect t p = Inr ((), skip 1 p)"
  "ahead p = TStr s # ts \<Longrightarrow> expect_string p = Inr (s, skip 1 p)"
  "ahead p = TAttribute s # ts \<Longrightarrow> expect_attribute p = Inr (s, skip 1 p)"
  using advance_ahead [of p] by (auto simp: expect_def expect_string_def expect_attribute_def)

lemma runs_SucI: "f (Suc n) = Some r \<Longrightarrow> runs f r"
  by (auto simp: runs_def)

lemma runs_or:
  assumes "runs (\<lambda>n. parse_and n p) (Inr (l, q))" and "runs (\<lambda>n. parse_or_loop n l q) r"
  shows "runs (\<lambda>n. parse_or n p) r"
proof -
  obtain n where "parse_and n p = Some (Inr (l, q))" "parse_or_loop n l q = Some r"
    using steady_join [OF steady_parser(3) steady_parser(2) assms] by blast
  then have "parse_or (Suc n) p = Some r"
    by simp
  then show ?thesis by (rule runs_SucI)
qed

lemma runs_and:
  assumes "runs (\<lambda>n. parse_not n p) (Inr (l, q))" and "runs (\<lambda>n. parse_and_loop n l q) r"
  shows "runs (\<lambda>n. parse_and n p) r"
proof -
  obtain n where "parse_not n p = Some (Inr (l, q))" "parse_and_loop n l q = Some r"
    using steady_join [OF steady_parser(5) steady_parser(4) assms] by blast
  then have "parse_and (Suc n) p = Some r"
    by simp
  then show ?thesis by (rule runs_SucI)
qed

lemma runs_or_loop:
  assumes "ahead p = TOr # ts" and "runs (\<lambda>n. parse_and n (skip 1 p)) (Inr (x, q))"
    and "runs (\<lambda>n. parse_or_loop n (Or l x) q) r"
  shows "runs (\<lambda>n. parse_or_loop n l p) r"
proof -
  obtain n where "parse_and n (skip 1 p) = Some (Inr (x, q))" "parse_or_loop n (Or l x) q = Some r"
    using steady_join [OF steady_parser(3) steady_parser(2) assms(2,3)] by blast
  then have "parse_or_loop (Suc n) l p = Some r"
    using assms(1) by (simp add: peek_ahead)
  then show ?thesis by (rule runs_SucI)
qed

lemma runs_and_loop:
  assumes "ahead p = TAnd # ts" and "runs (\<lambda>n. parse_not n (skip 1 p)) (Inr (x, q))"
    and "runs (\<lambda>n. parse_and_loop n (And l x) q) r"
  shows "runs (\<lambda>n. parse_and_loop n l p) r"
proof -
  obtain n where "parse_not n (skip 1 p) = Some (Inr (x, q))" "parse_and_loop n (And l x) q = Some r"
    using steady_join [OF steady_parser(5) steady_parser(4) assms(2,3)] by blast
  then have "parse_and_loop (Suc n) l p = Some r"
    using assms(1) by (simp add: peek_ahead)
  then show ?thesis by (rule runs_SucI)
qed

lemma runs_loop_stop:
  "peek p \<noteq> Some TOr \<Longrightarrow> runs (\<lambda>n. parse_or_loop n l p) (Inr (l, p))"
  "peek p \<noteq> Some TAnd \<Longrightarrow> runs (\<lambda>n. parse_and_loop n l p) (Inr (l, p))"
  by (rule runs_SucI [of _ 0], simp)+

lemma runs_not:
  assumes "ahead p = TNot # ts" and "runs (\<lambda>n. parse_not n (skip 1 p)) (Inr (x, q))"
  shows "runs (\<lambda>n. parse_not n p) (Inr (Not_expr x, q))"
proof -
  obtain n where "parse_not n (skip 1 p) = Some (Inr (x, q))"
    using assms(2) by (auto simp: runs_def)
  then have "parse_not (Suc n) p = Some (Inr (Not_expr x, q))"
    using assms(1) by (simp add: peek_ahead)
  then show ?thesis by (rule runs_SucI)
qed

lemma runs_primary:
  assumes "peek p \<noteq> Some TNot" and "runs (\<lambda>n. parse_primary n p) r"
  shows "runs (\<lambda>n. parse_not n p) r"
proof -
  obtain n where "parse_primary n p = Some r"
    using assms(2) by (auto simp: runs_def)
  then have "parse_not (Suc n) p = Some r"
    using assms(1) by simp
  then show ?thesis by (rule runs_SucI)
qed

lemma runs_parens:
  assumes "ahead p = TLParen # ts" and "runs (\<lambda>n. parse_or n (skip 1 p)) (Inr (x, q))"
    and "ahead q = TRParen # ts'"
  shows "runs (\<lambda>n. parse_not n p) (Inr (x, skip 1 q))"
proof (rule runs_primary)
  show "peek p \<noteq> Some TNot" using assms(1) by (simp add: peek_ahead)
  obtain n where "parse_or n (skip 1 p) = Some (Inr (x, q))"
    using assms(2) by (auto simp: runs_def)
  then have "parse_primary (Suc n) p = Some (Inr (x, skip 1 q))"
    using advance_ahead [OF assms(1)] advance_ahead [OF assms(3)] by (auto simp: expect_close_def)
  then show "runs (\<lambda>n. parse_primary n p) (Inr (x, skip 1 q))"
    by (rule runs_SucI)
qed

text \<open>The three reading levels. \<open>reads_or\<close> and \<open>reads_and\<close> are stated with the loop that
  follows, since a left-associative chain is read by the loop of its caller.\<close>

definition reads_not :: "expr \<Rightarrow> bool" where
  "reads_not e \<longleftrightarrow> (\<forall>p rest. ahead p = tokens_of 2 e @ rest \<longrightarrow>
     runs (\<lambda>n. parse_not n p) (Inr (e, skip (length (tokens_of 2 e)) p)))"

definition reads_and :: "expr \<Rightarrow> bool" where
  "reads_and e \<longleftrightarrow> (\<forall>p rest r. ahead p = tokens_of 1 e @ rest \<longrightarrow>
     runs (\<lambda>n. parse_and_loop n e (skip (length (tokens_of 1 e)) p)) r \<longrightarrow>
     runs (\<lambda>n. parse_and n p) r)"

definition reads_or :: "expr \<Rightarrow> bool" where
  "reads_or e \<longleftrightarrow> (\<forall>p rest r. ahead p = tokens_of 0 e @ rest \<longrightarrow> (\<forall>ts. rest \<noteq> TAnd # ts) \<longrightarrow>
     runs (\<lambda>n. parse_or_loop n e (skip (length (tokens_of 0 e)) p)) r \<longrightarrow>
     runs (\<lambda>n. parse_or n p) r)"

lemma reads_notD:
  "reads_not e \<Longrightarrow> ahead p = tokens_of 2 e @ rest \<Longrightarrow>
   runs (\<lambda>n. parse_not n p) (Inr (e, skip (length (tokens_of 2 e)) p))"
  unfolding reads_not_def by blast

lemma reads_and_stop:
  assumes "reads_and e" and "ahead p = tokens_of 1 e @ rest" and "\<forall>ts. rest \<noteq> TAnd # ts"
  shows "runs (\<lambda>n. parse_and n p) (Inr (e, skip (length (tokens_of 1 e)) p))"
proof -
  have "peek (skip (length (tokens_of 1 e)) p) \<noteq> Some TAnd"
    using assms(2,3) by (auto simp: peek_ahead split: list.splits)
  from runs_loop_stop(2) [OF this] show ?thesis
    using assms(1,2) unfolding reads_and_def by blast
qed

lemma reads_lift:
  "reads_not e \<Longrightarrow> tokens_of 1 e = tokens_of 2 e \<Longrightarrow> reads_and e"
  by (auto simp: reads_and_def reads_not_def intro: runs_and)

lemma reads_lift_or:
  "reads_and e \<Longrightarrow> tokens_of 0 e = tokens_of 1 e \<Longrightarrow> reads_or e"
  unfolding reads_or_def using reads_and_stop by (metis runs_or)

lemma reads_lower:
  assumes "reads_or e" and "tokens_of 2 e = TLParen # tokens_of 0 e @ [TRParen]"
  shows "reads_not e"
  unfolding reads_not_def
proof (intro allI impI)
  fix p rest
  assume p: "ahead p = tokens_of 2 e @ rest"
  let ?q = "skip (length (tokens_of 0 e)) (skip 1 p)"
  have q: "ahead ?q = TRParen # rest" "ahead (skip 1 p) = tokens_of 0 e @ TRParen # rest"
    using p assms(2) by simp_all
  then have "runs (\<lambda>n. parse_or n (skip 1 p)) (Inr (e, ?q))"
    using assms(1) runs_loop_stop(1) [of ?q e] by (auto simp: reads_or_def peek_ahead)
  from runs_parens [OF _ this q(1)] p assms(2)
  show "runs (\<lambda>n. parse_not n p) (Inr (e, skip (length (tokens_of 2 e)) p))" by simp
qed


lemma reads_atom:
  assumes "\<And>p rest. ahead p = tokens_of 2 e @ rest \<Longrightarrow>
      peek p \<noteq> Some TNot \<and> parse_primary 1 p = Some (Inr (e, skip (length (tokens_of 2 e)) p))"
  shows "reads_not e"
  unfolding reads_not_def using assms by (metis One_nat_def runs_SucI runs_primary)

lemma reads_And:
  assumes l: "reads_and l" and r: "reads_not r"
  shows "reads_and (And l r)"
  unfolding reads_and_def
proof (intro allI impI)
  fix p rest res
  assume p: "ahead p = tokens_of 1 (And l r) @ rest"
    and loop: "runs (\<lambda>n. parse_and_loop n (And l r) (skip (length (tokens_of 1 (And l r))) p)) res"
  let ?q = "skip (length (tokens_of 1 l)) p"
  have q: "ahead ?q = TAnd # tokens_of 2 r @ rest"
    and pl: "ahead p = tokens_of 1 l @ TAnd # tokens_of 2 r @ rest"
    using p by (simp_all add: parens_def)
  have "runs (\<lambda>n. parse_not n (skip 1 ?q)) (Inr (r, skip (length (tokens_of 2 r)) (skip 1 ?q)))"
    by (rule reads_notD [OF r]) (use pl in simp)
  from runs_and_loop [OF q this] loop have "runs (\<lambda>n. parse_and_loop n l ?q) res"
    by (simp add: parens_def add.commute add.left_commute)
  with l pl show "runs (\<lambda>n. parse_and n p) res"
    unfolding reads_and_def by blast
qed

lemma reads_Or:
  assumes l: "reads_or l" and r: "reads_and r"
  shows "reads_or (Or l r)"
  unfolding reads_or_def
proof (intro allI impI)
  fix p rest res
  assume p: "ahead p = tokens_of 0 (Or l r) @ rest" and rest: "\<forall>ts. rest \<noteq> TAnd # ts"
    and loop: "runs (\<lambda>n. parse_or_loop n (Or l r) (skip (length (tokens_of 0 (Or l r))) p)) res"
  let ?q = "skip (length (tokens_of 0 l)) p"
  have q: "ahead ?q = TOr # tokens_of 1 r @ rest"
    and pl: "ahead p = tokens_of 0 l @ TOr # tokens_of 1 r @ rest"
    using p by (simp_all add: parens_def)
  have "runs (\<lambda>n. parse_and n (skip 1 ?q)) (Inr (r, skip (length (tokens_of 1 r)) (skip 1 ?q)))"
    by (rule reads_and_stop [OF r _ rest]) (use pl in simp)
  from runs_or_loop [OF q this] loop have "runs (\<lambda>n. parse_or_loop n l ?q) res"
    by (simp add: parens_def add.commute add.left_commute)
  with l pl show "runs (\<lambda>n. parse_or n p) res"
    unfolding reads_or_def by blast
qed

lemma reads_Not:
  assumes e: "reads_not e"
  shows "reads_not (Not_expr e)"
  unfolding reads_not_def
proof (intro allI impI)
  fix p rest
  assume p: "ahead p = tokens_of 2 (Not_expr e) @ rest"
  have "runs (\<lambda>n. parse_not n (skip 1 p)) (Inr (e, skip (length (tokens_of 2 e)) (skip 1 p)))"
    by (rule reads_notD [OF e]) (use p in simp)
  from runs_not [OF _ this] p
  show "runs (\<lambda>n. parse_not n p) (Inr (Not_expr e, skip (length (tokens_of 2 (Not_expr e))) p))"
    by simp
qed

lemma reads_atoms: "reads_not (Eq k v neg)" "reads_not (HasPrefix k v)" "reads_not (HasAttr k)"
proof -
  show "reads_not (HasAttr k)"
  proof (rule reads_atom)
    fix p rest
    assume p: "ahead p = tokens_of 2 (HasAttr k) @ rest"
    then obtain i where "advance p = (Some (TAttributeHas k, i), skip 1 p)"
      using advance_ahead [of p "TAttributeHas k" rest] by auto
    with p show "peek p \<noteq> Some TNot \<and>
        parse_primary 1 p = Some (Inr (HasAttr k, skip (length (tokens_of 2 (HasAttr k))) p))"
      by (simp add: peek_ahead)
  qed
  show "reads_not (HasPrefix k v)"
  proof (rule reads_atom)
    fix p rest
    assume p: "ahead p = tokens_of 2 (HasPrefix k v) @ rest"
    then obtain i where "advance p = (Some (TIdent ''hasPrefix'', i), skip 1 p)"
      using advance_ahead [of p "TIdent ''hasPrefix''"] by auto
    with p show "peek p \<noteq> Some TNot \<and> parse_primary 1 p
        = Some (Inr (HasPrefix k v, skip (length (tokens_of 2 (HasPrefix k v))) p))"
      by (simp add: peek_ahead parse_has_prefix_def)
  qed
  show "reads_not (Eq k v neg)"
  proof (rule reads_atom)
    fix p rest
    assume p: "ahead p = tokens_of 2 (Eq k v neg) @ rest"
    let ?op = "if neg then TNotEq else TEq"
    obtain i where i: "advance p = (Some (TAttribute k, i), skip 1 p)"
      using advance_ahead [of p "TAttribute k"] p by auto
    have "ahead (skip 1 p) = ?op # TStr v # rest" using p by simp
    then obtain j where j: "advance (skip 1 p) = (Some (?op, j), skip 2 p)"
      using advance_ahead [of "skip 1 p" ?op] by (auto simp: numeral_2_eq_2)
    show "peek p \<noteq> Some TNot \<and>
        parse_primary 1 p = Some (Inr (Eq k v neg, skip (length (tokens_of 2 (Eq k v neg))) p))"
      using p i j by (simp add: peek_ahead parse_comparison_def numeral_3_eq_3)
  qed
qed

lemma reads_all: "reads_not e \<and> reads_and e \<and> reads_or e"
proof (induction e)
  case (And l r)
  then have "reads_and (And l r)" by (simp add: reads_And)
  moreover from this have "reads_or (And l r)" by (rule reads_lift_or) (simp add: parens_def)
  moreover from this have "reads_not (And l r)" by (rule reads_lower) (simp add: parens_def)
  ultimately show ?case by simp
next
  case (Or l r)
  then have "reads_or (Or l r)" by (simp add: reads_Or)
  moreover from this have "reads_not (Or l r)" by (rule reads_lower) (simp add: parens_def)
  moreover from this have "reads_and (Or l r)" by (rule reads_lift) (simp add: parens_def)
  ultimately show ?case by simp
next
  case (Not_expr e)
  then have "reads_not (Not_expr e)" by (simp add: reads_Not)
  moreover from this have "reads_and (Not_expr e)" by (rule reads_lift) simp
  moreover from this have "reads_or (Not_expr e)" by (rule reads_lift_or) simp
  ultimately show ?case by simp
qed (use reads_atoms reads_lift reads_lift_or in auto)

lemma parse_tokens_of:
  assumes "map fst tokens = tokens_of 0 e"
  shows "parse_or (parse_fuel tokens) \<lparr>ps_tokens = tokens, ps_pos = 0\<rparr>
    = Some (Inr (e, \<lparr>ps_tokens = tokens, ps_pos = length tokens\<rparr>))"
proof -
  let ?p = "\<lparr>ps_tokens = tokens, ps_pos = 0\<rparr>"
  let ?q = "skip (length (tokens_of 0 e)) ?p"
  have len: "length (tokens_of 0 e) = length tokens" using assms by (metis length_map)
  have "peek ?q \<noteq> Some TOr" by (simp add: peek_def skip_def len)
  from runs_loop_stop(1) [OF this] have "runs (\<lambda>n. parse_or n ?p) (Inr (e, ?q))"
    using reads_all [of e] assms by (auto simp: reads_or_def ahead_def)
  moreover note parse_or_enough [of tokens]
  ultimately show ?thesis
    using runs_unique [OF steady_parser(1)] by (auto simp: skip_def len)
qed

section \<open>Reading back printed text\<close>

definition escape :: "string \<Rightarrow> string" where
  "escape s = concat (map (\<lambda>c. if c = CHR 0x22 \<or> c = CHR 0x5C then [CHR 0x5C, c] else [c]) s)"

fun token_text :: "filter_token \<Rightarrow> string" where
  "token_text TLParen = ''(''"
| "token_text TRParen = '')''"
| "token_text TComma = '',''"
| "token_text TEq = ''=''"
| "token_text TNotEq = ''!=''"
| "token_text TAnd = ''AND''"
| "token_text TOr = ''OR''"
| "token_text TNot = ''NOT''"
| "token_text (TAttribute k) = ''attributes.'' @ k"
| "token_text (TAttributeHas k) = ''attributes:'' @ k"
| "token_text (TIdent w) = w"
| "token_text (TStr s) = CHR 0x22 # escape s @ [CHR 0x22]"

definition expr_text :: "expr \<Rightarrow> string" where
  "expr_text e = concat (map (\<lambda>t. token_text t @ '' '') (tokens_of 0 e))"

definition wf_key :: "string \<Rightarrow> bool" where
  "wf_key k \<longleftrightarrow> k \<noteq> [] \<and> list_all is_word_byte k"

definition is_ascii :: "string \<Rightarrow> bool" where
  "is_ascii s \<longleftrightarrow> list_all (\<lambda>c. (of_char c :: nat) < 128) s"

fun wf_token :: "filter_token \<Rightarrow> bool" where
  "wf_token (TAttribute k) = wf_key k"
| "wf_token (TAttributeHas k) = wf_key k"
| "wf_token (TIdent w) = (w = ''hasPrefix'')"
| "wf_token (TStr s) = is_ascii s"
| "wf_token _ = True"

fun wf_expr :: "expr \<Rightarrow> bool" where
  "wf_expr (Eq k v neg) = (wf_key k \<and> is_ascii v)"
| "wf_expr (HasPrefix k v) = (wf_key k \<and> is_ascii v)"
| "wf_expr (HasAttr k) = wf_key k"
| "wf_expr (And l r) = (wf_expr l \<and> wf_expr r)"
| "wf_expr (Or l r) = (wf_expr l \<and> wf_expr r)"
| "wf_expr (Not_expr e) = wf_expr e"

lemma wf_tokens_of: "wf_expr e \<Longrightarrow> list_all wf_token (tokens_of lvl e)"
  by (induction e arbitrary: lvl) (auto simp: parens_def)

lemma scan_string_escape:
  "is_ascii v \<Longrightarrow> \<exists>j. scan_string i (escape v @ CHR 0x22 # rest) s = Inr (s @ v, j, rest)"
proof (induction v arbitrary: i s)
  case (Cons c v)
  then show ?case
    using Cons.IH [of "i + 1" "s @ [c]"] Cons.IH [of "i + 2" "s @ [c]"]
    by (auto simp: escape_def is_ascii_def push_byte_as_char_def)
qed (simp add: escape_def)

lemma takeWhile_word:
  assumes "list_all is_word_byte w" and "\<not> is_word_byte c"
  shows "takeWhile is_word_byte (w @ c # rest) = w" and "dropWhile is_word_byte (w @ c # rest) = c # rest"
  using assms by (auto simp: takeWhile_append2 dropWhile_append2 list_all_iff)

lemma not_word_bytes: "\<not> is_word_byte CHR '' ''" "\<not> is_word_byte CHR ''.''" "\<not> is_word_byte CHR '':''"
  by code_simp+

lemma scan_word_ident:
  "scan_word i (''hasPrefix'' @ CHR '' '' # rest)
     = Inr ((TIdent ''hasPrefix'', i), i + 9, CHR '' '' # rest)"
proof -
  have w: "list_all is_word_byte ''hasPrefix''" by code_simp
  have "\<not> eq_ignore_ascii_case ''hasPrefix'' ''and''" "\<not> eq_ignore_ascii_case ''hasPrefix'' ''or''"
    "\<not> eq_ignore_ascii_case ''hasPrefix'' ''not''" by code_simp+
  then show ?thesis
    by (simp only: scan_word_def Let_def takeWhile_word [OF w not_word_bytes(1)]) simp
qed

lemma scan_word_keyword:
  "scan_word i (''AND'' @ CHR '' '' # rest) = Inr ((TAnd, i), i + 3, CHR '' '' # rest)"
  "scan_word i (''OR'' @ CHR '' '' # rest) = Inr ((TOr, i), i + 2, CHR '' '' # rest)"
  "scan_word i (''NOT'' @ CHR '' '' # rest) = Inr ((TNot, i), i + 3, CHR '' '' # rest)"
proof -
  have w: "list_all is_word_byte ''AND''" "list_all is_word_byte ''OR''" "list_all is_word_byte ''NOT''"
    by code_simp+
  have eq: "eq_ignore_ascii_case ''AND'' ''and''" "\<not> eq_ignore_ascii_case ''OR'' ''and''"
    "eq_ignore_ascii_case ''OR'' ''or''" "\<not> eq_ignore_ascii_case ''NOT'' ''and''"
    "\<not> eq_ignore_ascii_case ''NOT'' ''or''" "eq_ignore_ascii_case ''NOT'' ''not''" by code_simp+
  show "scan_word i (''AND'' @ CHR '' '' # rest) = Inr ((TAnd, i), i + 3, CHR '' '' # rest)"
    using eq by (simp only: scan_word_def Let_def takeWhile_word [OF w(1) not_word_bytes(1)]) simp
  show "scan_word i (''OR'' @ CHR '' '' # rest) = Inr ((TOr, i), i + 2, CHR '' '' # rest)"
    using eq by (simp only: scan_word_def Let_def takeWhile_word [OF w(2) not_word_bytes(1)]) simp
  show "scan_word i (''NOT'' @ CHR '' '' # rest) = Inr ((TNot, i), i + 3, CHR '' '' # rest)"
    using eq by (simp only: scan_word_def Let_def takeWhile_word [OF w(3) not_word_bytes(1)]) simp
qed

lemma scan_word_attribute:
  assumes "wf_key k" and "sep = CHR ''.'' \<or> sep = CHR '':''"
  shows "scan_word i (''attributes'' @ sep # k @ CHR '' '' # rest)
    = Inr ((if sep = CHR ''.'' then TAttribute k else TAttributeHas k, i), i + 11 + length k,
        CHR '' '' # rest)"
proof -
  have w: "list_all is_word_byte ''attributes''" by code_simp
  have eq: "\<not> eq_ignore_ascii_case ''attributes'' ''and''" "\<not> eq_ignore_ascii_case ''attributes'' ''or''"
    "\<not> eq_ignore_ascii_case ''attributes'' ''not''" by code_simp+
  have sep: "\<not> is_word_byte sep" using assms(2) not_word_bytes by auto
  have k: "k \<noteq> []" "list_all is_word_byte k" using assms(1) by (simp_all add: wf_key_def)
  show ?thesis
    using eq assms(2) k(1) takeWhile_word [OF k(2) not_word_bytes(1), of rest]
    by (simp only: scan_word_def Let_def takeWhile_word [OF w sep]) auto
qed

lemma not_space: "is_word_start c \<Longrightarrow> \<not> is_space c \<and> c \<notin> set ''(),=!'' \<and> c \<noteq> CHR 0x22"
  by (auto simp: is_word_start_def is_space_def is_ascii_alphabetic_def)

lemma scan_token_word:
  assumes "is_word_start c" and "scan_word i (c # bs) = Inr (t, j, rest)"
  shows "scan_token i c bs = Inr ([t], j, rest)"
  using assms not_space [OF assms(1)] by (simp add: scan_token_def)

lemma word_starts: "is_word_start CHR ''A''" "is_word_start CHR ''O''" "is_word_start CHR ''N''"
  "is_word_start CHR ''a''" "is_word_start CHR ''h''"
  by code_simp+

lemma scan_token_text:
  assumes "wf_token t"
  shows "\<exists>c bs j. token_text t @ '' '' @ rest = c # bs
    \<and> scan_token i c bs = Inr ([(t, i)], j, CHR '' '' # rest)"
proof (cases t)
  case TAnd
  then show ?thesis
    using scan_token_word [OF word_starts(1)] scan_word_keyword(1) [of i rest] by fastforce
next
  case TOr
  then show ?thesis
    using scan_token_word [OF word_starts(2)] scan_word_keyword(2) [of i rest] by fastforce
next
  case TNot
  then show ?thesis
    using scan_token_word [OF word_starts(3)] scan_word_keyword(3) [of i rest] by fastforce
next
  case (TAttribute k)
  then show ?thesis
    using assms scan_token_word [OF word_starts(4)] scan_word_attribute [of k "CHR ''.''" i rest]
    by fastforce
next
  case (TAttributeHas k)
  then show ?thesis
    using assms scan_token_word [OF word_starts(4)] scan_word_attribute [of k "CHR '':''" i rest]
    by fastforce
next
  case (TIdent w)
  then show ?thesis
    using assms scan_token_word [OF word_starts(5)] scan_word_ident [of i rest] by fastforce
next
  case (TStr s)
  then show ?thesis
    using assms scan_string_escape [of s "i + 1" "CHR '' '' # rest" "[]"]
    by (auto simp: scan_token_def is_space_def is_word_start_def)
qed (simp_all add: scan_token_def is_space_def)

lemma tokenize_from_text:
  assumes "list_all wf_token ts"
  shows "\<exists>toks. tokenize_from i (concat (map (\<lambda>t. token_text t @ '' '') ts)) out = Inr (out @ toks)
    \<and> map fst toks = ts"
  using assms
proof (induction ts arbitrary: i out)
  case (Cons t ts)
  let ?rest = "concat (map (\<lambda>t. token_text t @ '' '') ts)"
  obtain c bs j where tok: "token_text t @ '' '' @ ?rest = c # bs"
    "scan_token i c bs = Inr ([(t, i)], j, CHR '' '' # ?rest)"
    using scan_token_text [of t ?rest i] Cons.prems by auto
  have "scan_token j CHR '' '' ?rest = Inr ([], j + 1, ?rest)"
    by (simp add: scan_token_def is_space_def)
  then have step: "tokenize_from i (token_text t @ '' '' @ ?rest) out
      = tokenize_from (j + 1) ?rest (out @ [(t, i)])"
    using tok by simp
  obtain toks where "tokenize_from (j + 1) ?rest (out @ [(t, i)]) = Inr ((out @ [(t, i)]) @ toks)"
    "map fst toks = ts"
    using Cons.IH [of "j + 1" "out @ [(t, i)]"] Cons.prems by auto
  with step show ?case
    by (auto intro!: exI [of _ "(t, i) # toks"])
qed simp



text \<open>
  C33. Parsing always returns, with a filter or with an error: the fuel supplied to the recursive
  descent is never used up.
\<close>

theorem filter_parse_total: "\<exists>r. filter_parse input = Some r"
proof (cases "tokenize input")
  case (Inr tokens)
  then show ?thesis
    using parse_or_enough [of tokens] by (auto simp: filter_parse_def split: sum.splits)
qed (simp add: filter_parse_def)

text \<open>
  A string literal with a non-ASCII character (here U+00E9, the two bytes C3 A9) is read byte
  by byte, each byte re-encoded as a character of its own, so the comparison with an attribute that
  has exactly this value fails.
\<close>

theorem filter_non_ascii_literal:
  "(case filter_parse (''attributes.k = '' @ [CHR 0x22, CHR 0xC3, CHR 0xA9, CHR 0x22]) of
      Some (Inr f) \<Rightarrow> \<not> matches f (Some (fmap_of_list [(''k'', [CHR 0xC3, CHR 0xA9])]))
        \<and> matches f (Some (fmap_of_list [(''k'', [CHR 0xC3, CHR 0x83, CHR 0xC2, CHR 0xA9])]))
    | _ \<Rightarrow> False)"
  by code_simp

end
