(* ===== verification/Flow_Control.thy ===== *)
theory Flow_Control
  imports Prelude
begin

text \<open>
  Flow control of a streaming pull, \<^verbatim>\<open>subscriptions/flow_control.rs\<close>. The two atomic counters
  are 64-bit words and wrap; \<open>fc_notifies\<close> counts the wake-ups. \<open>wait_for_available_space\<close> runs on
  the successive states in which the waiter looks at the counters (first the check before the loop,
  then one check per iteration, before the wait), and returns how many checks were made.
\<close>

record flow_control =
  fc_max_outstanding_bytes :: u64
  fc_max_outstanding_messages :: u64
  fc_outstanding_bytes :: u64
  fc_outstanding_messages :: u64
  fc_notifies :: nat

definition flow_control_create :: "u64 \<Rightarrow> u64 \<Rightarrow> flow_control" where
  "flow_control_create max_outstanding_bytes max_outstanding_messages =
     \<lparr>fc_max_outstanding_bytes = max_outstanding_bytes,
      fc_max_outstanding_messages = max_outstanding_messages,
      fc_outstanding_bytes = 0, fc_outstanding_messages = 0, fc_notifies = 0\<rparr>"

definition flow_control_inc :: "u64 \<Rightarrow> u64 \<Rightarrow> flow_control \<Rightarrow> flow_control" where
  "flow_control_inc b m c =
     c\<lparr>fc_outstanding_bytes := fc_outstanding_bytes c + b,
       fc_outstanding_messages := fc_outstanding_messages c + m,
       fc_notifies := fc_notifies c + 1\<rparr>"

definition flow_control_dec :: "u64 \<Rightarrow> u64 \<Rightarrow> flow_control \<Rightarrow> flow_control" where
  "flow_control_dec b m c =
     c\<lparr>fc_outstanding_bytes := fc_outstanding_bytes c - b,
       fc_outstanding_messages := fc_outstanding_messages c - m,
       fc_notifies := fc_notifies c + 1\<rparr>"

definition has_available_space :: "flow_control \<Rightarrow> bool" where
  "has_available_space c =
     (if fc_max_outstanding_messages c \<le> fc_outstanding_messages c then False
      else if fc_max_outstanding_bytes c \<le> fc_outstanding_bytes c then False
      else True)"

fun wait_loop :: "nat \<Rightarrow> flow_control list \<Rightarrow> nat option" where
  "wait_loop checks [] = None"
| "wait_loop checks (c # cs) =
     (if has_available_space c then Some (checks + 1) else wait_loop (checks + 1) cs)"

definition wait_for_available_space :: "flow_control list \<Rightarrow> nat option" where
  "wait_for_available_space observed = wait_loop 0 observed"

lemma wait_loop_first:
  "wait_loop n cs =
     (if list_ex has_available_space cs
      then Some (n + length (takeWhile (\<lambda>c. \<not> has_available_space c) cs) + 1) else None)"
  by (induction cs arbitrary: n) auto

lemma has_available_space_iff:
  "has_available_space c \<longleftrightarrow> fc_outstanding_messages c < fc_max_outstanding_messages c
     \<and> fc_outstanding_bytes c < fc_max_outstanding_bytes c"
  by (auto simp: has_available_space_def not_le)

text \<open>
  A waiting stream continues at the first look at the counters that finds room for a message and
  for a byte, and keeps waiting exactly when none does; giving back what was taken restores the
  counters, in either order and even across a wrap.
\<close>

theorem flow_control_waits_for_space:
  "wait_for_available_space cs =
     (if list_ex (\<lambda>c. fc_outstanding_messages c < fc_max_outstanding_messages c
          \<and> fc_outstanding_bytes c < fc_max_outstanding_bytes c) cs
      then Some (length (takeWhile (\<lambda>c. \<not> (fc_outstanding_messages c < fc_max_outstanding_messages c
          \<and> fc_outstanding_bytes c < fc_max_outstanding_bytes c)) cs) + 1)
      else None)
   \<and> has_available_space (flow_control_dec b m (flow_control_inc b m c)) = has_available_space c
   \<and> has_available_space (flow_control_inc b m (flow_control_dec b m c)) = has_available_space c"
  by (simp add: wait_for_available_space_def wait_loop_first has_available_space_iff [abs_def]
      flow_control_inc_def flow_control_dec_def)

end
