(* ===== verification/Registry.thy ===== *)
theory Registry
  imports Prelude
begin

text \<open>
  What the topic manager and the subscription manager have in common: a map from names to handles,
  and a counter that gives every new handle an internal id. The locale \<open>registry\<close> states the contract
  of creating, finding and removing a handle; its lemmas show that the ids stay pairwise distinct and
  that a listing sorted by id does not depend on the iteration order of the map.
\<close>

section \<open>Sorting by a key that identifies the elements\<close>

lemma sort_key_unique:
  assumes "mset xs = mset ys" and "inj_on f (set xs)"
  shows "sort_key f xs = sort_key f ys"
proof (rule properties_for_sort_key)
  show "mset (sort_key f ys) = mset xs" using assms(1) by simp
  show "filter (\<lambda>y. f k = f y) (sort_key f ys) = filter (\<lambda>y. f k = f y) xs" 
    if "k \<in> set (sort_key f ys)" for k
  proof -
    have same: "set ys = set xs" using assms(1) by (metis set_mset_mset)
    with that have k: "k \<in> set xs" by simp
    have only: "filter (\<lambda>y. f k = f y) zs = replicate (count (mset zs) k) k" if "set zs = set xs" for zs
    proof -
      have "filter (\<lambda>y. f k = f y) zs = filter (\<lambda>y. k = y) zs"
        using assms(2) k that by (intro filter_cong) (auto simp: inj_on_eq_iff)
      also have "\<dots> = replicate (count (mset zs) k) k" by (induction zs) auto
      finally show ?thesis .
    qed
    show ?thesis using only [of xs] only [of "sort_key f ys"] same assms(1) by simp
  qed
qed simp

lemma sort_key_strict:
  assumes "distinct xs" and "inj_on f (set xs)"
  shows "sorted_wrt (\<lambda>x y. f x < f y) (sort_key f xs)"
proof -
  have "distinct (map f (sort_key f xs))" using assms by (simp add: distinct_map)
  then have "sorted_wrt (<) (map f (sort_key f xs))" by (simp add: strict_sorted_iff)
  then show ?thesis by (simp add: sorted_wrt_map)
qed

section \<open>The registry contract\<close>

locale registry =
  fixes entries :: "'s \<Rightarrow> ('k, 'v) hash_map"
    and next_id :: "'s \<Rightarrow> u32"
    and handle_name :: "'v \<Rightarrow> 'k"
    and handle_id :: "'v \<Rightarrow> u32"
    and initial :: 's
    and create :: "'i \<Rightarrow> 's \<Rightarrow> ('e + 'v) \<times> 's"
    and info_name :: "'i \<Rightarrow> 'k"
    and already_exists :: 'e
    and remove :: "'k \<Rightarrow> 's \<Rightarrow> 's"
  assumes initial_entries: "entries initial = fmempty"
    and create_vacant: "fmlookup (entries s) (info_name i) = None \<Longrightarrow>
      \<exists>v s'. create i s = (Inr v, s') \<and> handle_name v = info_name i \<and> handle_id v = next_id s + 1
        \<and> entries s' = fmupd (info_name i) v (entries s) \<and> next_id s' = next_id s + 1"
    and create_occupied: "fmlookup (entries s) (info_name i) = Some v \<Longrightarrow>
      create i s = (Inl already_exists, s)"
    and remove_entries: "entries (remove k s) = fmdrop k (entries s)"
    and remove_next_id: "next_id (remove k s) = next_id s"
begin

definition registry_inv :: "'s \<Rightarrow> bool" where
  "registry_inv s \<longleftrightarrow>
     (\<forall>k v. fmlookup (entries s) k = Some v \<longrightarrow> handle_name v = k \<and> handle_id v \<le> next_id s)
     \<and> (\<forall>k v k' v'. fmlookup (entries s) k = Some v \<longrightarrow> fmlookup (entries s) k' = Some v'
          \<longrightarrow> handle_id v = handle_id v' \<longrightarrow> k = k')"

lemma inv_initial: "registry_inv initial"
  by (simp add: registry_inv_def initial_entries)

lemma inv_remove: "registry_inv s \<Longrightarrow> registry_inv (remove k s)"
  unfolding registry_inv_def remove_entries remove_next_id fmlookup_drop
  by (metis option.distinct(1))

lemma next_id_room: "unat (next_id s) + 1 < 2 ^ 32 \<Longrightarrow> next_id s < next_id s + 1"
  by (simp add: word_less_nat_alt unat_word_ariths)

lemma inv_create:
  assumes "registry_inv s" and "unat (next_id s) + 1 < 2 ^ 32"
  shows "registry_inv (snd (create i s))"
proof (cases "fmlookup (entries s) (info_name i)")
  case None
  then obtain v s' where made: "create i s = (Inr v, s')" "handle_name v = info_name i"
      "handle_id v = next_id s + 1" "entries s' = fmupd (info_name i) v (entries s)"
      "next_id s' = next_id s + 1"
    using create_vacant by blast
  have less: "handle_id w < next_id s + 1" if "fmlookup (entries s) k = Some w" for k w
  proof (rule le_less_trans)
    show "handle_id w \<le> next_id s" using assms(1) that unfolding registry_inv_def by blast
  qed (rule next_id_room [OF assms(2)])
  then have fresh: "handle_id w \<noteq> next_id s + 1" "next_id s + 1 \<noteq> handle_id w" "handle_id w \<le> next_id s + 1"
    if "fmlookup (entries s) k = Some w" for k w
    using that by (fastforce simp: less_le)+
  have old: "fmlookup (entries s) k = Some w \<Longrightarrow> handle_name w = k"
    "fmlookup (entries s) k = Some w \<Longrightarrow> fmlookup (entries s) k' = Some w' \<Longrightarrow> handle_id w = handle_id w'
      \<Longrightarrow> k = k'" for k w k' w'
    using assms(1) unfolding registry_inv_def by blast+
  show ?thesis
    unfolding registry_inv_def made(1) snd_conv made(4,5) fmupd_lookup
    using fresh old made(2,3) by (auto split: if_splits)
next
  case (Some v)
  then show ?thesis using create_occupied assms(1) by simp
qed

lemma create_ok_iff: "(\<exists>v. fst (create i s) = Inr v) \<longleftrightarrow> fmlookup (entries s) (info_name i) = None"
proof (cases "fmlookup (entries s) (info_name i)")
  case None
  then show ?thesis using create_vacant [OF None] by auto
next
  case (Some v)
  then show ?thesis using create_occupied [OF Some] by simp
qed

lemma create_lookup:
  assumes "fst (create i s) = Inr v"
  shows "fmlookup (entries (snd (create i s))) k
      = (if k = info_name i then Some v else fmlookup (entries s) k)"
    and "handle_name v = info_name i" and "handle_id v = next_id s + 1"
    and "next_id (snd (create i s)) = next_id s + 1"
proof -
  from assms have "fmlookup (entries s) (info_name i) = None" using create_ok_iff by blast
  from create_vacant [OF this] obtain w s' where made: "create i s = (Inr w, s')"
      "handle_name w = info_name i" "handle_id w = next_id s + 1"
      "entries s' = fmupd (info_name i) w (entries s)" "next_id s' = next_id s + 1"
    by blast
  from assms made(1) have eq: "create i s = (Inr v, s')" "w = v" by simp_all
  show "fmlookup (entries (snd (create i s))) k
      = (if k = info_name i then Some v else fmlookup (entries s) k)"
    unfolding eq(1) snd_conv using made(4) eq(2) by simp
  show "handle_name v = info_name i" "handle_id v = next_id s + 1"
    "next_id (snd (create i s)) = next_id s + 1"
    using made(2,3,5) eq by simp_all
qed

text \<open>A listing: the handles that satisfy a condition, sorted by id.\<close>

definition listing :: "('v \<Rightarrow> bool) \<Rightarrow> 'v list \<Rightarrow> 'v list" where
  "listing P order = sort_key handle_id (filter P order)"

lemma listing_facts:
  assumes inv: "registry_inv s" and order: "enumerates order (entries s)"
  shows "distinct order" and "inj_on handle_id (set order)"
    and "v \<in> set order \<longleftrightarrow> fmlookup (entries s) (handle_name v) = Some v"
proof -
  have mem: "v \<in> set order \<longleftrightarrow> fmlookup (entries s) (handle_name v) = Some v" for v
    using enumerates_set [OF order] inv by (auto simp: registry_inv_def)
  show "v \<in> set order \<longleftrightarrow> fmlookup (entries s) (handle_name v) = Some v" by (rule mem)
  have "v = v'" if "v \<in> set order" "v' \<in> set order" "handle_id v = handle_id v'" for v v'
  proof -
    have "handle_name v = handle_name v'" using inv that mem unfolding registry_inv_def by blast
    then show ?thesis using that(1,2) mem by simp
  qed
  then show "inj_on handle_id (set order)" by (auto intro: inj_onI)
  have "inj_on (\<lambda>k. the (fmlookup (entries s) k)) (fset (fmdom (entries s)))"
    by (rule inj_onI) (metis fmdom_iff_Some inv option.sel registry_inv_def)
  then have "\<And>x. count (fmvals (entries s)) x \<le> 1"
    unfolding fmvals_def by (subst image_mset_mset_set) (simp_all add: count_mset_set')
  then have "count (mset order) x \<le> 1" for x using order by (simp add: enumerates_def)
  then show "distinct order"
    by (metis count_mset_0_iff distinct_count_atmost_1 le_neq_implies_less less_one)
qed

lemma listing_independent:
  assumes "registry_inv s" and "enumerates order (entries s)" and "enumerates order' (entries s)"
  shows "listing P order = listing P order'"
proof -
  have "mset (filter P order) = mset (filter P order')"
    using assms(2,3) by (simp add: enumerates_def)
  moreover have "inj_on handle_id (set (filter P order))"
    using listing_facts(2) [OF assms(1,2)] by (auto intro: inj_on_subset)
  ultimately show ?thesis unfolding listing_def by (rule sort_key_unique)
qed

lemma listing_spec:
  assumes "registry_inv s" and "enumerates order (entries s)"
  shows "sorted_wrt (\<lambda>v w. handle_id v < handle_id w) (listing P order)"
    and "set (listing P order) = {v. fmlookup (entries s) (handle_name v) = Some v \<and> P v}"
    and "distinct (listing P order)"
proof -
  note facts = listing_facts [OF assms]
  have "distinct (filter P order)" using facts(1) by simp
  moreover have "inj_on handle_id (set (filter P order))"
    using facts(2) by (auto intro: inj_on_subset)
  ultimately show "sorted_wrt (\<lambda>v w. handle_id v < handle_id w) (listing P order)"
    unfolding listing_def by (rule sort_key_strict)
  show "set (listing P order) = {v. fmlookup (entries s) (handle_name v) = Some v \<and> P v}"
    using facts(3) by (auto simp: listing_def)
  show "distinct (listing P order)" using facts(1) by (simp add: listing_def)
qed

end

end
