(* ===== verification/Names.thy ===== *)
theory Names
  imports Strings
begin

text \<open>
  Resource names: \<^verbatim>\<open>topics/topic_name.rs\<close> and \<^verbatim>\<open>subscriptions/subscription_name.rs\<close>. Both
  parsers slice by byte offsets: after the project they skip as many bytes as the collection
  segment has and take the rest. \<open>parse_resource\<close> is that shared code, with the length of the
  segment as its argument.
\<close>

definition project_prefix :: string where
  "project_prefix = ''projects/''"

definition topic_prefix :: string where
  "topic_prefix = ''/topics/''"

definition subscription_prefix :: string where
  "subscription_prefix = ''/subscriptions/''"

record topic_name =
  tn_project_id :: string
  tn_topic_id :: string

record subscription_name =
  sn_project_id :: string
  sn_subscription_id :: string

definition parse_resource :: "nat \<Rightarrow> string \<Rightarrow> (string \<times> string) option" where
  "parse_resource segment_len unparsed =
     (if length unparsed \<le> length project_prefix + segment_len + 2 then None
      else if \<not> starts_with unparsed project_prefix then None
      else do {
        project_id \<leftarrow> get_from unparsed (length project_prefix);
        slash \<leftarrow> find_char (CHR ''/'') project_id;
        project_id \<leftarrow> get_to project_id slash;
        let start = length project_prefix + length project_id + segment_len;
        rest \<leftarrow> get_from unparsed start;
        Some (project_id, trim_matches (CHR ''/'') rest)
      })"

definition topic_name_new :: "string \<Rightarrow> string \<Rightarrow> topic_name" where
  "topic_name_new project_id topic_id = \<lparr>tn_project_id = project_id, tn_topic_id = topic_id\<rparr>"

definition topic_name_deleted :: topic_name where
  "topic_name_deleted = \<lparr>tn_project_id = '''', tn_topic_id = ''_deleted_topic_''\<rparr>"

definition topic_name_try_parse :: "string \<Rightarrow> topic_name option" where
  "topic_name_try_parse unparsed = do {
     (project_id, topic_id) \<leftarrow> parse_resource (length topic_prefix) unparsed;
     Some \<lparr>tn_project_id = project_id, tn_topic_id = topic_id\<rparr>
   }"

definition topic_is_in_project :: "topic_name \<Rightarrow> string \<Rightarrow> bool" where
  "topic_is_in_project n project_id \<longleftrightarrow> tn_project_id n = project_id"

definition topic_name_to_string :: "topic_name \<Rightarrow> string" where
  "topic_name_to_string n = project_prefix @ tn_project_id n @ topic_prefix @ tn_topic_id n"

definition subscription_name_new :: "string \<Rightarrow> string \<Rightarrow> subscription_name" where
  "subscription_name_new project_id subscription_id =
     \<lparr>sn_project_id = project_id, sn_subscription_id = subscription_id\<rparr>"

definition subscription_name_try_parse :: "string \<Rightarrow> subscription_name option" where
  "subscription_name_try_parse unparsed = do {
     (project_id, subscription_id) \<leftarrow> parse_resource (length subscription_prefix) unparsed;
     Some \<lparr>sn_project_id = project_id, sn_subscription_id = subscription_id\<rparr>
   }"

definition subscription_is_in_project :: "subscription_name \<Rightarrow> string \<Rightarrow> bool" where
  "subscription_is_in_project n project_id \<longleftrightarrow> sn_project_id n = project_id"

definition subscription_name_to_string :: "subscription_name \<Rightarrow> string" where
  "subscription_name_to_string n =
     project_prefix @ sn_project_id n @ subscription_prefix @ sn_subscription_id n"

section \<open>Printing and parsing agree\<close>

text \<open>
  The names the round trip covers: the project has no slash, the identifier neither starts nor
  ends with one, both start on a char boundary (every UTF-8 string does), and together they have
  more than two bytes (the parser's length check refuses shorter ones).
\<close>

definition starts_on_boundary :: "string \<Rightarrow> bool" where
  "starts_on_boundary s \<longleftrightarrow> s = [] \<or> \<not> is_continuation_byte (hd s)"

definition wf_resource :: "string \<Rightarrow> string \<Rightarrow> bool" where
  "wf_resource project_id ident \<longleftrightarrow>
     CHR ''/'' \<notin> set project_id \<and> starts_on_boundary project_id \<and> starts_on_boundary ident
     \<and> (ident \<noteq> [] \<longrightarrow> hd ident \<noteq> CHR ''/'' \<and> last ident \<noteq> CHR ''/'')
     \<and> length project_id + length ident > 2"

definition wf_topic_name :: "topic_name \<Rightarrow> bool" where
  "wf_topic_name n \<longleftrightarrow> wf_resource (tn_project_id n) (tn_topic_id n)"

definition wf_subscription_name :: "subscription_name \<Rightarrow> bool" where
  "wf_subscription_name n \<longleftrightarrow> wf_resource (sn_project_id n) (sn_subscription_id n)"

lemma get_from_boundary:
  "starts_on_boundary ys \<Longrightarrow> get_from (xs @ ys) (length xs) = Some ys"
  by (cases ys) (auto simp: starts_on_boundary_def get_from_append get_from_def is_char_boundary_def)

lemma slash_not_continuation [simp]: "\<not> is_continuation_byte (CHR ''/'')"
  by (simp add: is_continuation_byte_def)

text \<open>
  The parser never looks at the bytes of the collection segment beyond its leading slash: any
  segment of the right length is accepted.
\<close>

lemma parse_resource_any_segment:
  assumes "wf_resource p t"
  shows "parse_resource (Suc (length seg)) (project_prefix @ p @ (CHR ''/'' # seg) @ t) = Some (p, t)"
proof -
  let ?s = "project_prefix @ p @ (CHR ''/'' # seg) @ t"
  have wf: "CHR ''/'' \<notin> set p" "starts_on_boundary p" "starts_on_boundary t"
    "t \<noteq> [] \<Longrightarrow> hd t \<noteq> CHR ''/'' \<and> last t \<noteq> CHR ''/''" "length p + length t > 2"
    using assms by (auto simp: wf_resource_def)
  have long: "\<not> length ?s \<le> length project_prefix + Suc (length seg) + 2"
    using wf(5) by simp
  have rest: "starts_on_boundary (p @ (CHR ''/'' # seg) @ t)"
    using wf(2) by (cases p) (simp_all add: starts_on_boundary_def)
  have 1: "get_from ?s (length project_prefix) = Some (p @ (CHR ''/'' # seg) @ t)"
    by (rule get_from_boundary [OF rest])
  have 2: "find_char (CHR ''/'') (p @ (CHR ''/'' # seg) @ t) = Some (length p)"
    using find_char_append [OF wf(1)] by simp
  have 3: "get_to (p @ (CHR ''/'' # seg) @ t) (length p) = Some p"
    using get_to_append [of "(CHR ''/'' # seg) @ t" p] by simp
  have 4: "get_from ?s (length project_prefix + length p + Suc (length seg)) = Some t"
    using get_from_boundary [OF wf(3), of "project_prefix @ p @ (CHR ''/'' # seg)"]
    by (simp add: add.assoc)
  have 5: "trim_matches (CHR ''/'') t = t"
    by (rule trim_matches_idle) (rule wf(4))
  show ?thesis
    unfolding parse_resource_def using long 1 2 3 4 5 by simp
qed

interpretation topic_text: text_codec topic_name_to_string topic_name_try_parse wf_topic_name
proof unfold_locales
  fix n :: topic_name
  assume "wf_topic_name n"
  then show "topic_name_try_parse (topic_name_to_string n) = Some n"
    using parse_resource_any_segment [of "tn_project_id n" "tn_topic_id n" "''topics/''"]
    by (simp add: wf_topic_name_def topic_name_try_parse_def topic_name_to_string_def topic_prefix_def)
qed

interpretation subscription_text:
  text_codec subscription_name_to_string subscription_name_try_parse wf_subscription_name
proof unfold_locales
  fix n :: subscription_name
  assume "wf_subscription_name n"
  then show "subscription_name_try_parse (subscription_name_to_string n) = Some n"
    using parse_resource_any_segment
      [of "sn_project_id n" "sn_subscription_id n" "''subscriptions/''"]
    by (simp add: wf_subscription_name_def subscription_name_try_parse_def
        subscription_name_to_string_def subscription_prefix_def)
qed

text \<open>
  C36. Printing a well-formed topic or subscription name and parsing it back gives the name.
\<close>

theorem resource_names_roundtrip:
  assumes "wf_topic_name t" and "wf_subscription_name s"
  shows "topic_name_try_parse (topic_name_to_string t) = Some t
    \<and> subscription_name_try_parse (subscription_name_to_string s) = Some s"
  using topic_text.parse_show [OF assms(1)] subscription_text.parse_show [OF assms(2)] by simp

theorem resource_names_roundtrip_witness:
  "topic_name_try_parse (topic_name_to_string (topic_name_new ''lets-go'' ''deltio''))
     = Some (topic_name_new ''lets-go'' ''deltio'')
   \<and> subscription_name_try_parse (subscription_name_to_string (subscription_name_new ''p'' ''sub''))
     = Some (subscription_name_new ''p'' ''sub'')"
  by (rule resource_names_roundtrip) code_simp+

text \<open>
  The topic parser does not check the collection segment: every eight-byte segment that
  starts with a slash is accepted in place of \<^verbatim>\<open>/topics/\<close>.
\<close>

theorem topic_name_segment_unchecked:
  assumes "wf_resource p t" and "length seg = 7"
  shows "topic_name_try_parse (project_prefix @ p @ (CHR ''/'' # seg) @ t)
    = Some \<lparr>tn_project_id = p, tn_topic_id = t\<rparr>"
  using parse_resource_any_segment [OF assms(1), of seg] assms(2)
  by (simp add: topic_name_try_parse_def topic_prefix_def eval_nat_numeral)

theorem topic_name_segment_unchecked_witness:
  "topic_name_try_parse (project_prefix @ ''proj'' @ (CHR ''/'' # ''nosuch/'') @ ''events'')
    = Some \<lparr>tn_project_id = ''proj'', tn_topic_id = ''events''\<rparr>"
  by (rule topic_name_segment_unchecked) code_simp+

end
