(* ===== verification/Paging.thy ===== *)
theory Paging
  imports Prelude
begin

text \<open>
  Pagination: \<^verbatim>\<open>paging/mod.rs\<close> and the page tokens of \<^verbatim>\<open>api/page_token.rs\<close>. The base64 engine
  is a third-party crate; its two functions are arguments of the token functions. \<open>walk\<close> is the
  client that follows the offsets from page to page.
\<close>

section \<open>Paging\<close>

record paging =
  pg_size :: nat
  pg_offset :: "nat option"

definition paging_new :: "nat \<Rightarrow> nat option \<Rightarrow> paging" where
  "paging_new n offset =
     \<lparr>pg_size = (if n = 0 then 20 else if 1000 < n then 1000 else n), pg_offset = offset\<rparr>"

definition paging_start :: "nat \<Rightarrow> paging" where
  "paging_start n = \<lparr>pg_size = n, pg_offset = None\<rparr>"

definition paging_size :: "paging \<Rightarrow> nat" where
  "paging_size p = min (pg_size p) 10000"

definition to_skip :: "paging \<Rightarrow> nat" where
  "to_skip p = (case pg_offset p of None \<Rightarrow> 0 | Some i \<Rightarrow> i)"

definition next_page :: "nat option \<Rightarrow> paging \<Rightarrow> paging" where
  "next_page new_offset p = \<lparr>pg_size = pg_size p, pg_offset = new_offset\<rparr>"

definition next_page_from_slice_result :: "'a list \<Rightarrow> paging \<Rightarrow> paging" where
  "next_page_from_slice_result result p =
     (let skip_value = to_skip p;
          new_offset = (if result \<noteq> [] then Some (skip_value + length result) else None)
      in next_page new_offset p)"

text \<open>The slice of a sorted listing that one page shows, with the offset of the next page: the tail
  of every list operation of the managers and of the topic actor.\<close>

definition page_of :: "paging \<Rightarrow> 'a list \<Rightarrow> 'a list \<times> nat option" where
  "page_of p xs =
     (let page = take (paging_size p) (drop (to_skip p) xs)
      in (page, pg_offset (next_page_from_slice_result page p)))"

function walk :: "paging \<Rightarrow> 'a list \<Rightarrow> 'a list list" where
  "walk p xs =
     (case page_of p xs of
        (page, None) \<Rightarrow> [page]
      | (page, Some i) \<Rightarrow> page # walk (p\<lparr>pg_offset := Some i\<rparr>) xs)"
  by pat_completeness auto
termination
  by (relation "measure (\<lambda>(p, xs). length xs - to_skip p)")
    (auto simp: page_of_def next_page_from_slice_result_def next_page_def to_skip_def Let_def
      split: if_splits option.splits)

declare walk.simps [simp del]

abbreviation current_page :: "paging \<Rightarrow> 'a list \<Rightarrow> 'a list" where
  "current_page p xs \<equiv> take (paging_size p) (drop (to_skip p) xs)"

abbreviation following :: "paging \<Rightarrow> 'a list \<Rightarrow> paging" where
  "following p xs \<equiv> p\<lparr>pg_offset := Some (to_skip p + length (current_page p xs))\<rparr>"

lemma to_skip_offset [simp]: "to_skip (p\<lparr>pg_offset := Some i\<rparr>) = i"
  by (simp add: to_skip_def)

lemma paging_size_offset [simp]: "paging_size (p\<lparr>pg_offset := i\<rparr>) = paging_size p"
  by (simp add: paging_size_def)

lemma walk_step:
  "walk p xs = (if current_page p xs = [] then [[]] else current_page p xs # walk (following p xs) xs)"
  by (subst walk.simps)
    (simp add: page_of_def next_page_from_slice_result_def next_page_def Let_def)

lemma walk_induct [case_names last more]:
  assumes "\<And>p. current_page p xs = [] \<Longrightarrow> P p"
    and "\<And>p. current_page p xs \<noteq> [] \<Longrightarrow> P (following p xs) \<Longrightarrow> P p"
  shows "P p"
proof (induction "length xs - to_skip p" arbitrary: p rule: less_induct)
  case less
  show ?case
  proof (cases "current_page p xs = []")
    case False
    then have "length xs - to_skip (following p xs) < length xs - to_skip p"
      by (auto simp: to_skip_def)
    then show ?thesis using assms(2) [OF False] less by blast
  qed (rule assms(1))
qed

lemma walk_concat:
  "0 < paging_size p \<Longrightarrow> concat (walk p xs) = drop (to_skip p) xs"
proof (induction p rule: walk_induct [where xs = xs])
  case (last p)
  then show ?case by (simp add: walk_step [of p])
next
  case (more p)
  have "concat (walk (following p xs) xs) = drop (to_skip (following p xs)) xs"
    using more by simp
  also have "\<dots> = drop (length (current_page p xs)) (drop (to_skip p) xs)"
    by (simp add: add.commute)
  finally have "concat (walk p xs)
      = current_page p xs @ drop (length (current_page p xs)) (drop (to_skip p) xs)"
    using more(1) by (simp only: walk_step [of p] if_False concat.simps)
  then show ?case by (metis append_take_drop_id length_take take_all_iff min_def nle_le
        append_eq_conv_conj drop_all)
qed

lemma walk_page_size: "list_all (\<lambda>page. length page \<le> paging_size p) (walk p xs)"
proof (induction p rule: walk_induct [where xs = xs])
  case (last p)
  then show ?case by (simp add: walk_step [of p])
next
  case (more p)
  then show ?case by (subst walk_step) simp
qed

lemma walk_last: "last (walk p xs) = [] \<and> [] \<notin> set (butlast (walk p xs)) \<and> walk p xs \<noteq> []"
proof (induction p rule: walk_induct [where xs = xs])
  case (last p)
  then show ?case by (simp add: walk_step [of p])
next
  case (more p)
  then have "walk p xs = current_page p xs # walk (following p xs) xs" by (subst walk_step) simp
  with more show ?case by simp
qed

text \<open>
  C34. Following the offsets from the first page enumerates a listing completely, in order and without
  repetition, whatever page size was asked for; every page respects the size limit, only the last page
  is empty, and the walk ends.
\<close>

theorem paging_walk_complete:
  "concat (walk (paging_new n None) xs) = xs
   \<and> list_all (\<lambda>page. length page \<le> 1000) (walk (paging_new n None) xs)
   \<and> last (walk (paging_new n None) xs) = [] \<and> [] \<notin> set (butlast (walk (paging_new n None) xs))"
proof -
  have "0 < paging_size (paging_new n None)" "paging_size (paging_new n None) \<le> 1000"
    and "to_skip (paging_new n None) = 0"
    by (simp_all add: paging_size_def paging_new_def to_skip_def)
  then show ?thesis
    using walk_concat [of "paging_new n None" xs] walk_page_size [of "paging_new n None" xs]
      walk_last [of "paging_new n None" xs]
    by (auto simp: list_all_iff intro: order_trans)
qed

section \<open>Page tokens\<close>

text \<open>\<^verbatim>\<open>usize::to_ne_bytes\<close> on a 64-bit little-endian machine, and its inverse, which is defined on
  exactly eight bytes.\<close>

record page_token =
  pt_value :: u64

fun le_bytes :: "nat \<Rightarrow> nat \<Rightarrow> bytes" where
  "le_bytes 0 v = []"
| "le_bytes (Suc n) v = of_nat v # le_bytes n (v div 256)"

fun le_value :: "bytes \<Rightarrow> nat" where
  "le_value [] = 0"
| "le_value (b # bs) = unat b + 256 * le_value bs"

definition to_ne_bytes :: "u64 \<Rightarrow> bytes" where
  "to_ne_bytes v = le_bytes 8 (unat v)"

definition from_ne_bytes :: "bytes \<Rightarrow> u64 option" where
  "from_ne_bytes bs = (if length bs = 8 then Some (of_nat (le_value bs)) else None)"

definition page_token_encode :: "(bytes \<Rightarrow> string) \<Rightarrow> page_token \<Rightarrow> string" where
  "page_token_encode base64_encode t = base64_encode (to_ne_bytes (pt_value t))"

definition page_token_try_decode :: "(string \<Rightarrow> bytes option) \<Rightarrow> string \<Rightarrow> page_token option" where
  "page_token_try_decode base64_decode encoded =
     (case base64_decode encoded of
        None \<Rightarrow> None
      | Some bs \<Rightarrow> map_option (\<lambda>v. \<lparr>pt_value = v\<rparr>) (from_ne_bytes bs))"

lemma le_bytes_length [simp]: "length (le_bytes n v) = n"
  by (induction n arbitrary: v) simp_all

lemma le_value_bytes: "le_value (le_bytes n v) = v mod 256 ^ n"
proof (induction n arbitrary: v)
  case (Suc n)
  have "le_value (le_bytes (Suc n) v) = v mod 256 + 256 * (v div 256 mod 256 ^ n)"
    by (simp add: Suc.IH unat_of_nat)
  then show ?case by (simp add: mod_mult2_eq)
qed simp

lemma from_to_ne_bytes: "from_ne_bytes (to_ne_bytes v) = Some v"
proof -
  have "unat v < 256 ^ 8" using unsigned_less [of v, where ?'a = nat] by simp
  then show ?thesis by (simp add: from_ne_bytes_def to_ne_bytes_def le_value_bytes)
qed

text \<open>
  Every offset survives the trip through a page token, for any base64 engine that decodes what it
  encodes.
\<close>

theorem page_token_roundtrip:
  assumes "\<And>bs. base64_decode (base64_encode bs) = Some bs"
  shows "page_token_try_decode base64_decode (page_token_encode base64_encode t) = Some t"
  by (simp add: page_token_try_decode_def page_token_encode_def assms from_to_ne_bytes)

theorem page_token_roundtrip_witness:
  "page_token_try_decode (\<lambda>s. Some (map (\<lambda>c. of_nat (of_char c)) s))
     (page_token_encode (map (\<lambda>b. char_of (unat b))) \<lparr>pt_value = 123\<rparr>) = Some \<lparr>pt_value = 123\<rparr>"
proof (rule page_token_roundtrip)
  fix bs :: bytes
  have "of_nat (of_char (char_of (unat b))) = b" for b :: u8
    using unsigned_less [of b, where ?'a = nat] by simp
  then show "Some (map (\<lambda>c. of_nat (of_char c)) (map (\<lambda>b. char_of (unat b)) bs)) = Some bs"
    by (simp add: map_idI)
qed

end
