(* ===== verification/Policies.thy ===== *)
theory Policies
  imports Names
begin

text \<open>
  Retry and dead letter policies: \<^verbatim>\<open>subscriptions/policies.rs\<close>. The backoff is exponential in
  the delivery attempt, with the exponent capped at 20 and the result capped at the maximum.
\<close>

record retry_policy =
  rp_minimum_backoff :: duration
  rp_maximum_backoff :: duration

record dead_letter_policy =
  dlp_dead_letter_topic :: topic_name
  dlp_max_delivery_attempts :: int

definition calculate_backoff :: "retry_policy \<Rightarrow> u16 \<Rightarrow> duration" where
  "calculate_backoff p delivery_attempt =
     (let exponent = min (unat (saturating_sub delivery_attempt 1)) 20;
          backoff = saturating_mul (rp_minimum_backoff p) (2 ^ exponent)
      in min backoff (rp_maximum_backoff p))"

lemma saturating_mul_mono: "k \<le> l \<Longrightarrow> saturating_mul d k \<le> saturating_mul d l"
  unfolding saturating_mul_def by (rule min.mono) simp_all

lemma backoff_exponent_mono:
  "a \<le> b \<Longrightarrow> min (unat (saturating_sub (a :: u16) 1)) 20 \<le> min (unat (saturating_sub b 1)) 20"
  by (simp add: unat_saturating_sub word_le_nat_alt)

text \<open>
  The backoff never exceeds the configured maximum, never falls below the minimum when the
  policy is consistent, and never shrinks from one attempt to the next.
\<close>

theorem calculate_backoff_bounds:
  assumes "rp_minimum_backoff p \<le> rp_maximum_backoff p"
    and "rp_minimum_backoff p \<le> duration_max"
    and "a \<le> b"
  shows "rp_minimum_backoff p \<le> calculate_backoff p a
    \<and> calculate_backoff p a \<le> calculate_backoff p b
    \<and> calculate_backoff p b \<le> rp_maximum_backoff p"
proof -
  let ?e = "\<lambda>n. min (unat (saturating_sub (n :: u16) 1)) 20"
  have "(2::nat) ^ ?e a \<le> 2 ^ ?e b"
    using backoff_exponent_mono [OF assms(3)] by (rule power_increasing) simp
  then have "saturating_mul (rp_minimum_backoff p) (2 ^ ?e a)
      \<le> saturating_mul (rp_minimum_backoff p) (2 ^ ?e b)"
    by (rule saturating_mul_mono)
  moreover have "saturating_mul (rp_minimum_backoff p) 1
      \<le> saturating_mul (rp_minimum_backoff p) (2 ^ ?e a)"
    by (rule saturating_mul_mono) simp
  moreover have "saturating_mul (rp_minimum_backoff p) 1 = rp_minimum_backoff p"
    using assms(2) by (simp add: saturating_mul_def)
  ultimately show ?thesis
    using assms(1) by (auto simp: calculate_backoff_def Let_def min_def)
qed

theorem calculate_backoff_bounds_witness:
  "rp_minimum_backoff \<lparr>rp_minimum_backoff = 1, rp_maximum_backoff = 60\<rparr>
      \<le> calculate_backoff \<lparr>rp_minimum_backoff = 1, rp_maximum_backoff = 60\<rparr> 2
   \<and> calculate_backoff \<lparr>rp_minimum_backoff = 1, rp_maximum_backoff = 60\<rparr> 2
      \<le> calculate_backoff \<lparr>rp_minimum_backoff = 1, rp_maximum_backoff = 60\<rparr> 9
   \<and> calculate_backoff \<lparr>rp_minimum_backoff = 1, rp_maximum_backoff = 60\<rparr> 9
      \<le> rp_maximum_backoff \<lparr>rp_minimum_backoff = 1, rp_maximum_backoff = 60\<rparr>"
  by (rule calculate_backoff_bounds) (simp_all add: duration_max_def nanos_per_sec_def)

text \<open>Below the caps the backoff is the documented power of two.\<close>

lemma calculate_backoff_exact:
  assumes "0 < n" and "unat n \<le> 21"
    and "rp_minimum_backoff p * 2 ^ (unat n - 1) \<le> rp_maximum_backoff p"
    and "rp_maximum_backoff p \<le> duration_max"
  shows "calculate_backoff p n = rp_minimum_backoff p * 2 ^ (unat n - 1)"
proof -
  have "min (unat (saturating_sub n 1)) 20 = unat n - 1"
    using assms(2) by (simp add: unat_saturating_sub)
  then show ?thesis
    using assms(3,4) by (simp add: calculate_backoff_def Let_def saturating_mul_def)
qed

end
