(* ===== verification/Time_Format.thy ===== *)
theory Time_Format
  imports Strings
begin

text \<open>
  RFC 3339 time stamps: \<^verbatim>\<open>time.rs\<close>. The conversion of a day number to a civil date works on
  400-year eras that start on the first of March; its specification is the Gregorian calendar
  itself, stated as the successor of a date (\<open>next_date\<close>). All subtractions of the source are on
  \<^verbatim>\<open>u64\<close> and never underflow; \<open>year_of_era_correct\<close> and \<open>day_of_year_bound\<close> give the bounds.
\<close>

section \<open>Definitions\<close>

definition year_of_era :: "nat \<Rightarrow> nat" where
  "year_of_era doe = (doe - doe div 1460 + doe div 36524 - doe div 146096) div 365"

definition month_day :: "nat \<Rightarrow> nat \<times> nat" where
  "month_day doy =
     (let mp = (5 * doy + 2) div 153;
          d = doy - (153 * mp + 2) div 5 + 1;
          m = (if mp < 10 then mp + 3 else mp - 9)
      in (m, d))"

definition epoch_days_to_date :: "nat \<Rightarrow> nat \<times> nat \<times> nat" where
  "epoch_days_to_date days =
     (let z = days + 719468;
          era = z div 146097;
          doe = z - era * 146097;
          yoe = year_of_era doe;
          y = yoe + era * 400;
          doy = doe - (365 * yoe + yoe div 4 - yoe div 100);
          (m, d) = month_day doy;
          y = (if m \<le> 2 then y + 1 else y)
      in (y, m, d))"

text \<open>\<^verbatim>\<open>{:0w}\<close>: at least \<open>w\<close> digits, padded with zeros.\<close>

definition pad_zero :: "nat \<Rightarrow> nat \<Rightarrow> string" where
  "pad_zero w n = replicate (w - length (show_nat n)) (CHR ''0'') @ show_nat n"

definition format_rfc3339 :: "system_time \<Rightarrow> string" where
  "format_rfc3339 time =
     (let since_epoch = nat time;
          total_secs = as_secs since_epoch;
          millis = subsec_nanos since_epoch div 1000000;
          days = total_secs div 86400; remaining = total_secs mod 86400;
          hours = remaining div 3600; remaining = remaining mod 3600;
          minutes = remaining div 60; seconds = remaining mod 60;
          (year, month, day) = epoch_days_to_date days
      in pad_zero 4 year @ ''-'' @ pad_zero 2 month @ ''-'' @ pad_zero 2 day @ ''T''
         @ pad_zero 2 hours @ '':'' @ pad_zero 2 minutes @ '':'' @ pad_zero 2 seconds @ ''.''
         @ pad_zero 3 millis @ ''+00:00'')"

section \<open>The Gregorian calendar\<close>

definition leap :: "nat \<Rightarrow> bool" where
  "leap y \<longleftrightarrow> 4 dvd y \<and> (\<not> 100 dvd y \<or> 400 dvd y)"

definition days_in_month :: "nat \<Rightarrow> nat \<Rightarrow> nat" where
  "days_in_month y m =
     (if m = 2 then (if leap y then 29 else 28) else if m \<in> {4, 6, 9, 11} then 30 else 31)"

fun next_date :: "nat \<times> nat \<times> nat \<Rightarrow> nat \<times> nat \<times> nat" where
  "next_date (y, m, d) =
     (if d < days_in_month y m then (y, m, d + 1)
      else if m < 12 then (y, m + 1, 1)
      else (y + 1, 1, 1))"

text \<open>First day, counted in the era, of the year that starts in March, and its length: it holds the
  February of the next calendar year.\<close>

definition year_start :: "nat \<Rightarrow> nat" where
  "year_start y = 365 * y + y div 4 - y div 100"

definition year_length :: "nat \<Rightarrow> nat" where
  "year_length y = (if leap (y + 1) then 366 else 365)"

section \<open>Years of an era\<close>

text \<open>A day of the era by century, leap cycle, year of the cycle and day of the year.\<close>

lemma year_of_era_digits:
  assumes "c \<le> 3" "l \<le> 24" "k \<le> 3" "t \<le> 365" "t = 365 \<longrightarrow> k = 3 \<and> (l < 24 \<or> c = 3)"
  shows "year_of_era (36524 * c + 1461 * l + 365 * k + t) = 100 * c + 4 * l + k"
proof -
  define doe where "doe = 36524 * c + 1461 * l + 365 * k + t"
  define edge where "edge = (if c = 3 \<and> l = 24 \<and> k = 3 \<and> t = 365 then 1 else (0::nat))"
  define e where "e = (if 1460 \<le> 24 * c + l + 365 * k + t then 1 else (0::nat))"
  have "edge = 1 \<and> c = 3 \<and> l = 24 \<and> k = 3 \<and> t = 365
      \<or> edge = 0 \<and> 1461 * l + 365 * k + t < 36524"
  proof (cases "l = 24 \<and> k = 3 \<and> t = 365")
    case True
    then show ?thesis using assms by (auto simp: edge_def)
  next
    case False
    then have "1461 * l + 365 * k + t < 36524"
      using assms by (cases "l = 24"; cases "k = 3") linarith+
    with False show ?thesis by (auto simp: edge_def)
  qed
  then have bounds: "36524 * (c + edge) \<le> doe \<and> doe < 36524 * (c + edge) + 36524
      \<and> 146096 * edge \<le> doe \<and> doe < 146096 * edge + 146096"
    using assms(1) unfolding doe_def by (elim disjE conjE) simp_all
  have "e = 1 \<and> 1460 \<le> 24 * c + l + 365 * k + t \<or> e = 0 \<and> 24 * c + l + 365 * k + t < 1460"
    by (auto simp: e_def)
  then have e: "1460 * (25 * c + l + e) \<le> doe \<and> doe < 1460 * (25 * c + l + e) + 1460
      \<and> e \<le> t \<and> t < 365 + e"
    using assms unfolding doe_def by (elim disjE conjE; intro conjI; (linarith | cases "t = 365"; simp))
  have divs: "doe div 36524 = c + edge" "doe div 146096 = edge" "doe div 1460 = 25 * c + l + e"
    using bounds e by (auto intro!: div_nat_eqI)
  have "doe - doe div 1460 + doe div 36524 - doe div 146096 = 365 * (100 * c + 4 * l + k) + (t - e)"
    unfolding divs using e unfolding doe_def by simp
  moreover have "t - e < 365" using e by linarith
  ultimately have "year_of_era doe = 100 * c + 4 * l + k"
    by (simp add: year_of_era_def)
  then show ?thesis by (simp only: doe_def)
qed

lemma year_digits:
  fixes y :: nat
  assumes "y < 400"
  obtains c l k where "y = 100 * c + 4 * l + k" "c \<le> 3" "l \<le> 24" "k \<le> 3"
proof -
  have "y = 100 * (y div 100) + 4 * (y mod 100 div 4) + y mod 100 mod 4"
    by (metis add.assoc mult_div_mod_eq)
  moreover have "y div 100 \<le> 3" "y mod 100 div 4 \<le> 24" "y mod 100 mod 4 \<le> 3"
    using assms by auto
  ultimately show thesis by (rule that)
qed

lemma leap_digits:
  assumes "c \<le> 3" "l \<le> 24" "k \<le> (3::nat)"
  shows "leap (100 * c + 4 * l + k + 1) \<longleftrightarrow> k = 3 \<and> (l < 24 \<or> c = 3)"
proof -
  define j where "j = 4 * l + k + 1"
  have n: "100 * c + 4 * l + k + 1 = 100 * c + j" by (simp add: j_def)
  have "4 dvd 100 * c + j \<longleftrightarrow> 4 dvd j"
    by (rule dvd_add_right_iff) (simp add: dvd_mult2)
  moreover have "4 dvd j \<longleftrightarrow> 4 dvd k + 1"
    unfolding j_def add.assoc by (rule dvd_add_right_iff) simp
  moreover have "4 dvd k + 1 \<longleftrightarrow> k = 3"
    using assms(3) by (auto dest: dvd_imp_le)
  moreover have "100 dvd 100 * c + j \<longleftrightarrow> j = 100"
  proof -
    have "100 dvd 100 * c + j \<longleftrightarrow> 100 dvd j" by (rule dvd_add_right_iff) simp
    also have "\<dots> \<longleftrightarrow> j = 100" using assms dvd_imp_le [of 100 j] by (auto simp: j_def)
    finally show ?thesis .
  qed
  moreover have "j = 100 \<Longrightarrow> 400 dvd 100 * c + j \<longleftrightarrow> c = 3"
  proof -
    assume "j = 100"
    then have "100 * c + j = 100 * (c + 1)" "(400::nat) = 100 * 4" by simp_all
    then have "400 dvd 100 * c + j \<longleftrightarrow> 4 dvd c + 1" by (metis dvd_mult_cancel1 nat_mult_dvd_cancel_disj zero_neq_numeral)
    then show ?thesis using assms(1) by (auto dest: dvd_imp_le)
  qed
  moreover have "j = 100 \<longleftrightarrow> k = 3 \<and> l = 24" using assms unfolding j_def by presburger
  ultimately show ?thesis
    unfolding leap_def n using assms(2) by auto
qed

lemma year_start_digits:
  assumes "c \<le> 3" "l \<le> 24" "k \<le> 3"
  shows "year_start (100 * c + 4 * l + k) = 36524 * c + 1461 * l + 365 * k"
proof -
  have "(100 * c + 4 * l + k) div 4 = 25 * c + l" "(100 * c + 4 * l + k) div 100 = c"
    using assms by (auto intro!: div_nat_eqI)
  then show ?thesis by (simp add: year_start_def)
qed

lemma year_of_era_interval:
  assumes "y < 400" and "t < year_length y"
  shows "year_of_era (year_start y + t) = y"
proof -
  obtain c l k where y: "y = 100 * c + 4 * l + k" "c \<le> 3" "l \<le> 24" "k \<le> 3"
    using year_digits [OF assms(1)] by blast
  then show ?thesis
    using assms(2) year_of_era_digits [of c l k t] leap_digits [of c l k]
    by (auto simp: year_start_digits year_length_def split: if_splits)
qed

lemma year_start_Suc:
  assumes "y < 400"
  shows "year_start y + year_length y = (if y = 399 then 146097 else year_start (y + 1))"
proof -
  obtain c l k where y: "y = 100 * c + 4 * l + k" and le: "c \<le> 3" "l \<le> 24" "k \<le> 3"
    using year_digits [OF assms] by blast
  note here = year_start_digits [OF le, folded y] leap_digits [OF le, folded y]
  consider "k < 3" | "k = 3" "l < 24" | "k = 3" "l = 24" "c < 3" | "k = 3" "l = 24" "c = 3"
    using le by linarith
  then show ?thesis
  proof cases
    case 1
    then have "year_start (y + 1) = 36524 * c + 1461 * l + 365 * (k + 1)"
      using year_start_digits [of c l "k + 1"] le y by simp
    with 1 here y le show ?thesis by (simp add: year_length_def)
  next
    case 2
    then have "year_start (y + 1) = 36524 * c + 1461 * (l + 1)"
      using year_start_digits [of c "l + 1" 0] le y by (simp add: algebra_simps)
    with 2 here y le show ?thesis by (simp add: year_length_def)
  next
    case 3
    then have "year_start (y + 1) = 36524 * (c + 1)"
      using year_start_digits [of "c + 1" 0 0] le y by simp
    with 3 here y le show ?thesis by (simp add: year_length_def)
  next
    case 4
    with here y show ?thesis by (simp add: year_length_def)
  qed
qed

lemma year_start_mono: "x \<le> y \<Longrightarrow> y < 400 \<Longrightarrow> year_start x \<le> year_start y"
proof (induction y rule: dec_induct)
  case (step n)
  then show ?case using year_start_Suc [of n] by simp
qed simp

lemma year_start_Suc_le:
  assumes "y < 400"
  shows "year_start y + year_length y \<le> 146097"
proof (cases "y = 399")
  case False
  then have "year_start (y + 1) \<le> year_start 399"
    using assms year_start_mono by simp
  moreover have "year_start 399 + year_length 399 = 146097"
    using year_start_Suc [of 399] by simp
  ultimately show ?thesis
    using year_start_Suc [OF assms] False by simp
qed (use year_start_Suc [OF assms] in simp)

lemma year_exists:
  "y < 400 \<Longrightarrow> doe < year_start y + year_length y \<Longrightarrow>
   \<exists>x t. x < 400 \<and> doe = year_start x + t \<and> t < year_length x"
proof (induction y)
  case (Suc y)
  show ?case
  proof (cases "doe < year_start (Suc y)")
    case True
    then show ?thesis using Suc year_start_Suc [of y] by auto
  next
    case False
    then show ?thesis
      using Suc.prems by (intro exI [of _ "Suc y"] exI [of _ "doe - year_start (Suc y)"]) auto
  qed
qed (auto simp: year_start_def intro: exI [of _ 0])

section \<open>Months of a year\<close>

definition month_start :: "nat \<Rightarrow> nat" where
  "month_start n = (153 * n + 2) div 5"

definition month_number :: "nat \<Rightarrow> nat" where
  "month_number n = (if n < 10 then n + 3 else n - 9)"

lemma month_day_interval:
  assumes "month_start n \<le> doy" and "doy < month_start (n + 1)"
  shows "month_day doy = (month_number n, doy - month_start n + 1)"
proof -
  have "5 * month_start (n + 1) \<le> 153 * (n + 1) + 2" by (simp add: month_start_def)
  with assms(2) have "5 * doy + 2 < 153 * n + 153" by simp
  moreover have "153 * n \<le> 5 * doy + 2"
    using assms(1) unfolding month_start_def by linarith
  ultimately have "(5 * doy + 2) div 153 = n" by (auto intro!: div_nat_eqI)
  then show ?thesis by (simp add: month_day_def month_number_def month_start_def)
qed

lemma month_exists: "doy < month_start n \<Longrightarrow> \<exists>k < n. month_start k \<le> doy \<and> doy < month_start (k + 1)"
proof (induction n)
  case (Suc n)
  then show ?case by (cases "doy < month_start n") (auto intro: less_SucI)
qed (simp add: month_start_def)

lemma month_lengths:
  assumes "n \<le> 10"
  shows "month_start n + days_in_month 1 (month_number n) = month_start (n + 1)
    \<and> month_number (n + 1) = (if month_number n = 12 then 1 else month_number n + 1)
    \<and> month_number n \<noteq> 2 \<and> month_number n \<le> 12"
proof -
  have "list_all (\<lambda>n. month_start n + days_in_month 1 (month_number n) = month_start (n + 1)
      \<and> month_number (n + 1) = (if month_number n = 12 then 1 else month_number n + 1)
      \<and> month_number n \<noteq> 2 \<and> month_number n \<le> 12) [0..<11]"
    by code_simp
  moreover have "n \<in> set [0..<11]" using assms by simp
  ultimately show ?thesis unfolding list_all_iff by blast
qed

lemma month_day_step:
  assumes "doy < 364" and "month_day doy = (m, d)"
  shows "month_day (doy + 1) = (if d = days_in_month 1 m then (if m = 12 then 1 else m + 1, 1)
      else (m, d + 1)) \<and> d \<le> days_in_month 1 m \<and> (m = 2 \<longrightarrow> d < 28) \<and> m \<le> 12"
proof -
  have "doy < month_start 12" using assms(1) by (simp add: month_start_def)
  then obtain n where n: "n < 12" "month_start n \<le> doy" "doy < month_start (n + 1)"
    using month_exists by blast
  then have md: "m = month_number n" "d = doy - month_start n + 1"
    using month_day_interval assms(2) by auto
  show ?thesis
  proof (cases "n = 11")
    case True
    then have m: "m = 2" "month_start n = 337" "month_start (n + 1) = 367"
      using md by (simp_all add: month_number_def month_start_def)
    then have "month_day (doy + 1) = (m, d + 1)"
      using month_day_interval [of n "doy + 1"] n assms(1) md by simp
    moreover have "d < 28" using m md assms(1) n by linarith
    ultimately show ?thesis
      using m by (simp add: days_in_month_def leap_def)
  next
    case False
    then have len: "month_start n + days_in_month 1 m = month_start (n + 1)"
      "month_number (n + 1) = (if m = 12 then 1 else m + 1)" "m \<noteq> 2" "m \<le> 12"
      using month_lengths [of n] n(1) md by auto
    have pos: "month_start (n + 1) < month_start (n + 2)"
      using div_le_mono [of "153 * (n + 1) + 2 + 5" "153 * (n + 2) + 2" 5]
      unfolding month_start_def by simp
    show ?thesis
    proof (cases "doy + 1 < month_start (n + 1)")
      case True
      then have "month_day (doy + 1) = (m, d + 1)"
        using month_day_interval [of n "doy + 1"] n md by simp
      moreover have "d < days_in_month 1 m" using True n md len by linarith
      ultimately show ?thesis using len by simp
    next
      case False
      then have at: "doy + 1 = month_start (n + 1)" using n(3) by simp
      then have "month_day (doy + 1) = (if m = 12 then 1 else m + 1, 1)"
        using month_day_interval [of "n + 1" "doy + 1"] pos len by simp
      moreover have "d = days_in_month 1 m" using at n md len by linarith
      ultimately show ?thesis using len by simp
    qed
  qed
qed

lemma month_day_last: "month_day 364 = (2, 28)" "month_day 365 = (2, 29)" "month_day 0 = (3, 1)"
  by code_simp+


section \<open>The date of a day number\<close>

lemma leap_era: "leap (y + era * 400) \<longleftrightarrow> leap y"
proof -
  have "4 dvd y + era * 400 \<longleftrightarrow> 4 dvd y" "100 dvd y + era * 400 \<longleftrightarrow> 100 dvd y"
    "400 dvd y + era * 400 \<longleftrightarrow> 400 dvd y"
    by (rule dvd_add_left_iff; simp add: dvd_mult)+
  then show ?thesis by (simp add: leap_def)
qed

definition era_date :: "nat \<Rightarrow> nat \<Rightarrow> nat \<Rightarrow> nat \<times> nat \<times> nat" where
  "era_date era y t =
     (case month_day t of (m, d) \<Rightarrow> (if m \<le> 2 then y + era * 400 + 1 else y + era * 400, m, d))"

lemma epoch_days_to_date_eq:
  assumes "days + 719468 = era * 146097 + year_start y + t" and "y < 400" and "t < year_length y"
  shows "epoch_days_to_date days = era_date era y t"
proof -
  have "year_start y + t < 146097"
    using assms(3) year_start_Suc_le [OF assms(2)] by simp
  then have "(days + 719468) div 146097 = era"
    using assms(1) by (auto intro!: div_nat_eqI)
  moreover have "days + 719468 - era * 146097 = year_start y + t"
    using assms(1) by simp
  ultimately show ?thesis
    using year_of_era_interval [OF assms(2,3)]
    by (simp add: epoch_days_to_date_def era_date_def Let_def flip: year_start_def
        del: diff_diff_left split: prod.split)
qed

lemma days_decompose:
  obtains era y t where "days + 719468 = era * 146097 + year_start y + t" "y < 400" "t < year_length y"
proof -
  let ?z = "days + 719468"
  have "?z mod 146097 < year_start 399 + year_length 399"
    using year_start_Suc [of 399] by simp
  then obtain y t where "y < 400" "?z mod 146097 = year_start y + t" "t < year_length y"
    using year_exists [of 399 "?z mod 146097"] by auto
  moreover have "?z = ?z div 146097 * 146097 + ?z mod 146097" by (simp only: div_mult_mod_eq)
  ultimately show thesis using that by (metis add.assoc)
qed

lemma next_date_in_year:
  assumes "t + 1 < year_length y"
  shows "next_date (era_date era y t) = era_date era y (t + 1)"
proof (cases "t = 364")
  case True
  then have "leap (y + 1)" using assms by (auto simp: year_length_def split: if_splits)
  then have "leap (y + era * 400 + 1)" using leap_era [of "y + 1" era] by (simp add: ac_simps)
  then show ?thesis
    using True month_day_last by (simp add: era_date_def days_in_month_def)
next
  case False
  then have "t < 364" using assms by (auto simp: year_length_def split: if_splits)
  obtain m d where md: "month_day t = (m, d)" by fastforce
  define len where "len = days_in_month 1 m"
  note step = month_day_step [OF \<open>t < 364\<close> md, folded len_def]
  show ?thesis
  proof (cases "m = 2")
    case True
    then have "d < days_in_month y' 2 \<and> d \<noteq> len" for y'
      using step by (auto simp: len_def days_in_month_def leap_def)
    then show ?thesis using step md True by (simp add: era_date_def)
  next
    case False
    then have "days_in_month y' m = len" for y'
      by (simp add: len_def days_in_month_def)
    then show ?thesis using step md False by (auto simp: era_date_def)
  qed
qed

lemma next_date_new_year:
  assumes "t + 1 = year_length y"
  shows "next_date (era_date era y t) = (y + era * 400 + 1, 3, 1)"
proof -
  have leap: "leap (y + era * 400 + 1) \<longleftrightarrow> leap (y + 1)"
    using leap_era [of "y + 1" era] by (simp add: ac_simps)
  consider "leap (y + 1)" "t = 365" | "\<not> leap (y + 1)" "t = 364"
    using assms by (auto simp: year_length_def split: if_splits)
  then show ?thesis
    using leap month_day_last by cases (simp_all add: era_date_def days_in_month_def)
qed

text \<open>
  C20. The date conversion is the Gregorian calendar: day 0 is the first of January 1970, and the
  date of each day is the calendar successor of the date of the day before, for all days.
\<close>

theorem epoch_days_to_date_calendar:
  "epoch_days_to_date 0 = (1970, 1, 1)
   \<and> epoch_days_to_date (n + 1) = next_date (epoch_days_to_date n)"
proof
  show "epoch_days_to_date 0 = (1970, 1, 1)" by code_simp
  obtain era y t where n: "n + 719468 = era * 146097 + year_start y + t" "y < 400" "t < year_length y"
    by (rule days_decompose)
  note date_n = epoch_days_to_date_eq [OF n]
  show "epoch_days_to_date (n + 1) = next_date (epoch_days_to_date n)"
  proof (cases "t + 1 < year_length y")
    case True
    then have "epoch_days_to_date (n + 1) = era_date era y (t + 1)"
      using epoch_days_to_date_eq [of "n + 1" era y "t + 1"] n by simp
    with date_n next_date_in_year [OF True] show ?thesis by simp
  next
    case False
    then have last: "t + 1 = year_length y" using n(3) by simp
    let ?era = "if y = 399 then era + 1 else era"
    let ?y = "if y = 399 then 0 else y + 1"
    have "n + 1 + 719468 = ?era * 146097 + year_start ?y + 0"
      using n last year_start_Suc [OF n(2)] by (auto simp: year_start_def [of 0])
    from epoch_days_to_date_eq [OF this] n(2)
    have "epoch_days_to_date (n + 1) = era_date ?era ?y 0"
      by (auto simp: year_length_def)
    also have "\<dots> = (y + era * 400 + 1, 3, 1)"
      using month_day_last by (simp add: era_date_def)
    finally show ?thesis
      using date_n next_date_new_year [OF last] by simp
  qed
qed

end
