(* ===== verification/Subscription_Info.thy ===== *)
theory Subscription_Info
  imports Policies Message Time_Format
begin

text \<open>
  The data a subscription carries (\<^verbatim>\<open>subscriptions/subscription.rs\<close>): its configuration, the
  partial updates of it, push configuration and acknowledgement outcomes; its counters and
  statistics (\<^verbatim>\<open>subscriptions/stats.rs\<close>); and the errors of its operations
  (\<^verbatim>\<open>subscriptions/errors.rs\<close>). Equality and order of subscriptions are those of their
  internal ids.
\<close>

section \<open>Errors\<close>

datatype create_subscription_error =
    CreateSubscription_AlreadyExists | CreateSubscription_MustBeInSameProjectAsTopic
  | CreateSubscription_DeadLetterTopicDoesNotExist | CreateSubscription_Closed

datatype get_subscription_error = GetSubscription_DoesNotExist | GetSubscription_Closed
datatype list_subscriptions_error = ListSubscriptions_Closed
datatype get_info_error = GetInfo_Closed
datatype post_messages_error = PostMessages_Closed
datatype pull_messages_error = PullMessages_Closed | PullMessages_Detached
datatype acknowledge_messages_error = AcknowledgeMessages_Closed
datatype modify_deadline_error = ModifyDeadline_Closed
datatype delete_error = Delete_Closed
datatype get_stats_error = GetStats_Closed
datatype seek_error = Seek_Closed

section \<open>Configuration\<close>

record push_config_oidc_token =
  oidc_audience :: string
  oidc_service_account_email :: string

record push_config =
  pc_endpoint :: string
  pc_oidc_token :: "push_config_oidc_token option"
  pc_attributes :: "attributes option"

record subscription_info =
  si_name :: subscription_name
  si_ack_deadline :: duration
  si_push_config :: "push_config option"
  si_retry_policy :: "retry_policy option"
  si_dead_letter_policy :: "dead_letter_policy option"
  si_message_retention_duration :: "duration option"
  si_enable_message_ordering :: bool
  si_enable_exactly_once_delivery :: bool
  si_filter :: "string option"
  si_detached :: bool

record ack_outcome =
  ao_valid :: "ack_id list"
  ao_invalid :: "ack_id list"

record subscription_update =
  su_ack_deadline :: "duration option"
  su_retry_policy :: "retry_policy option option"
  su_dead_letter_policy :: "dead_letter_policy option option"
  su_message_retention_duration :: "duration option option"
  su_enable_exactly_once_delivery :: "bool option"

definition push_config_new ::
    "string \<Rightarrow> push_config_oidc_token option \<Rightarrow> attributes option \<Rightarrow> push_config" where
  "push_config_new endpoint token attrs =
     \<lparr>pc_endpoint = endpoint, pc_oidc_token = token, pc_attributes = attrs\<rparr>"

definition ack_outcome_default :: ack_outcome where
  "ack_outcome_default = \<lparr>ao_valid = [], ao_invalid = []\<rparr>"

definition subscription_update_default :: subscription_update where
  "subscription_update_default =
     \<lparr>su_ack_deadline = None, su_retry_policy = None, su_dead_letter_policy = None,
      su_message_retention_duration = None, su_enable_exactly_once_delivery = None\<rparr>"

definition subscription_info_new ::
    "subscription_name \<Rightarrow> duration \<Rightarrow> push_config option \<Rightarrow> retry_policy option
     \<Rightarrow> dead_letter_policy option \<Rightarrow> subscription_info" where
  "subscription_info_new name ack_deadline push retry dead_letter =
     \<lparr>si_name = name, si_ack_deadline = ack_deadline, si_push_config = push,
      si_retry_policy = retry, si_dead_letter_policy = dead_letter,
      si_message_retention_duration = None, si_enable_message_ordering = False,
      si_enable_exactly_once_delivery = False, si_filter = None, si_detached = False\<rparr>"

definition subscription_info_new_with_defaults :: "subscription_name \<Rightarrow> subscription_info" where
  "subscription_info_new_with_defaults name =
     \<lparr>si_name = name, si_ack_deadline = from_secs 10, si_push_config = None,
      si_retry_policy = None, si_dead_letter_policy = None,
      si_message_retention_duration = None, si_enable_message_ordering = False,
      si_enable_exactly_once_delivery = False, si_filter = None, si_detached = False\<rparr>"

text \<open>\<^verbatim>\<open>apply_update\<close>: each field of the update that is present overwrites the field of the info.\<close>

definition apply_update :: "subscription_update \<Rightarrow> subscription_info \<Rightarrow> subscription_info" where
  "apply_update update info0 =
     (let info1 = (case su_ack_deadline update of
                     None \<Rightarrow> info0 | Some d \<Rightarrow> info0\<lparr>si_ack_deadline := d\<rparr>);
          info2 = (case su_retry_policy update of
                     None \<Rightarrow> info1 | Some rp \<Rightarrow> info1\<lparr>si_retry_policy := rp\<rparr>);
          info3 = (case su_dead_letter_policy update of
                     None \<Rightarrow> info2 | Some dlp \<Rightarrow> info2\<lparr>si_dead_letter_policy := dlp\<rparr>);
          info4 = (case su_message_retention_duration update of
                     None \<Rightarrow> info3 | Some mrd \<Rightarrow> info3\<lparr>si_message_retention_duration := mrd\<rparr>)
      in (case su_enable_exactly_once_delivery update of
            None \<Rightarrow> info4 | Some eod \<Rightarrow> info4\<lparr>si_enable_exactly_once_delivery := eod\<rparr>))"

lemma apply_update_fixed [simp]:
  "si_name (apply_update u i) = si_name i"
  "si_push_config (apply_update u i) = si_push_config i"
  "si_enable_message_ordering (apply_update u i) = si_enable_message_ordering i"
  "si_filter (apply_update u i) = si_filter i"
  "si_detached (apply_update u i) = si_detached i"
  by (auto simp: apply_update_def Let_def split: option.splits)

lemma apply_update_default [simp]: "apply_update subscription_update_default i = i"
  by (simp add: apply_update_def subscription_update_default_def)

section \<open>Counters and statistics\<close>

record subscription_counters =
  ct_pulled :: u64
  ct_acked :: u64
  ct_nacked :: u64
  ct_expired :: u64
  ct_dead_lettered :: u64

definition subscription_counters_default :: subscription_counters where
  "subscription_counters_default =
     \<lparr>ct_pulled = 0, ct_acked = 0, ct_nacked = 0, ct_expired = 0, ct_dead_lettered = 0\<rparr>"

text \<open>The age is a \<^verbatim>\<open>f64\<close> number of seconds in the source; here it is the exact duration it is
  computed from.\<close>

record subscription_stats =
  ss_subscription_name :: subscription_name
  ss_topic_name :: topic_name
  ss_outstanding_messages_count :: nat
  ss_backlog_messages_count :: nat
  ss_retry_messages_count :: nat
  ss_oldest_unacked_age :: duration
  ss_counters :: subscription_counters

definition subscription_stats_new ::
    "subscription_name \<Rightarrow> topic_name \<Rightarrow> nat \<Rightarrow> nat \<Rightarrow> nat \<Rightarrow> duration \<Rightarrow> subscription_counters
     \<Rightarrow> subscription_stats" where
  "subscription_stats_new name topic outstanding pending retrying age counters =
     \<lparr>ss_subscription_name = name, ss_topic_name = topic, ss_outstanding_messages_count = outstanding,
      ss_backlog_messages_count = pending, ss_retry_messages_count = retrying,
      ss_oldest_unacked_age = age, ss_counters = counters\<rparr>"

end
