(* ===== verification/Topic.thy ===== *)
theory Topic
  imports Registry Message Names Paging Subscription_Info
begin

text \<open>
  Topics: the data and errors of \<^verbatim>\<open>topics/topic.rs\<close>, \<^verbatim>\<open>topics/stats.rs\<close>, \<^verbatim>\<open>topics/errors.rs\<close>,
  the topic actor of \<^verbatim>\<open>topics/topic_actor.rs\<close> and the topic manager of \<^verbatim>\<open>topics/topic_manager.rs\<close>.

  A \<^verbatim>\<open>Topic\<close> or \<^verbatim>\<open>Subscription\<close> handle is its name and internal id; the mailbox of the actor
  behind it is found by that id. What the actor does to other components (posting to subscriptions,
  reporting its deletion to the manager) is recorded in order in \<open>ta_effects\<close>. The environment of a
  publish holds the two clocks, the order in which the posting tasks are joined, which subscriptions
  accept the post, and, for the tasks that are aborted after a failure, which had already posted.
\<close>

section \<open>Errors\<close>

datatype create_topic_error = CreateTopic_AlreadyExists | CreateTopic_Closed
datatype get_topic_error = GetTopic_DoesNotExist | GetTopic_Closed
datatype list_topics_error = ListTopics_Closed
datatype publish_messages_error = PublishMessages_TopicDoesNotExist | PublishMessages_Closed
datatype topic_list_subscriptions_error = TopicListSubscriptions_Closed
datatype attach_subscription_error = AttachSubscription_Closed
datatype remove_subscription_error = RemoveSubscription_Closed
datatype topic_delete_error = TopicDelete_Closed
datatype get_topic_info_error = GetTopicInfo_Closed
datatype topic_get_stats_error = TopicGetStats_Closed

section \<open>Data\<close>

record topic =
  topic_handle_name :: topic_name
  topic_internal_id :: u32

record subscription =
  sub_name :: subscription_name
  sub_topic :: topic
  sub_internal_id :: u32

record topic_info =
  ti_name :: topic_name
  ti_labels :: "(string, string) hash_map"
  ti_message_retention_duration :: "duration option"

record topic_update =
  tu_labels :: "(string, string) hash_map option"
  tu_message_retention_duration :: "duration option option"

record topic_stats =
  ts_topic_name :: topic_name
  ts_message_count :: nat
  ts_subscription_count :: nat
  ts_published_count :: u64
  ts_published_bytes :: u64

record subscriptions_page =
  sp_subscriptions :: "subscription list"
  sp_offset :: "nat option"

record topics_page =
  tp_topics :: "topic list"
  tp_offset :: "nat option"

definition topic_info_new :: "topic_name \<Rightarrow> topic_info" where
  "topic_info_new name =
     \<lparr>ti_name = name, ti_labels = fmempty, ti_message_retention_duration = None\<rparr>"

definition topic_update_default :: topic_update where
  "topic_update_default = \<lparr>tu_labels = None, tu_message_retention_duration = None\<rparr>"

definition topic_apply_update :: "topic_update \<Rightarrow> topic_info \<Rightarrow> topic_info" where
  "topic_apply_update update info0 =
     (let info1 = (case tu_labels update of None \<Rightarrow> info0 | Some ls \<Rightarrow> info0\<lparr>ti_labels := ls\<rparr>)
      in (case tu_message_retention_duration update of
            None \<Rightarrow> info1 | Some mrd \<Rightarrow> info1\<lparr>ti_message_retention_duration := mrd\<rparr>))"

definition topic_stats_new :: "topic_name \<Rightarrow> nat \<Rightarrow> nat \<Rightarrow> u64 \<Rightarrow> u64 \<Rightarrow> topic_stats" where
  "topic_stats_new name message_count subscription_count published_count published_bytes =
     \<lparr>ts_topic_name = name, ts_message_count = message_count,
      ts_subscription_count = subscription_count, ts_published_count = published_count,
      ts_published_bytes = published_bytes\<rparr>"

definition subscriptions_page_new :: "subscription list \<Rightarrow> nat option \<Rightarrow> subscriptions_page" where
  "subscriptions_page_new subs offset = \<lparr>sp_subscriptions = subs, sp_offset = offset\<rparr>"

definition topics_page_new :: "topic list \<Rightarrow> nat option \<Rightarrow> topics_page" where
  "topics_page_new topics offset = \<lparr>tp_topics = topics, tp_offset = offset\<rparr>"

section \<open>The topic actor\<close>

datatype topic_effect =
    PostTo subscription "topic_message list"
  | TopicDelegateDelete topic_name

record topic_actor =
  ta_info :: topic_info
  ta_messages :: "topic_message list"
  ta_subscriptions :: "(subscription_name, subscription) hash_map"
  ta_topic_internal_id :: u32
  ta_next_message_id :: u32
  ta_deleted :: bool
  ta_published_count :: u64
  ta_published_bytes :: u64
  ta_effects :: "topic_effect list"

record topic_environment =
  te_wall :: system_time
  te_now :: instant
  te_join_order :: "subscription list"
  te_accepts :: "subscription \<Rightarrow> bool"
  te_posted_before_abort :: "subscription \<Rightarrow> bool"

definition topic_actor_start :: "topic_info \<Rightarrow> u32 \<Rightarrow> topic_actor" where
  "topic_actor_start info internal_id =
     \<lparr>ta_info = info, ta_messages = [], ta_subscriptions = fmempty,
      ta_topic_internal_id = internal_id, ta_next_message_id = 0, ta_deleted = False,
      ta_published_count = 0, ta_published_bytes = 0, ta_effects = []\<rparr>"

definition topic_emit :: "topic_effect list \<Rightarrow> topic_actor \<Rightarrow> topic_actor" where
  "topic_emit es a = a\<lparr>ta_effects := ta_effects a @ es\<rparr>"

text \<open>The closure that stamps each message: the counter is incremented before it is used.\<close>

fun stamp_messages ::
    "system_time \<Rightarrow> instant \<Rightarrow> u32 \<Rightarrow> topic_message list \<Rightarrow> u32
     \<Rightarrow> message_id list \<times> topic_message list \<times> u32" where
  "stamp_messages wall now topic_id [] next = ([], [], next)"
| "stamp_messages wall now topic_id (m # ms) next =
     (let next' = next + 1;
          mid = message_id_new topic_id next';
          (mids, ms', last) = stamp_messages wall now topic_id ms next'
      in (mid # mids, topic_message_publish mid wall now m # ms', last))"

text \<open>Joining the posting tasks: the first failure ends the publish and aborts the tasks that were not
  joined yet; those of them that had posted already stay posted.\<close>

fun join_posts ::
    "topic_environment \<Rightarrow> topic_message list \<Rightarrow> subscription list
     \<Rightarrow> (publish_messages_error + unit) \<times> topic_effect list" where
  "join_posts env ms [] = (Inr (), [])"
| "join_posts env ms (s # ss) =
     (if te_accepts env s then
        (case join_posts env ms ss of (r, es) \<Rightarrow> (r, PostTo s ms # es))
      else (Inl PublishMessages_Closed,
            map (\<lambda>t. PostTo t ms) (filter (te_posted_before_abort env) ss)))"

definition data_bytes :: "topic_message list \<Rightarrow> u64" where
  "data_bytes ms = sum_list (map (\<lambda>m. of_nat (length (tm_data m))) ms)"

definition publish_messages ::
    "topic_environment \<Rightarrow> topic_message list \<Rightarrow> topic_actor
     \<Rightarrow> (publish_messages_error + message_id list) \<times> topic_actor" where
  "publish_messages env new_messages a =
     (let (message_ids, messages, last) =
            stamp_messages (te_wall env) (te_now env) (ta_topic_internal_id a) new_messages
              (ta_next_message_id a);
          a1 = a\<lparr>ta_next_message_id := last,
                 ta_published_count := ta_published_count a + of_nat (length message_ids),
                 ta_published_bytes := ta_published_bytes a + data_bytes messages,
                 ta_messages := ta_messages a @ messages\<rparr>;
          (r, posts) = join_posts env messages (te_join_order env);
          a2 = topic_emit posts a1
      in case r of Inl e \<Rightarrow> (Inl e, a2) | Inr _ \<Rightarrow> (Inr message_ids, a2))"

definition attach_subscription ::
    "subscription \<Rightarrow> topic_actor \<Rightarrow> (attach_subscription_error + unit) \<times> topic_actor" where
  "attach_subscription s a =
     (Inr (), if fmlookup (ta_subscriptions a) (sub_name s) = None
              then a\<lparr>ta_subscriptions := fmupd (sub_name s) s (ta_subscriptions a)\<rparr> else a)"

definition remove_subscription ::
    "subscription_name \<Rightarrow> topic_actor \<Rightarrow> (remove_subscription_error + unit) \<times> topic_actor" where
  "remove_subscription name a =
     (Inr (), a\<lparr>ta_subscriptions := fmdrop name (ta_subscriptions a)\<rparr>)"

definition topic_delete :: "topic_actor \<Rightarrow> (topic_delete_error + unit) \<times> topic_actor" where
  "topic_delete a =
     (if ta_deleted a then (Inr (), a)
      else (Inr (), topic_emit [TopicDelegateDelete (ti_name (ta_info a))]
              (a\<lparr>ta_deleted := True, ta_subscriptions := fmempty, ta_messages := []\<rparr>)))"

definition topic_get_stats :: "topic_actor \<Rightarrow> topic_get_stats_error + topic_stats" where
  "topic_get_stats a =
     Inr (topic_stats_new (ti_name (ta_info a)) (length (ta_messages a))
            (hm_len (ta_subscriptions a)) (ta_published_count a) (ta_published_bytes a))"

text \<open>The argument \<open>order\<close> is the iteration order of \<^verbatim>\<open>subscriptions.values()\<close>.\<close>

definition topic_list_subscriptions ::
    "subscription list \<Rightarrow> paging \<Rightarrow> topic_actor
     \<Rightarrow> topic_list_subscriptions_error + subscriptions_page" where
  "topic_list_subscriptions order paging a =
     (let sorted_subs = sort_key sub_internal_id order;
          (subs, offset) = page_of paging sorted_subs
      in Inr (subscriptions_page_new subs offset))"

definition topic_get_info :: "topic_actor \<Rightarrow> get_topic_info_error + topic_info" where
  "topic_get_info a = Inr (ta_info a)"

definition topic_update_info ::
    "topic_update \<Rightarrow> topic_actor \<Rightarrow> (get_topic_info_error + topic_info) \<times> topic_actor" where
  "topic_update_info update a =
     (let a' = a\<lparr>ta_info := topic_apply_update update (ta_info a)\<rparr> in (Inr (ta_info a'), a'))"

datatype topic_request =
    PublishMessages "topic_message list"
  | AttachSubscription subscription
  | ListSubscriptions paging
  | RemoveSubscription subscription_name
  | DeleteTopic
  | GetTopicInfo
  | UpdateTopicInfo topic_update
  | GetTopicStats

datatype topic_response =
    PublishResponse "publish_messages_error + message_id list"
  | AttachResponse "attach_subscription_error + unit"
  | ListSubscriptionsResponse "topic_list_subscriptions_error + subscriptions_page"
  | RemoveResponse "remove_subscription_error + unit"
  | DeleteTopicResponse "topic_delete_error + unit"
  | TopicInfoResponse "get_topic_info_error + topic_info"
  | TopicStatsResponse "topic_get_stats_error + topic_stats"

fun topic_receive ::
    "topic_environment \<Rightarrow> topic_request \<Rightarrow> topic_actor \<Rightarrow> topic_response \<times> topic_actor" where
  "topic_receive env (PublishMessages ms) a = map_prod PublishResponse id (publish_messages env ms a)"
| "topic_receive env (AttachSubscription s) a = map_prod AttachResponse id (attach_subscription s a)"
| "topic_receive env (ListSubscriptions p) a =
     (ListSubscriptionsResponse (topic_list_subscriptions (te_join_order env) p a), a)"
| "topic_receive env (RemoveSubscription n) a = map_prod RemoveResponse id (remove_subscription n a)"
| "topic_receive env DeleteTopic a = map_prod DeleteTopicResponse id (topic_delete a)"
| "topic_receive env GetTopicInfo a = (TopicInfoResponse (topic_get_info a), a)"
| "topic_receive env (UpdateTopicInfo u) a = map_prod TopicInfoResponse id (topic_update_info u a)"
| "topic_receive env GetTopicStats a = (TopicStatsResponse (topic_get_stats a), a)"

section \<open>The topic manager\<close>

record topic_state =
  tm_topics :: "(topic_name, topic) hash_map"
  tm_next_id :: u32

definition topic_state_new :: topic_state where
  "topic_state_new = \<lparr>tm_topics = fmempty, tm_next_id = 1\<rparr>"

definition topic_new :: "topic_info \<Rightarrow> u32 \<Rightarrow> topic" where
  "topic_new info internal_id =
     \<lparr>topic_handle_name = ti_name info, topic_internal_id = internal_id\<rparr>"

definition create_topic ::
    "topic_info \<Rightarrow> topic_state \<Rightarrow> (create_topic_error + topic) \<times> topic_state" where
  "create_topic info s =
     (if fmlookup (tm_topics s) (ti_name info) = None then
        (let internal_id = tm_next_id s + 1;
             t = topic_new info internal_id
         in (Inr t, s\<lparr>tm_topics := fmupd (ti_name info) t (tm_topics s),
                      tm_next_id := internal_id\<rparr>))
      else (Inl CreateTopic_AlreadyExists, s))"

definition get_topic :: "topic_name \<Rightarrow> topic_state \<Rightarrow> get_topic_error + topic" where
  "get_topic name s =
     (case fmlookup (tm_topics s) name of None \<Rightarrow> Inl GetTopic_DoesNotExist | Some t \<Rightarrow> Inr t)"

definition topic_delegate_delete :: "topic_name \<Rightarrow> topic_state \<Rightarrow> topic_state" where
  "topic_delegate_delete name s = s\<lparr>tm_topics := fmdrop name (tm_topics s)\<rparr>"

text \<open>The argument \<open>order\<close> is the iteration order of \<^verbatim>\<open>topics.values()\<close>.\<close>

definition list_topics ::
    "topic list \<Rightarrow> string \<Rightarrow> paging \<Rightarrow> list_topics_error + topics_page" where
  "list_topics order project_id paging =
     (let topics_for_project =
            filter (\<lambda>t. topic_is_in_project (topic_handle_name t) project_id) order;
          sorted_topics = sort_key topic_internal_id topics_for_project;
          (topics, offset) = page_of paging sorted_topics
      in Inr (topics_page_new topics offset))"

interpretation topic_registry: registry tm_topics tm_next_id topic_handle_name topic_internal_id
  topic_state_new create_topic ti_name CreateTopic_AlreadyExists topic_delegate_delete
  by unfold_locales
    (auto simp: topic_state_new_def create_topic_def topic_new_def topic_delegate_delete_def Let_def)

end
