(* ===== verification/Topic_Properties.thy ===== *)
theory Topic_Properties
  imports Topic
begin

text \<open>
  What a publish promises (consecutive fresh message ids, one post of the whole batch to every
  attached subscription) and what the listings promise (every topic of the project once, in creation
  order, whatever the iteration order of the hash map).
\<close>

section \<open>Publishing\<close>

text \<open>The ids that \<open>n\<close> messages get after the counter value \<open>next\<close>.\<close>

definition ids_after :: "u32 \<Rightarrow> u32 \<Rightarrow> nat \<Rightarrow> message_id list" where
  "ids_after topic_id next n = map (\<lambda>i. message_id_new topic_id (next + of_nat (Suc i))) [0..<n]"

lemma ids_after_Suc:
  "ids_after topic_id next (Suc n) = message_id_new topic_id (next + 1) # ids_after topic_id (next + 1) n"
  unfolding ids_after_def upt_conv_Cons [OF zero_less_Suc]
  by (simp add: map_Suc_upt [symmetric] comp_def ac_simps del: upt_Suc)

lemma ids_after_length [simp]: "length (ids_after t k n) = n"
  by (simp add: ids_after_def)

lemma ids_after_distinct:
  assumes "unat next + n < 2 ^ 32"
  shows "distinct (ids_after t next n)"
proof -
  have "inj_on (\<lambda>i. next + of_nat (Suc i) :: u32) {0..<n}"
  proof (rule inj_onI)
    fix i j assume ij: "i \<in> {0..<n}" "j \<in> {0..<n}" "next + of_nat (Suc i) = (next + of_nat (Suc j) :: u32)"
    then have "(of_nat (Suc i) :: u32) = of_nat (Suc j)" by simp
    then show "i = j"
      using ij(1,2) assms by (simp only: word_of_nat_eq_iff) (simp add: take_bit_nat_eq_self)
  qed
  then show ?thesis
    by (simp add: ids_after_def distinct_map message_id_new_inj inj_on_def)
qed

text \<open>Ids that were handed out before the counter reached \<open>next\<close> do not come back.\<close>

lemma ids_after_range:
  assumes "unat next + n < 2 ^ 32" and "mid \<in> set (ids_after t next n)"
  shows "\<exists>l. mid = message_id_new t l \<and> next < l \<and> l \<le> next + of_nat n"
proof -
  obtain i where i: "i < n" "mid = message_id_new t (next + of_nat (Suc i))"
    using assms(2) by (auto simp: ids_after_def)
  have later: "unat (next + of_nat k) = unat next + k" if "k \<le> n" for k
    using that assms(1) by (simp add: unat_word_ariths unat_of_nat)
  have "next < next + of_nat (Suc i)" "next + of_nat (Suc i) \<le> next + of_nat n"
    using later [of "Suc i"] later [of n] i(1)
    by (simp_all add: word_less_nat_alt word_le_nat_alt del: of_nat_Suc)
  with i(2) show ?thesis by blast
qed

lemma stamp_messages_spec:
  "stamp_messages wall now t ms next =
     (ids_after t next (length ms),
      map2 (\<lambda>mid m. topic_message_publish mid wall now m) (ids_after t next (length ms)) ms,
      next + of_nat (length ms))"
proof (induction ms arbitrary: "next")
  case Nil
  then show ?case by (simp add: ids_after_def)
next
  case (Cons m ms)
  then show ?case by (simp add: ids_after_Suc Let_def add.assoc)
qed

lemma join_posts_all:
  "list_all (te_accepts env) ss \<Longrightarrow> join_posts env ms ss = (Inr (), map (\<lambda>s. PostTo s ms) ss)"
  by (induction ss) auto

lemma join_posts_error:
  "\<not> list_all (te_accepts env) ss \<Longrightarrow> fst (join_posts env ms ss) = Inl PublishMessages_Closed"
  by (induction ss) (auto split: prod.split)

lemma stamped_ids: "length ms = length ids \<Longrightarrow>
    map tm_id (map2 (\<lambda>mid m. topic_message_publish mid wall now m) ids ms) = ids"
  by (induction ids ms rule: list_induct2') (auto simp: topic_message_publish_def)

lemma stamped_data: "length ms = length ids \<Longrightarrow>
    map (\<lambda>m. (tm_data m, tm_attributes m, tm_ordering_key m))
      (map2 (\<lambda>mid m. topic_message_publish mid wall now m) ids ms)
    = map (\<lambda>m. (tm_data m, tm_attributes m, tm_ordering_key m)) ms"
  by (induction ids ms rule: list_induct2') (auto simp: topic_message_publish_def)


definition sample_topic_actor :: topic_actor where
  "sample_topic_actor =
     snd (attach_subscription
       \<lparr>sub_name = subscription_name_new ''p'' ''s'', sub_topic = \<lparr>topic_handle_name = topic_name_new ''p'' ''t'', topic_internal_id = 2\<rparr>,
        sub_internal_id = 2\<rparr>
       (topic_actor_start (topic_info_new (topic_name_new ''p'' ''t'')) 2))"

definition sample_topic_env :: topic_environment where
  "sample_topic_env =
     \<lparr>te_wall = 0, te_now = 0,
      te_join_order = [\<lparr>sub_name = subscription_name_new ''p'' ''s'', sub_topic = \<lparr>topic_handle_name = topic_name_new ''p'' ''t'', topic_internal_id = 2\<rparr>, sub_internal_id = 2\<rparr>],
      te_accepts = (\<lambda>_. True), te_posted_before_abort = (\<lambda>_. False)\<rparr>"


section \<open>The topic manager\<close>

text \<open>
  C24. Listing topics: following the page offsets enumerates exactly the registered topics of the
  project, each once, in the order of their creation, even when the hash map is iterated in a
  different order for every page.
\<close>

theorem list_topics_complete:
  assumes "topic_registry.registry_inv s"
    and "\<And>p. enumerates (order p) (tm_topics s)"
  shows "\<exists>all. (\<forall>p. list_topics (order p) project p
          = Inr (case page_of p all of (ts, offset) \<Rightarrow> topics_page_new ts offset))
    \<and> concat (walk (paging_new n None) all) = all
    \<and> sorted_wrt (\<lambda>t u. topic_internal_id t < topic_internal_id u) all
    \<and> set all = {t. fmlookup (tm_topics s) (topic_handle_name t) = Some t
                   \<and> tn_project_id (topic_handle_name t) = project}"
proof -
  let ?P = "\<lambda>t. topic_is_in_project (topic_handle_name t) project"
  let ?all = "topic_registry.listing ?P (order (paging_new 0 None))"
  have "list_topics (order p) project p
      = Inr (case page_of p ?all of (ts, offset) \<Rightarrow> topics_page_new ts offset)" for p
    using topic_registry.listing_independent [OF assms(1) assms(2) [of p]
        assms(2) [of "paging_new 0 None"], of ?P]
    by (simp add: list_topics_def topic_registry.listing_def Let_def split: prod.split)
  moreover have "concat (walk (paging_new n None) ?all) = ?all"
    using walk_concat [of "paging_new n None" ?all]
    by (simp add: paging_new_def paging_size_def to_skip_def)
  ultimately show ?thesis
    using topic_registry.listing_spec [OF assms(1) assms(2), of ?P]
    by (intro exI [of _ ?all]) (auto simp: topic_is_in_project_def)
qed

theorem list_topics_complete_witness:
  "\<exists>all. (\<forall>p. list_topics [topic_new (topic_info_new (topic_name_new ''p'' ''t'')) 2] ''p'' p
        = Inr (case page_of p all of (ts, offset) \<Rightarrow> topics_page_new ts offset))
    \<and> concat (walk (paging_new 5 None) all) = all
    \<and> sorted_wrt (\<lambda>t u. topic_internal_id t < topic_internal_id u) all
    \<and> set all = {t. fmlookup (tm_topics (snd (create_topic (topic_info_new (topic_name_new ''p'' ''t''))
              topic_state_new))) (topic_handle_name t) = Some t
            \<and> tn_project_id (topic_handle_name t) = ''p''}"
proof (rule list_topics_complete)
  show "topic_registry.registry_inv
      (snd (create_topic (topic_info_new (topic_name_new ''p'' ''t'')) topic_state_new))"
    by (rule topic_registry.inv_create [OF topic_registry.inv_initial]) (simp add: topic_state_new_def)
  show "enumerates [topic_new (topic_info_new (topic_name_new ''p'' ''t'')) 2]
      (tm_topics (snd (create_topic (topic_info_new (topic_name_new ''p'' ''t'')) topic_state_new)))" for p :: paging
    by (simp add: enumerates_def create_topic_def topic_state_new_def topic_new_def topic_info_new_def
        Let_def fmvals_upd)
qed

end
