(* ===== verification/Api_Parser.thy ===== *)
theory Api_Parser
  imports Topic
begin

text \<open>
  The request parsers of \<^verbatim>\<open>api/parser.rs\<close>. A \<^verbatim>\<open>tonic::Status\<close> is its code and message. The protocol
  messages are generated from the Pub/Sub definitions; the records below have the fields that the
  service code reads and writes. A signed integer of a protocol message is an \<open>int\<close>.
\<close>

section \<open>Statuses and protocol messages\<close>

datatype status_code =
    InvalidArgument | NotFound | AlreadyExists | FailedPrecondition | Unimplemented | Internal | Cancelled

datatype status = Status (code: status_code) (status_message: string)

record proto_duration =
  pd_seconds :: int
  pd_nanos :: int

record proto_oidc_token =
  po_audience :: string
  po_service_account_email :: string

record proto_push_config =
  pp_push_endpoint :: string
  pp_attributes :: "(string, string) hash_map"
  pp_authentication_method :: "proto_oidc_token option"

record proto_retry_policy =
  pr_minimum_backoff :: "proto_duration option"
  pr_maximum_backoff :: "proto_duration option"

record proto_dead_letter_policy =
  pl_dead_letter_topic :: string
  pl_max_delivery_attempts :: int

record proto_topic =
  pt_name :: string
  pt_labels :: "(string, string) hash_map"
  pt_message_retention_duration :: "proto_duration option"

record proto_subscription =
  ps_name :: string
  ps_topic :: string
  ps_push_config :: "proto_push_config option"
  ps_ack_deadline_seconds :: int
  ps_message_retention_duration :: "proto_duration option"
  ps_enable_message_ordering :: bool
  ps_filter :: string
  ps_dead_letter_policy :: "proto_dead_letter_policy option"
  ps_retry_policy :: "proto_retry_policy option"
  ps_detached :: bool
  ps_enable_exactly_once_delivery :: bool

record proto_timestamp =
  pts_seconds :: int
  pts_nanos :: int

record pubsub_message =
  pb_data :: bytes
  pb_attributes :: "(string, string) hash_map"
  pb_message_id :: string
  pb_publish_time :: "proto_timestamp option"
  pb_ordering_key :: string

text \<open>\<^verbatim>\<open>Duration::new\<close>: whole seconds in the nanoseconds carry over.\<close>

definition duration_new :: "nat \<Rightarrow> nat \<Rightarrow> duration" where
  "duration_new secs nanos = secs * nanos_per_sec + nanos"

section \<open>Names and ids\<close>

definition parse_topic_name :: "string \<Rightarrow> status + topic_name" where
  "parse_topic_name raw =
     (case topic_name_try_parse raw of
        Some n \<Rightarrow> Inr n
      | None \<Rightarrow> Inl (Status InvalidArgument (''Invalid topic name '' @ [CHR 0x27] @ raw @ [CHR 0x27])))"

definition parse_subscription_name :: "string \<Rightarrow> status + subscription_name" where
  "parse_subscription_name raw =
     (case subscription_name_try_parse raw of
        Some n \<Rightarrow> Inr n
      | None \<Rightarrow> Inl (Status InvalidArgument
          (''Invalid subscription name '' @ [CHR 0x27] @ raw @ [CHR 0x27])))"

definition parse_ack_id :: "string \<Rightarrow> status + ack_id" where
  "parse_ack_id raw =
     (case ack_id_parse raw of
        Inr i \<Rightarrow> Inr i
      | Inl Malformed \<Rightarrow> Inl (Status InvalidArgument (''Invalid ack ID '' @ [CHR 0x27] @ raw @ [CHR 0x27])))"

definition parse_project_id :: "string \<Rightarrow> status + string" where
  "parse_project_id raw =
     (let parsed = (if \<not> starts_with raw project_prefix then None
                    else get_from raw (length project_prefix))
      in case parsed of
           Some p \<Rightarrow> Inr p
         | None \<Rightarrow> Inl (Status InvalidArgument (''Invalid project name '' @ [CHR 0x27] @ raw @ [CHR 0x27])))"

section \<open>Deadlines and paging\<close>

definition parse_deadline_extension_duration :: "int \<Rightarrow> status + duration option" where
  "parse_deadline_extension_duration raw =
     (if raw < 0 then Inl (Status InvalidArgument ''Seconds must not be less than zero'')
      else if 600 \<le> raw then Inr (Some (from_secs 600))
      else if raw = 0 then Inr None
      else Inr (Some (from_secs (nat raw))))"

definition parse_deadline_modification ::
    "instant \<Rightarrow> string \<times> int \<Rightarrow> status + deadline_modification" where
  "parse_deadline_modification now entry =
     (case entry of (raw_id, raw_seconds) \<Rightarrow>
        (case parse_ack_id raw_id of
           Inl e \<Rightarrow> Inl e
         | Inr ack_id \<Rightarrow>
             (case parse_deadline_extension_duration raw_seconds of
                Inl e \<Rightarrow> Inl e
              | Inr (Some seconds) \<Rightarrow>
                  Inr (deadline_modification_new ack_id (ack_deadline_new (now + int seconds)))
              | Inr None \<Rightarrow> Inr (deadline_modification_nack ack_id))))"

definition parse_deadline_modifications ::
    "instant \<Rightarrow> string list \<Rightarrow> int list \<Rightarrow> status + deadline_modification list" where
  "parse_deadline_modifications now ack_ids seconds =
     collect_results (parse_deadline_modification now) (zip ack_ids seconds)"

definition parse_page_token ::
    "(string \<Rightarrow> bytes option) \<Rightarrow> string \<Rightarrow> status + page_token option" where
  "parse_page_token base64_decode raw =
     (if raw = [] then Inr None
      else (case page_token_try_decode base64_decode raw of
              Some t \<Rightarrow> Inr (Some t)
            | None \<Rightarrow> Inl (Status InvalidArgument ''Page token malformed'')))"

definition parse_paging ::
    "(string \<Rightarrow> bytes option) \<Rightarrow> int \<Rightarrow> string \<Rightarrow> status + paging" where
  "parse_paging base64_decode n token =
     (case parse_page_token base64_decode token of
        Inl e \<Rightarrow> Inl e
      | Inr t \<Rightarrow>
          if n < 0 then Inl (Status InvalidArgument ''Not a valid page size'')
          else Inr (paging_new (nat n) (map_option (\<lambda>p. unat (pt_value p)) t)))"

section \<open>Push configuration\<close>

text \<open>\<^verbatim>\<open>str::trim\<close>: the UTF-8 encodings of the characters with the Unicode property White_Space.\<close>

definition whitespace_chars :: "string list" where
  "whitespace_chars =
     map (\<lambda>n. [char_of (n :: nat)]) [9, 10, 11, 12, 13, 32]
     @ map (map (char_of :: nat \<Rightarrow> char))
         ([[194, 133], [194, 160], [225, 154, 128]]
          @ map (\<lambda>n. [226, 128, n]) ([128..<139] @ [168, 169, 175])
          @ [[226, 129, 159], [227, 128, 128]])"

lemma whitespace_chars_nonempty: "w \<in> set whitespace_chars \<Longrightarrow> w \<noteq> []"
  by (auto simp: whitespace_chars_def)

definition strip_one :: "string list \<Rightarrow> string \<Rightarrow> string option" where
  "strip_one ws s = map_option (\<lambda>w. drop (length w) s) (find (\<lambda>w. starts_with s w) ws)"

lemma strip_one_shorter:
  assumes "strip_one (filter (\<lambda>w. w \<noteq> []) ws) s = Some rest"
  shows "length rest < length s"
proof -
  obtain w where w: "w \<noteq> []" "starts_with s w" "rest = drop (length w) s"
    using assms by (auto simp: strip_one_def dest!: find_Some_iff [THEN iffD1])
      (metis (mono_tags, lifting) mem_Collect_eq nth_mem set_filter)
  then have "s \<noteq> []" by (cases s; cases w) auto
  then show ?thesis using w(1,3) by simp
qed

function trim_leading :: "string list \<Rightarrow> string \<Rightarrow> string" where
  "trim_leading ws s =
     (case strip_one (filter (\<lambda>w. w \<noteq> []) ws) s of
        None \<Rightarrow> s
      | Some rest \<Rightarrow> trim_leading ws rest)"
  by pat_completeness auto
termination
  by (relation "measure (\<lambda>(ws, s). length s)") (auto dest: strip_one_shorter)

declare trim_leading.simps [simp del]

definition trim :: "string \<Rightarrow> string" where
  "trim s = rev (trim_leading (map rev whitespace_chars) (rev (trim_leading whitespace_chars s)))"

definition parse_push_config :: "proto_push_config \<Rightarrow> status + push_config" where
  "parse_push_config p =
     (let endpoint = trim (pp_push_endpoint p)
      in if \<not> starts_with endpoint ''http''
         then Inl (Status InvalidArgument ''Unsupported push_endpoint'')
         else
           (let oidc_token = map_option (\<lambda>t. \<lparr>oidc_audience = po_audience t,
                    oidc_service_account_email = po_service_account_email t\<rparr>)
                  (pp_authentication_method p);
                attributes = (if hm_len (pp_attributes p) = 0 then None else Some (pp_attributes p))
            in Inr (push_config_new endpoint oidc_token attributes)))"

section \<open>Policies\<close>

definition proto_to_duration :: "proto_duration \<Rightarrow> duration" where
  "proto_to_duration d = duration_new (nat (max 0 (pd_seconds d))) (nat (max 0 (pd_nanos d)))"

definition parse_retry_policy :: "proto_retry_policy \<Rightarrow> status + retry_policy" where
  "parse_retry_policy p =
     (let min_backoff = (case pr_minimum_backoff p of None \<Rightarrow> from_secs 10 | Some d \<Rightarrow> proto_to_duration d);
          max_backoff = (case pr_maximum_backoff p of None \<Rightarrow> from_secs 600 | Some d \<Rightarrow> proto_to_duration d);
          max_allowed = from_secs 600;
          min_backoff = min min_backoff max_allowed;
          max_backoff = min max_backoff max_allowed
      in if max_backoff < min_backoff
         then Inl (Status InvalidArgument ''minimum_backoff must not be greater than maximum_backoff'')
         else Inr \<lparr>rp_minimum_backoff = min_backoff, rp_maximum_backoff = max_backoff\<rparr>)"

definition parse_dead_letter_policy :: "proto_dead_letter_policy \<Rightarrow> status + dead_letter_policy" where
  "parse_dead_letter_policy p =
     (case parse_topic_name (pl_dead_letter_topic p) of
        Inl e \<Rightarrow> Inl e
      | Inr dead_letter_topic \<Rightarrow>
          (let v = pl_max_delivery_attempts p
           in if v = 0 then Inr \<lparr>dlp_dead_letter_topic = dead_letter_topic, dlp_max_delivery_attempts = 5\<rparr>
              else if v < 5 \<or> 100 < v
              then Inl (Status InvalidArgument ''max_delivery_attempts must be between 5 and 100'')
              else Inr \<lparr>dlp_dead_letter_topic = dead_letter_topic, dlp_max_delivery_attempts = v\<rparr>))"

definition parse_message_retention_duration :: "proto_duration \<Rightarrow> status + duration" where
  "parse_message_retention_duration d =
     (if pd_seconds d < 0 \<or> pd_nanos d < 0
      then Inl (Status InvalidArgument ''message_retention_duration must be non-negative'')
      else
        (let raw = duration_new (nat (pd_seconds d)) (nat (pd_nanos d));
             lo = from_secs (10 * 60);
             hi = from_secs (7 * 24 * 60 * 60)
         in Inr (if raw < lo then lo else if hi < raw then hi else raw)))"

definition parse_create_ack_deadline :: "int \<Rightarrow> duration" where
  "parse_create_ack_deadline raw = (if raw \<le> 10 then from_secs 10 else from_secs (nat raw))"

section \<open>Field masks\<close>

definition updatable_paths :: "string list" where
  "updatable_paths =
     [''ack_deadline_seconds'', ''retry_policy'', ''dead_letter_policy'',
      ''message_retention_duration'', ''enable_exactly_once_delivery'']"

definition immutable_paths :: "string list" where
  "immutable_paths =
     [''name'', ''topic'', ''enable_message_ordering'', ''filter'', ''detached'', ''labels'',
      ''expiration_policy'', ''push_config'', ''bigquery_config'', ''retain_acked_messages'',
      ''topic_message_retention_duration'', ''state'']"

definition mask_error :: "string list \<Rightarrow> string list \<Rightarrow> string \<Rightarrow> status option" where
  "mask_error immutables updatables path =
     (if path \<in> set immutables
      then Some (Status InvalidArgument
        (''Field '' @ [CHR 0x27] @ path @ [CHR 0x27] @ '' is not modifiable after creation''))
      else if path \<notin> set updatables
      then Some (Status InvalidArgument
        (''Field '' @ [CHR 0x27] @ path @ [CHR 0x27] @ '' is not a valid update path''))
      else None)"

definition update_path ::
    "proto_subscription \<Rightarrow> string \<Rightarrow> subscription_update \<Rightarrow> status + subscription_update" where
  "update_path sub path update =
     (if path = ''ack_deadline_seconds'' then
        Inr (update\<lparr>su_ack_deadline := Some (parse_create_ack_deadline (ps_ack_deadline_seconds sub))\<rparr>)
      else if path = ''retry_policy'' then
        (case transpose_map parse_retry_policy (ps_retry_policy sub) of
           Inl e \<Rightarrow> Inl e | Inr rp \<Rightarrow> Inr (update\<lparr>su_retry_policy := Some rp\<rparr>))
      else if path = ''dead_letter_policy'' then
        (case transpose_map parse_dead_letter_policy (ps_dead_letter_policy sub) of
           Inl e \<Rightarrow> Inl e | Inr dlp \<Rightarrow> Inr (update\<lparr>su_dead_letter_policy := Some dlp\<rparr>))
      else if path = ''message_retention_duration'' then
        (case transpose_map parse_message_retention_duration (ps_message_retention_duration sub) of
           Inl e \<Rightarrow> Inl e | Inr mrd \<Rightarrow> Inr (update\<lparr>su_message_retention_duration := Some mrd\<rparr>))
      else
        Inr (update\<lparr>su_enable_exactly_once_delivery := Some (ps_enable_exactly_once_delivery sub)\<rparr>))"

fun update_paths ::
    "proto_subscription \<Rightarrow> string list \<Rightarrow> subscription_update \<Rightarrow> status + subscription_update" where
  "update_paths sub [] update = Inr update"
| "update_paths sub (path # paths) update =
     (case mask_error immutable_paths updatable_paths path of
        Some e \<Rightarrow> Inl e
      | None \<Rightarrow> (case update_path sub path update of
                   Inl e \<Rightarrow> Inl e | Inr update' \<Rightarrow> update_paths sub paths update'))"

definition parse_subscription_update ::
    "proto_subscription \<Rightarrow> string list \<Rightarrow> status + subscription_update" where
  "parse_subscription_update sub paths =
     (if paths = [] then Inl (Status InvalidArgument ''update_mask must be specified and non-empty'')
      else update_paths sub paths subscription_update_default)"

definition topic_updatable_paths :: "string list" where
  "topic_updatable_paths = [''labels'', ''message_retention_duration'']"

definition topic_immutable_paths :: "string list" where
  "topic_immutable_paths =
     [''name'', ''kms_key_name'', ''schema_settings'', ''message_storage_policy'', ''satisfies_pzs'']"

definition topic_update_path ::
    "proto_topic \<Rightarrow> string \<Rightarrow> topic_update \<Rightarrow> status + topic_update" where
  "topic_update_path t path update =
     (if path = ''labels'' then Inr (update\<lparr>tu_labels := Some (pt_labels t)\<rparr>)
      else
        (case transpose_map parse_message_retention_duration (pt_message_retention_duration t) of
           Inl e \<Rightarrow> Inl e | Inr mrd \<Rightarrow> Inr (update\<lparr>tu_message_retention_duration := Some mrd\<rparr>)))"

fun topic_update_paths :: "proto_topic \<Rightarrow> string list \<Rightarrow> topic_update \<Rightarrow> status + topic_update" where
  "topic_update_paths t [] update = Inr update"
| "topic_update_paths t (path # paths) update =
     (case mask_error topic_immutable_paths topic_updatable_paths path of
        Some e \<Rightarrow> Inl e
      | None \<Rightarrow> (case topic_update_path t path update of
                   Inl e \<Rightarrow> Inl e | Inr update' \<Rightarrow> topic_update_paths t paths update'))"

definition parse_topic_update :: "proto_topic \<Rightarrow> string list \<Rightarrow> status + topic_update" where
  "parse_topic_update t paths =
     (if paths = [] then Inl (Status InvalidArgument ''update_mask must be specified and non-empty'')
      else topic_update_paths t paths topic_update_default)"

section \<open>Messages\<close>

definition parse_topic_message :: "instant \<Rightarrow> pubsub_message \<Rightarrow> topic_message" where
  "parse_topic_message now p =
     (let attributes = (if hm_len (pb_attributes p) = 0 then None else Some (pb_attributes p));
          m = topic_message_new now (pb_data p) attributes
      in if pb_ordering_key p \<noteq> [] then m\<lparr>tm_ordering_key := Some (pb_ordering_key p)\<rparr> else m)"

end
