(* ===== verification/Api_Masks.thy ===== *)
theory Api_Masks
  imports Api_Parser
begin

text \<open>
  Field masks as simultaneous assignment: the loop over the paths of an update mask equals a reference
  definition that looks only at the set of paths.
\<close>

definition masked_ok :: "proto_subscription \<Rightarrow> string set \<Rightarrow> bool" where
  "masked_ok sub M \<longleftrightarrow> M \<subseteq> set updatable_paths
     \<and> (''retry_policy'' \<in> M \<longrightarrow> \<not> isl (transpose_map parse_retry_policy (ps_retry_policy sub)))
     \<and> (''dead_letter_policy'' \<in> M \<longrightarrow>
          \<not> isl (transpose_map parse_dead_letter_policy (ps_dead_letter_policy sub)))
     \<and> (''message_retention_duration'' \<in> M \<longrightarrow>
          \<not> isl (transpose_map parse_message_retention_duration (ps_message_retention_duration sub)))"

definition masked :: "proto_subscription \<Rightarrow> string set \<Rightarrow> subscription_update \<Rightarrow> subscription_update" where
  "masked sub M u =
     \<lparr>su_ack_deadline =
        (if ''ack_deadline_seconds'' \<in> M
         then Some (parse_create_ack_deadline (ps_ack_deadline_seconds sub)) else su_ack_deadline u),
      su_retry_policy =
        (if ''retry_policy'' \<in> M
         then Some (projr (transpose_map parse_retry_policy (ps_retry_policy sub)))
         else su_retry_policy u),
      su_dead_letter_policy =
        (if ''dead_letter_policy'' \<in> M
         then Some (projr (transpose_map parse_dead_letter_policy (ps_dead_letter_policy sub)))
         else su_dead_letter_policy u),
      su_message_retention_duration =
        (if ''message_retention_duration'' \<in> M
         then Some (projr (transpose_map parse_message_retention_duration
                      (ps_message_retention_duration sub)))
         else su_message_retention_duration u),
      su_enable_exactly_once_delivery =
        (if ''enable_exactly_once_delivery'' \<in> M
         then Some (ps_enable_exactly_once_delivery sub) else su_enable_exactly_once_delivery u)\<rparr>"

lemma masked_empty [simp]: "masked sub {} u = u" "masked_ok sub {}"
  by (simp_all add: masked_def masked_ok_def)

lemma masked_insert: "masked sub (insert p M) u = masked sub M (masked sub {p} u)"
  by (simp add: masked_def)

lemma masked_ok_insert: "masked_ok sub (insert p M) \<longleftrightarrow> masked_ok sub {p} \<and> masked_ok sub M"
  by (auto simp: masked_ok_def)

lemma mask_error_None:
  "mask_error immutable_paths updatable_paths p = None \<longleftrightarrow> p \<in> set updatable_paths"
  by (auto simp: mask_error_def immutable_paths_def updatable_paths_def)

lemma update_path_masked:
  assumes "p \<in> set updatable_paths"
  shows "update_path sub p u = Inr u' \<longleftrightarrow> masked_ok sub {p} \<and> u' = masked sub {p} u"
proof -
  from assms have "p = ''ack_deadline_seconds'' \<or> p = ''retry_policy'' \<or> p = ''dead_letter_policy''
    \<or> p = ''message_retention_duration'' \<or> p = ''enable_exactly_once_delivery''"
    by (simp only: updatable_paths_def list.set insert_iff empty_iff simp_thms)
  then show ?thesis
  proof (elim disjE)
    assume "p = ''ack_deadline_seconds''"
    then show ?thesis by (cases u) (auto simp: update_path_def masked_ok_def masked_def updatable_paths_def)
  next
    assume "p = ''retry_policy''"
    then show ?thesis
      by (cases u; cases "transpose_map parse_retry_policy (ps_retry_policy sub)")
        (auto simp: update_path_def masked_ok_def masked_def updatable_paths_def)
  next
    assume "p = ''dead_letter_policy''"
    then show ?thesis
      by (cases u; cases "transpose_map parse_dead_letter_policy (ps_dead_letter_policy sub)")
        (auto simp: update_path_def masked_ok_def masked_def updatable_paths_def)
  next
    assume "p = ''message_retention_duration''"
    then show ?thesis
      by (cases u; cases "transpose_map parse_message_retention_duration (ps_message_retention_duration sub)")
        (auto simp: update_path_def masked_ok_def masked_def updatable_paths_def)
  next
    assume "p = ''enable_exactly_once_delivery''"
    then show ?thesis by (cases u) (auto simp: update_path_def masked_ok_def masked_def updatable_paths_def)
  qed
qed

lemma update_paths_masked:
  "update_paths sub paths u = Inr u' \<longleftrightarrow> masked_ok sub (set paths) \<and> u' = masked sub (set paths) u"
proof (induction paths arbitrary: u)
  case (Cons p paths)
  show ?case
  proof (cases "p \<in> set updatable_paths")
    case True
    then have "update_paths sub (p # paths) u
        = (case update_path sub p u of Inl e \<Rightarrow> Inl e | Inr v \<Rightarrow> update_paths sub paths v)"
      by (simp add: mask_error_None [THEN iffD2])
    then have "update_paths sub (p # paths) u = Inr u' \<longleftrightarrow>
        (\<exists>v. update_path sub p u = Inr v \<and> update_paths sub paths v = Inr u')"
      by (auto split: sum.split)
    also have "\<dots> \<longleftrightarrow> masked_ok sub {p} \<and> masked_ok sub (set paths)
        \<and> u' = masked sub (set paths) (masked sub {p} u)"
      by (auto simp: update_path_masked [OF True] Cons.IH)
    finally show ?thesis
      using masked_insert [of sub p "set paths" u] masked_ok_insert [of sub p "set paths"] by simp
  next
    case False
    then obtain e where "mask_error immutable_paths updatable_paths p = Some e"
      using mask_error_None by blast
    moreover have "\<not> masked_ok sub (set (p # paths))" using False by (simp add: masked_ok_def)
    ultimately show ?thesis by simp
  qed
qed auto

text \<open>
  C23. A field mask of an update request is exact: it is accepted precisely when it is non-empty, names
  updatable fields only and the named values are well-formed, and then it sets the named fields and no
  others; the order and the repetition of paths do not matter.
\<close>

theorem update_mask_exact:
  "parse_subscription_update sub paths = Inr u \<longleftrightarrow>
     paths \<noteq> [] \<and> masked_ok sub (set paths) \<and> u = masked sub (set paths) subscription_update_default"
  by (simp add: parse_subscription_update_def update_paths_masked)

section \<open>Values\<close>

lemma from_secs_mono: "from_secs a \<le> from_secs b \<longleftrightarrow> a \<le> b"
  by (simp add: from_secs_def nanos_per_sec_def)

lemma ordered_limits:
  "m \<le> u \<Longrightarrow> (case (if m < l then Inl e else Inr \<lparr>rp_minimum_backoff = l, rp_maximum_backoff = m\<rparr>) of
      Inl _ \<Rightarrow> True
    | Inr p \<Rightarrow> rp_minimum_backoff p \<le> rp_maximum_backoff p \<and> rp_maximum_backoff p \<le> u)"
  by simp

text \<open>
  C35. Accepted policy values are in range: the back-off limits are ordered and at most ten minutes, the
  delivery attempts between 5 and 100, the retention between ten minutes and seven days, an ack deadline
  at least ten seconds and a deadline extension at most ten minutes.
\<close>

theorem parsed_values_in_range:
  "(case parse_retry_policy rp of Inl _ \<Rightarrow> True
      | Inr p \<Rightarrow> rp_minimum_backoff p \<le> rp_maximum_backoff p \<and> rp_maximum_backoff p \<le> from_secs 600)
   \<and> (case parse_dead_letter_policy dl of Inl _ \<Rightarrow> True
      | Inr p \<Rightarrow> 5 \<le> dlp_max_delivery_attempts p \<and> dlp_max_delivery_attempts p \<le> 100)
   \<and> (case parse_message_retention_duration rd of Inl _ \<Rightarrow> pd_seconds rd < 0 \<or> pd_nanos rd < 0
      | Inr d \<Rightarrow> from_secs 600 \<le> d \<and> d \<le> from_secs 604800)
   \<and> from_secs 10 \<le> parse_create_ack_deadline secs
   \<and> (case parse_deadline_extension_duration secs of Inl _ \<Rightarrow> secs < 0
      | Inr None \<Rightarrow> secs = 0
      | Inr (Some d) \<Rightarrow> d = from_secs (nat (min secs 600)) \<and> 0 < d)"
proof -
  have "case parse_retry_policy rp of Inl _ \<Rightarrow> True
      | Inr p \<Rightarrow> rp_minimum_backoff p \<le> rp_maximum_backoff p \<and> rp_maximum_backoff p \<le> from_secs 600"
    unfolding parse_retry_policy_def Let_def by (rule ordered_limits) simp
  moreover have "case parse_dead_letter_policy dl of Inl _ \<Rightarrow> True
      | Inr p \<Rightarrow> 5 \<le> dlp_max_delivery_attempts p \<and> dlp_max_delivery_attempts p \<le> 100"
    by (simp add: parse_dead_letter_policy_def Let_def split: if_split sum.split)
  moreover have "case parse_message_retention_duration rd of
        Inl _ \<Rightarrow> pd_seconds rd < 0 \<or> pd_nanos rd < 0
      | Inr d \<Rightarrow> from_secs 600 \<le> d \<and> d \<le> from_secs 604800"
    by (simp add: parse_message_retention_duration_def Let_def from_secs_mono split: if_split)
  moreover have "from_secs 10 \<le> parse_create_ack_deadline secs"
    using nat_le_iff by (simp add: parse_create_ack_deadline_def from_secs_mono) linarith
  moreover have "case parse_deadline_extension_duration secs of Inl _ \<Rightarrow> secs < 0
      | Inr None \<Rightarrow> secs = 0
      | Inr (Some d) \<Rightarrow> d = from_secs (nat (min secs 600)) \<and> 0 < d"
    by (simp add: parse_deadline_extension_duration_def from_secs_def nanos_per_sec_def split: if_split)
  ultimately show ?thesis by blast
qed

end
