(* ===== verification/Message_List.thy ===== *)
theory Message_List
  imports Message
begin

text \<open>
  The insertion-ordered message list of \<^verbatim>\<open>collections/messages.rs\<close>, a \<^verbatim>\<open>VecDeque\<close> that is
  appended to at the back and popped from the front. The locale \<open>fifo\<close> is the contract the
  subscription's backlog relies on.
\<close>

record messages =
  ml_list :: "topic_message list"

definition messages_new :: messages where
  "messages_new = \<lparr>ml_list = []\<rparr>"

definition messages_append :: "topic_message list \<Rightarrow> messages \<Rightarrow> messages" where
  "messages_append ms q = q\<lparr>ml_list := ml_list q @ ms\<rparr>"

definition messages_len :: "messages \<Rightarrow> nat" where
  "messages_len q = length (ml_list q)"

definition messages_is_empty :: "messages \<Rightarrow> bool" where
  "messages_is_empty q \<longleftrightarrow> messages_len q = 0"

definition messages_pop_front :: "messages \<Rightarrow> (topic_message \<times> messages) option" where
  "messages_pop_front q =
     (case ml_list q of [] \<Rightarrow> None | m # ms \<Rightarrow> Some (m, q\<lparr>ml_list := ms\<rparr>))"

definition messages_retain :: "(topic_message \<Rightarrow> bool) \<Rightarrow> messages \<Rightarrow> messages" where
  "messages_retain P q = q\<lparr>ml_list := filter P (ml_list q)\<rparr>"

definition messages_clear :: "messages \<Rightarrow> messages" where
  "messages_clear q = q\<lparr>ml_list := []\<rparr>"

locale fifo =
  fixes empty :: 'q
    and append :: "'a list \<Rightarrow> 'q \<Rightarrow> 'q"
    and pop :: "'q \<Rightarrow> ('a \<times> 'q) option"
    and retain :: "('a \<Rightarrow> bool) \<Rightarrow> 'q \<Rightarrow> 'q"
    and len :: "'q \<Rightarrow> nat"
    and contents :: "'q \<Rightarrow> 'a list"
  assumes contents_empty: "contents empty = []"
    and contents_append: "contents (append xs q) = contents q @ xs"
    and pop_None_iff: "pop q = None \<longleftrightarrow> contents q = []"
    and pop_Some: "pop q = Some (x, q') \<Longrightarrow> contents q = x # contents q'"
    and contents_retain: "contents (retain P q) = filter P (contents q)"
    and len_contents: "len q = length (contents q)"
begin

lemma pop_decreases_len: "pop q = Some (x, q') \<Longrightarrow> len q' < len q"
  using pop_Some len_contents by fastforce

lemma append_then_pop:
  "contents q = [] \<Longrightarrow> pop (append (x # xs) q) = Some (y, q') \<Longrightarrow> y = x \<and> contents q' = xs"
  using pop_Some contents_append by fastforce

lemma retain_append: "contents (retain P (append xs q)) = contents (retain P q) @ filter P xs"
  by (simp add: contents_retain contents_append)

end

interpretation backlog: fifo messages_new messages_append messages_pop_front messages_retain
  messages_len ml_list
  by unfold_locales (auto simp: messages_new_def messages_append_def messages_pop_front_def
      messages_retain_def messages_len_def split: list.splits)

lemma messages_pop_front_simps [simp]:
  "ml_list q = [] \<Longrightarrow> messages_pop_front q = None"
  "ml_list q = m # ms \<Longrightarrow> messages_pop_front q = Some (m, q\<lparr>ml_list := ms\<rparr>)"
  by (simp_all add: messages_pop_front_def)

end
