(* ===== verification/Ordered_Set.thy ===== *)
theory Ordered_Set
  imports Prelude
begin

text \<open>
  \<^verbatim>\<open>std::collections::BTreeSet\<close> as the code uses it: \<^verbatim>\<open>insert\<close>, \<^verbatim>\<open>remove\<close>, \<^verbatim>\<open>first\<close>,
  \<^verbatim>\<open>pop_first\<close> and \<^verbatim>\<open>clear\<close>. The set is a strictly ascending list. The locale
  \<open>ordered_set\<close> is the contract the trackers rely on, and the interpretation \<open>bts\<close>
  discharges it for the list operations.
\<close>

type_synonym 'a btree_set = "'a list"

fun bt_insert :: "'a::linorder \<Rightarrow> 'a btree_set \<Rightarrow> 'a btree_set" where
  "bt_insert x [] = [x]"
| "bt_insert x (y # ys) =
     (if x < y then x # y # ys else if x = y then y # ys else y # bt_insert x ys)"

definition bt_remove :: "'a::linorder \<Rightarrow> 'a btree_set \<Rightarrow> 'a btree_set" where
  "bt_remove x xs = filter (\<lambda>y. y \<noteq> x) xs"

definition bt_first :: "'a btree_set \<Rightarrow> 'a option" where
  "bt_first xs = (case xs of [] \<Rightarrow> None | x # _ \<Rightarrow> Some x)"

definition bt_pop_first :: "'a btree_set \<Rightarrow> ('a \<times> 'a btree_set) option" where
  "bt_pop_first xs = (case xs of [] \<Rightarrow> None | x # ys \<Rightarrow> Some (x, ys))"

definition bt_invar :: "'a::linorder btree_set \<Rightarrow> bool" where
  "bt_invar xs \<longleftrightarrow> sorted_wrt (<) xs"

locale ordered_set =
  fixes empty :: "'s"
    and insert_el :: "'a::linorder \<Rightarrow> 's \<Rightarrow> 's"
    and remove_el :: "'a \<Rightarrow> 's \<Rightarrow> 's"
    and first_el :: "'s \<Rightarrow> 'a option"
    and pop_el :: "'s \<Rightarrow> ('a \<times> 's) option"
    and elems :: "'s \<Rightarrow> 'a set"
    and invar :: "'s \<Rightarrow> bool"
  assumes elems_empty: "elems empty = {}"
    and invar_empty: "invar empty"
    and finite_elems: "finite (elems s)"
    and elems_insert: "invar s \<Longrightarrow> elems (insert_el x s) = insert x (elems s)"
    and invar_insert: "invar s \<Longrightarrow> invar (insert_el x s)"
    and elems_remove: "invar s \<Longrightarrow> elems (remove_el x s) = elems s - {x}"
    and invar_remove: "invar s \<Longrightarrow> invar (remove_el x s)"
    and first_None_iff: "invar s \<Longrightarrow> first_el s = None \<longleftrightarrow> elems s = {}"
    and first_Some: "invar s \<Longrightarrow> first_el s = Some x \<Longrightarrow> x \<in> elems s \<and> (\<forall>y \<in> elems s. x \<le> y)"
    and pop_first_eq: "invar s \<Longrightarrow> first_el s = Some x \<Longrightarrow>
      \<exists>s'. pop_el s = Some (x, s') \<and> elems s' = elems s - {x} \<and> invar s'"
begin

lemma first_is_Min: "invar s \<Longrightarrow> first_el s = Some x \<Longrightarrow> x = Min (elems s)"
  using first_Some finite_elems by (metis Min_eqI)

lemma pop_first_None: "invar s \<Longrightarrow> elems s = {} \<Longrightarrow> first_el s = None"
  using first_None_iff by blast

lemma insert_remove_other:
  "invar s \<Longrightarrow> x \<noteq> y \<Longrightarrow> elems (insert_el y (remove_el x s)) = insert y (elems s) - {x}"
  using elems_insert elems_remove invar_remove by auto

lemma pop_decreases:
  "invar s \<Longrightarrow> first_el s = Some x \<Longrightarrow> pop_el s = Some (x', s') \<Longrightarrow>
   card (elems s') < card (elems s)"
  using pop_first_eq first_Some finite_elems
  by (metis card_Diff1_less option.inject prod.inject)

end

lemma set_bt_insert: "set (bt_insert x xs) = insert x (set xs)"
  by (induction xs) auto

lemma bt_invar_insert: "bt_invar xs \<Longrightarrow> bt_invar (bt_insert x xs)"
  unfolding bt_invar_def by (induction xs) (auto simp: set_bt_insert)

lemma bt_first_simps [simp]: "bt_first [] = None" "bt_first (x # xs) = Some x"
  by (simp_all add: bt_first_def)

lemma bt_pop_first_simps [simp]: "bt_pop_first [] = None" "bt_pop_first (x # xs) = Some (x, xs)"
  by (simp_all add: bt_pop_first_def)

interpretation bts: ordered_set "[]" bt_insert bt_remove bt_first bt_pop_first set bt_invar
proof unfold_locales
  fix s :: "'a list" and x
  assume inv: "bt_invar s" and first: "bt_first s = Some x"
  then obtain ys where s: "s = x # ys"
    by (cases s) auto
  then show "x \<in> set s \<and> (\<forall>y \<in> set s. x \<le> y)"
    using inv by (auto simp: bt_invar_def)
  show "\<exists>s'. bt_pop_first s = Some (x, s') \<and> set s' = set s - {x} \<and> bt_invar s'"
    using inv s by (auto simp: bt_invar_def)
qed (auto simp: bt_invar_insert [unfolded bt_invar_def] set_bt_insert bt_remove_def bt_invar_def sorted_wrt_filter
    bt_first_def split: list.splits)

end
