(* ===== verification/Due_Queue.thy ===== *)
theory Due_Queue
  imports Message Ordered_Set
begin

text \<open>
  The contract shared by the two timers of a subscription, the outstanding message tracker and
  the retry queue: items are held under a deadline, and taking at an instant removes exactly the
  items whose deadline has been reached. \<open>poll_with\<close> is the loop both timers run around it
  (\<^verbatim>\<open>poll_next_expired\<close>, \<^verbatim>\<open>poll_next_ready\<close>): read the clock, take, return what was taken if
  anything was, otherwise wait for the next wake-up.
\<close>

datatype ('v, 's) poll_result = Ready "'v list" 's | Pending 's | Undefined

text \<open>
  The list holds the successive readings of \<^verbatim>\<open>Instant::now()\<close>, one per iteration of the loop;
  \<open>Pending\<close> means the loop is waiting when the list is used up. \<open>Undefined\<close> stands for the
  undefined behaviour of an \<^verbatim>\<open>unwrap_unchecked\<close> on \<^verbatim>\<open>None\<close>.
\<close>

fun poll_with :: "(instant \<Rightarrow> 's \<Rightarrow> ('v list \<times> 's) option) \<Rightarrow> instant list \<Rightarrow> 's \<Rightarrow> ('v, 's) poll_result" where
  "poll_with take_due [] s = Pending s"
| "poll_with take_due (now # wakeups) s =
     (case take_due now s of
        None \<Rightarrow> Undefined
      | Some (taken, s') \<Rightarrow>
          if taken \<noteq> [] then Ready taken s' else poll_with take_due wakeups s')"

abbreviation due :: "instant \<Rightarrow> ack_deadline \<times> 'v \<Rightarrow> bool" where
  "due now x \<equiv> deadline_time (fst x) \<le> now"

locale due_queue =
  fixes invar :: "'s \<Rightarrow> bool"
    and contents :: "'s \<Rightarrow> (ack_deadline \<times> 'v) multiset"
    and take_due :: "instant \<Rightarrow> 's \<Rightarrow> ('v list \<times> 's) option"
    and next_due :: "'s \<Rightarrow> ack_deadline option"
  assumes take_total: "invar s \<Longrightarrow> \<exists>vs s'. take_due now s = Some (vs, s')"
    and take_invar: "invar s \<Longrightarrow> take_due now s = Some (vs, s') \<Longrightarrow> invar s'"
    and take_rest: "invar s \<Longrightarrow> take_due now s = Some (vs, s') \<Longrightarrow>
      contents s' = filter_mset (\<lambda>x. \<not> due now x) (contents s)"
    and take_taken: "invar s \<Longrightarrow> take_due now s = Some (vs, s') \<Longrightarrow>
      mset vs = image_mset snd (filter_mset (due now) (contents s))"
    and next_None_iff: "invar s \<Longrightarrow> next_due s = None \<longleftrightarrow> contents s = {#}"
    and next_Some: "invar s \<Longrightarrow> next_due s = Some d \<Longrightarrow>
      (\<exists>v. (d, v) \<in># contents s) \<and> (\<forall>x \<in># contents s. d \<le> fst x)"
begin

lemma take_conserves:
  assumes "invar s" and "take_due now s = Some (vs, s')"
  shows "image_mset snd (contents s) = mset vs + image_mset snd (contents s')"
  using take_rest [OF assms] take_taken [OF assms]
  by (metis image_mset_union multiset_partition)

lemma take_empty_iff:
  assumes "invar s" and "take_due now s = Some (vs, s')"
  shows "vs = [] \<longleftrightarrow> (\<forall>x \<in># contents s. \<not> due now x)"
proof -
  have "vs = [] \<longleftrightarrow> mset vs = {#}" by simp
  also have "\<dots> \<longleftrightarrow> filter_mset (due now) (contents s) = {#}"
    using take_taken [OF assms] by simp
  finally show ?thesis by force
qed

lemma take_again_empty:
  assumes "invar s" and "take_due now s = Some (vs, s')" and "now' \<le> now"
    and "take_due now' s' = Some (ws, s'')"
  shows "ws = []"
  using take_empty_iff [OF take_invar [OF assms(1,2)] assms(4)] take_rest [OF assms(1,2)] assms(3)
  by auto

lemma take_nonempty_iff_next:
  assumes "invar s" and "take_due now s = Some (vs, s')"
  shows "vs \<noteq> [] \<longleftrightarrow> (\<exists>d. next_due s = Some d \<and> deadline_time d \<le> now)"
proof
  assume "vs \<noteq> []"
  then obtain x where x: "x \<in># contents s" "due now x"
    using take_empty_iff [OF assms] by blast
  then obtain d where d: "next_due s = Some d"
    using next_None_iff [OF assms(1)] by (cases "next_due s") auto
  then have "d \<le> fst x"
    using next_Some [OF assms(1)] x(1) by blast
  with x(2) d show "\<exists>d. next_due s = Some d \<and> deadline_time d \<le> now"
    by (auto simp: less_eq_ack_deadline_def)
next
  assume "\<exists>d. next_due s = Some d \<and> deadline_time d \<le> now"
  then obtain d where d: "next_due s = Some d" "deadline_time d \<le> now" by blast
  then obtain v where "(d, v) \<in># contents s"
    using next_Some [OF assms(1)] by blast
  then show "vs \<noteq> []"
    using take_empty_iff [OF assms] d(2) by auto
qed

text \<open>Once a wake-up happens at or after the earliest deadline, the loop returns a non-empty
  batch; before that it keeps waiting and nothing is lost.\<close>

lemma take_nothing_keeps:
  assumes "invar s" and "take_due now s = Some ([], s')"
  shows "contents s' = contents s" and "next_due s' = next_due s"
proof -
  have all: "\<forall>x \<in># contents s. \<not> due now x"
    using take_empty_iff [OF assms] by simp
  then show same: "contents s' = contents s"
    using take_rest [OF assms] by (simp add: filter_mset_eq_conv)
  have inv': "invar s'" by (rule take_invar [OF assms])
  show "next_due s' = next_due s"
  proof (cases "next_due s")
    case None
    then show ?thesis
      using next_None_iff [OF assms(1)] next_None_iff [OF inv'] same by simp
  next
    case (Some d)
    then obtain e where e: "next_due s' = Some e"
      using next_None_iff [OF assms(1)] next_None_iff [OF inv'] same by (cases "next_due s'") auto
    obtain v w where "(d, v) \<in># contents s" "(e, w) \<in># contents s"
      using next_Some [OF assms(1) Some] next_Some [OF inv' e] same by auto
    then have "d \<le> e" "e \<le> d"
      using next_Some [OF assms(1) Some] next_Some [OF inv' e] same by auto
    with Some e show ?thesis by simp
  qed
qed

lemma poll_returns:
  assumes "invar s" and "next_due s = Some d" and "now \<in> set wakeups" and "deadline_time d \<le> now"
  shows "\<exists>vs s'. poll_with take_due wakeups s = Ready vs s' \<and> vs \<noteq> []
    \<and> image_mset snd (contents s) = mset vs + image_mset snd (contents s')"
  using assms
proof (induction wakeups arbitrary: s)
  case (Cons t wakeups)
  obtain vs s' where take: "take_due t s = Some (vs, s')"
    using take_total [OF Cons.prems(1)] by blast
  show ?case
  proof (cases "vs = []")
    case True
    with take have keep: "contents s' = contents s" "next_due s' = next_due s"
      using take_nothing_keeps [OF Cons.prems(1)] by auto
    have "\<not> deadline_time d \<le> t"
      using take_nonempty_iff_next [OF Cons.prems(1) take] True Cons.prems(2) by auto
    then have "now \<in> set wakeups"
      using Cons.prems(3,4) by auto
    moreover have "invar s'" by (rule take_invar [OF Cons.prems(1) take])
    ultimately show ?thesis
      using Cons.IH [of s'] Cons.prems(2,4) keep take True by auto
  next
    case False
    then show ?thesis
      using take take_conserves [OF Cons.prems(1) take] by simp
  qed
qed simp

lemma poll_never_undefined:
  "invar s \<Longrightarrow> poll_with take_due wakeups s \<noteq> Undefined"
proof (induction wakeups arbitrary: s)
  case (Cons t wakeups)
  obtain vs s' where take: "take_due t s = Some (vs, s')"
    using take_total [OF Cons.prems] by blast
  then show ?case
    using Cons.IH [OF take_invar [OF Cons.prems take]] by simp
qed simp

end

end
