(* ===== verification/Outstanding.thy ===== *)
theory Outstanding
  imports Due_Queue
begin

text \<open>
  The outstanding message tracker, \<^verbatim>\<open>subscriptions/outstanding.rs\<close>: pulled messages by ack id,
  and beside them the ordered set of their expiration keys. The two are kept side by side, which
  is what the two \<^verbatim>\<open>unwrap_unchecked\<close> calls of \<^verbatim>\<open>take_expired\<close> rely on; a missing entry is
  the result \<open>None\<close> of \<open>take_expired\<close> (undefined behaviour in the source), and
  \<open>tracker_inv\<close> excludes it. \<open>om_notifies\<close> counts the calls of \<^verbatim>\<open>Notify::notify_waiters\<close>.
\<close>

section \<open>State and operations\<close>

record tracker =
  om_messages :: "(ack_id, pulled_message) hash_map"
  om_expirations :: "(ack_deadline \<times> ack_id) btree_set"
  om_notifies :: nat

definition tracker_new :: tracker where
  "tracker_new = \<lparr>om_messages = fmempty, om_expirations = [], om_notifies = 0\<rparr>"

definition tracker_notify :: "bool \<Rightarrow> tracker \<Rightarrow> tracker" where
  "tracker_notify should_notify t =
     (if should_notify then t\<lparr>om_notifies := om_notifies t + 1\<rparr> else t)"

definition tracker_add :: "pulled_message \<Rightarrow> tracker \<Rightarrow> tracker" where
  "tracker_add m t =
     (let key = expiration_key m;
          should_notify = (case bt_first (om_expirations t) of None \<Rightarrow> False | Some e \<Rightarrow> key < e)
      in tracker_notify should_notify
           (t\<lparr>om_messages := fmupd (pm_ack_id m) m (om_messages t),
              om_expirations := bt_insert key (om_expirations t)\<rparr>))"

definition next_expiration :: "tracker \<Rightarrow> ack_deadline option" where
  "next_expiration t = map_option fst (bt_first (om_expirations t))"

function take_expired_loop ::
    "instant \<Rightarrow> tracker \<Rightarrow> pulled_message list \<Rightarrow> (pulled_message list \<times> tracker) option" where
  "take_expired_loop time t result =
     (case bt_first (om_expirations t) of
        None \<Rightarrow> Some (result, t)
      | Some key \<Rightarrow>
          if time < deadline_time (fst key) then Some (result, t)
          else (case bt_pop_first (om_expirations t) of
                  None \<Rightarrow> None
                | Some ((_, i), rest) \<Rightarrow>
                    (case fmlookup (om_messages t) i of
                       None \<Rightarrow> None
                     | Some message \<Rightarrow>
                         take_expired_loop time
                           (t\<lparr>om_messages := fmdrop i (om_messages t), om_expirations := rest\<rparr>)
                           (result @ [message]))))"
  by pat_completeness auto
termination
  by (relation "measure (\<lambda>(_, t, _). length (om_expirations t))")
    (auto simp: bt_pop_first_def split: list.splits)

declare take_expired_loop.simps [simp del]

definition take_expired :: "instant \<Rightarrow> tracker \<Rightarrow> (pulled_message list \<times> tracker) option" where
  "take_expired time t = take_expired_loop time t []"

fun tracker_remove_loop ::
    "(ack_deadline \<times> ack_id) option \<Rightarrow> ack_id list \<Rightarrow> bool \<Rightarrow> pulled_message list \<Rightarrow> tracker
     \<Rightarrow> bool \<times> pulled_message list \<times> tracker" where
  "tracker_remove_loop first [] should_notify result t = (should_notify, result, t)"
| "tracker_remove_loop first (i # ids) should_notify result t =
     (case fmlookup (om_messages t) i of
        None \<Rightarrow> tracker_remove_loop first ids should_notify result t
      | Some message \<Rightarrow>
          tracker_remove_loop first ids (should_notify \<or> first = Some (expiration_key message))
            (result @ [message])
            (t\<lparr>om_messages := fmdrop i (om_messages t),
               om_expirations := bt_remove (expiration_key message) (om_expirations t)\<rparr>))"

definition tracker_remove :: "ack_id list \<Rightarrow> tracker \<Rightarrow> pulled_message list \<times> tracker" where
  "tracker_remove ids t =
     (let (should_notify, result, t') =
        tracker_remove_loop (bt_first (om_expirations t)) ids False [] t
      in (result, tracker_notify should_notify t'))"

text \<open>One iteration of \<^verbatim>\<open>modify\<close>: a known ack id gets its new deadline, or leaves the tracker
  when the modification is a nack.\<close>

definition tracker_modify_one ::
    "(ack_deadline \<times> ack_id) option \<Rightarrow> deadline_modification
     \<Rightarrow> bool \<times> pulled_message list \<times> tracker \<Rightarrow> bool \<times> pulled_message list \<times> tracker" where
  "tracker_modify_one first m acc =
     (case acc of (should_notify, result, t) \<Rightarrow>
       (case fmlookup (om_messages t) (dm_ack_id m) of
          None \<Rightarrow> acc
        | Some message \<Rightarrow>
            let current = expiration_key message;
                should_notify = (should_notify \<or> first = Some current);
                expirations = bt_remove current (om_expirations t)
            in (case dm_new_deadline m of
                  Some d \<Rightarrow>
                    let message' = pulled_modify_deadline d message;
                        key = expiration_key message';
                        should_notify =
                          (should_notify \<or> (case first of None \<Rightarrow> False | Some e \<Rightarrow> key < e))
                    in (should_notify, result,
                        t\<lparr>om_messages := fmupd (dm_ack_id m) message' (om_messages t),
                          om_expirations := bt_insert key expirations\<rparr>)
                | None \<Rightarrow>
                    (should_notify, result @ [message],
                     t\<lparr>om_messages := fmdrop (dm_ack_id m) (om_messages t),
                       om_expirations := expirations\<rparr>))))"

definition tracker_modify ::
    "deadline_modification list \<Rightarrow> tracker \<Rightarrow> pulled_message list \<times> tracker" where
  "tracker_modify ms t =
     (let (should_notify, result, t') =
        fold (tracker_modify_one (bt_first (om_expirations t))) ms (False, [], t)
      in (result, tracker_notify should_notify t'))"

definition tracker_clear :: "tracker \<Rightarrow> tracker" where
  "tracker_clear t =
     t\<lparr>om_expirations := [], om_messages := fmempty, om_notifies := om_notifies t + 1\<rparr>"

text \<open>\<^verbatim>\<open>drain\<close> yields the values of the hash map in iteration order, the first argument.\<close>

definition tracker_drain ::
    "pulled_message list \<Rightarrow> tracker \<Rightarrow> pulled_message list \<times> tracker" where
  "tracker_drain order t =
     (order, t\<lparr>om_expirations := [], om_messages := fmempty, om_notifies := om_notifies t + 1\<rparr>)"

definition tracker_len :: "tracker \<Rightarrow> nat" where
  "tracker_len t = hm_len (om_messages t)"

definition tracker_contains :: "ack_id \<Rightarrow> tracker \<Rightarrow> bool" where
  "tracker_contains i t \<longleftrightarrow> hm_contains i (om_messages t)"

definition oldest_published_at :: "tracker \<Rightarrow> system_time option" where
  "oldest_published_at t =
     (if om_messages t = fmempty then None
      else Some (Min ((\<lambda>m. tm_published_at (pm_message m)) ` fset (fmran (om_messages t)))))"

definition poll_next_expired ::
    "instant list \<Rightarrow> tracker \<Rightarrow> (pulled_message, tracker) poll_result" where
  "poll_next_expired wakeups t = poll_with take_expired wakeups t"

section \<open>The side-by-side invariant\<close>

definition tracker_inv :: "tracker \<Rightarrow> bool" where
  "tracker_inv t \<longleftrightarrow>
     bt_invar (om_expirations t)
     \<and> (\<forall>i m. fmlookup (om_messages t) i = Some m \<longrightarrow> pm_ack_id m = i)
     \<and> (\<forall>d i. (d, i) \<in> set (om_expirations t)
          \<longleftrightarrow> (\<exists>m. fmlookup (om_messages t) i = Some m \<and> pm_deadline m = d))"

text \<open>Every outstanding message with its deadline.\<close>

definition tracker_contents :: "tracker \<Rightarrow> (ack_deadline \<times> pulled_message) multiset" where
  "tracker_contents t = image_mset (\<lambda>m. (pm_deadline m, m)) (fmvals (om_messages t))"

abbreviation tracker_vals :: "tracker \<Rightarrow> pulled_message multiset" where
  "tracker_vals t \<equiv> fmvals (om_messages t)"

lemma tracker_notify_simps [simp]:
  "om_messages (tracker_notify b t) = om_messages t"
  "om_expirations (tracker_notify b t) = om_expirations t"
  "tracker_inv (tracker_notify b t) = tracker_inv t"
  by (simp_all add: tracker_notify_def tracker_inv_def)

lemma tracker_inv_new [simp, invariant_intros]: "tracker_inv tracker_new"
  by (simp add: tracker_inv_def tracker_new_def bts.invar_empty)

lemma tracker_inv_ack_id: "tracker_inv t \<Longrightarrow> fmlookup (om_messages t) i = Some m \<Longrightarrow> pm_ack_id m = i"
  by (simp add: tracker_inv_def)

lemma tracker_inv_key:
  "tracker_inv t \<Longrightarrow> (d, i) \<in> set (om_expirations t) \<Longrightarrow>
   \<exists>m. fmlookup (om_messages t) i = Some m \<and> pm_deadline m = d"
  by (simp add: tracker_inv_def)

lemma tracker_inv_expiration_key:
  "tracker_inv t \<Longrightarrow> fmlookup (om_messages t) i = Some m \<Longrightarrow>
   expiration_key m = (pm_deadline m, i) \<and> expiration_key m \<in> set (om_expirations t)"
  by (auto simp: tracker_inv_def expiration_key_def)

text \<open>Adding a message under a fresh ack id.\<close>

lemma tracker_add_inv [invariant_intros]:
  assumes "tracker_inv t" and "fmlookup (om_messages t) (pm_ack_id m) = None"
  shows "tracker_inv (tracker_add m t)"
  using assms
  by (auto simp: tracker_inv_def tracker_add_def Let_def tracker_notify_def expiration_key_def
      bts.invar_insert set_bt_insert)

lemma tracker_add_messages [simp]:
  "om_messages (tracker_add m t) = fmupd (pm_ack_id m) m (om_messages t)"
  by (simp add: tracker_add_def Let_def)

text \<open>Removing one known message keeps both sides in step.\<close>

lemma tracker_drop_inv:
  assumes "tracker_inv t" and "fmlookup (om_messages t) i = Some m"
  shows "tracker_inv (t\<lparr>om_messages := fmdrop i (om_messages t),
    om_expirations := bt_remove (expiration_key m) (om_expirations t)\<rparr>)"
proof -
  have inv: "bt_invar (om_expirations t)" and key: "expiration_key m = (pm_deadline m, i)"
    using assms tracker_inv_expiration_key by (auto simp: tracker_inv_def)
  show ?thesis
    using assms unfolding tracker_inv_def
    by (auto simp: bts.invar_remove [OF inv] bts.elems_remove [OF inv] key)
qed


lemma tracker_empty_iff:
  assumes "tracker_inv t"
  shows "om_expirations t = [] \<longleftrightarrow> tracker_vals t = {#}"
proof
  assume "om_expirations t = []"
  then have "fmlookup (om_messages t) i = None" for i
    using tracker_inv_expiration_key [OF assms] by (cases "fmlookup (om_messages t) i") auto
  then have "om_messages t = fmempty"
    by (auto intro: fmap_ext)
  then show "tracker_vals t = {#}" by simp
next
  assume empty: "tracker_vals t = {#}"
  show "om_expirations t = []"
  proof (cases "om_expirations t")
    case (Cons k ks)
    then obtain m where "fmlookup (om_messages t) (snd k) = Some m"
      using tracker_inv_key [OF assms, of "fst k" "snd k"] by auto
    then show ?thesis
      using empty fmvals_lookup by fastforce
  qed simp
qed

section \<open>Taking expired messages\<close>

abbreviation is_due :: "instant \<Rightarrow> pulled_message \<Rightarrow> bool" where
  "is_due now m \<equiv> deadline_time (pm_deadline m) \<le> now"

text \<open>What one pop of the loop does, and that it is always defined.\<close>

lemma take_expired_step:
  assumes inv: "tracker_inv t" and exps: "om_expirations t = (d, i) # rest"
  obtains m where "fmlookup (om_messages t) i = Some m" "pm_deadline m = d"
    "tracker_inv (t\<lparr>om_messages := fmdrop i (om_messages t), om_expirations := rest\<rparr>)"
proof -
  obtain m where m: "fmlookup (om_messages t) i = Some m" "pm_deadline m = d"
    using tracker_inv_key [OF inv] exps by fastforce
  have key: "expiration_key m = (d, i)"
    using tracker_inv_expiration_key [OF inv m(1)] m(2) by simp
  have "sorted_wrt (<) ((d, i) # rest)"
    using inv exps by (simp add: tracker_inv_def bt_invar_def)
  then have "(d, i) \<notin> set rest"
    by auto
  then have "bt_remove (d, i) (om_expirations t) = rest"
    by (auto simp: exps bt_remove_def filter_id_conv)
  then show thesis
    using that [OF m] tracker_drop_inv [OF inv m(1)] key by simp
qed

lemma take_expired_loop_spec:
  "tracker_inv t \<Longrightarrow> \<exists>vs t'. take_expired_loop now t acc = Some (acc @ vs, t') \<and> tracker_inv t'
     \<and> tracker_vals t = mset vs + tracker_vals t'
     \<and> list_all (is_due now) vs \<and> (\<forall>m \<in># tracker_vals t'. \<not> is_due now m)
     \<and> map expiration_key vs @ om_expirations t' = om_expirations t
     \<and> om_notifies t' = om_notifies t"
proof (induction now t acc rule: take_expired_loop.induct)
  case (1 now t acc)
  show ?case
  proof (cases "om_expirations t")
    case Nil
    then have "tracker_vals t = {#}"
      using tracker_empty_iff [OF "1.prems"] by simp
    then show ?thesis
      using Nil "1.prems" by (simp add: take_expired_loop.simps [of now t])
  next
    case (Cons k rest)
    obtain d i where k: "k = (d, i)" by force
    show ?thesis
    proof (cases "now < deadline_time d")
      case True
      have "\<not> is_due now m" if mem: "m \<in># tracker_vals t" for m
      proof -
        obtain j where "fmlookup (om_messages t) j = Some m"
          using mem by (auto simp: in_fmvals_iff)
        then have "expiration_key m \<in> set (om_expirations t)"
          using tracker_inv_expiration_key [OF "1.prems"] by blast
        then have "(d, i) \<le> expiration_key m"
          using bts.first_Some [of "om_expirations t" "(d, i)"] "1.prems" Cons k
          by (auto simp: tracker_inv_def)
        then have "d \<le> pm_deadline m"
          by (auto simp: expiration_key_def less_eq_prod_def)
        with True show ?thesis by (simp add: less_eq_ack_deadline_def)
      qed
      with True Cons k "1.prems" show ?thesis
        by (simp add: take_expired_loop.simps [of now t])
    next
      case False
      obtain m where m: "fmlookup (om_messages t) i = Some m" "pm_deadline m = d"
        and inv': "tracker_inv (t\<lparr>om_messages := fmdrop i (om_messages t), om_expirations := rest\<rparr>)"
        using take_expired_step [OF "1.prems", of d i rest] Cons k by blast
      let ?t = "t\<lparr>om_messages := fmdrop i (om_messages t), om_expirations := rest\<rparr>"
      have first: "bt_first (om_expirations t) = Some (d, i)"
        and pop: "bt_pop_first (om_expirations t) = Some ((d, i), rest)"
        using Cons k by simp_all
      obtain vs t' where IH: "take_expired_loop now ?t (acc @ [m]) = Some ((acc @ [m]) @ vs, t')"
        "tracker_inv t'" "tracker_vals ?t = mset vs + tracker_vals t'"
        "list_all (is_due now) vs" "\<forall>m \<in># tracker_vals t'. \<not> is_due now m"
        "map expiration_key vs @ om_expirations t' = om_expirations ?t"
        "om_notifies t' = om_notifies ?t"
        using "1.IH" [OF first _ pop refl refl m(1) inv'] False by auto
      have "take_expired_loop now t acc = Some (acc @ (m # vs), t')"
        using False first pop m(1) IH(1) by (simp add: take_expired_loop.simps [of now t])
      moreover have "expiration_key m = (d, i)"
        using tracker_inv_expiration_key [OF "1.prems" m(1)] m(2) by simp
      ultimately show ?thesis
        using IH(2-) False m(2) Cons k fmvals_lookup [OF m(1)] by (intro exI [of _ "m # vs"]) auto
    qed
  qed
qed

lemma take_expired_spec:
  assumes "tracker_inv t"
  obtains vs t' where "take_expired now t = Some (vs, t')" "tracker_inv t'"
    "tracker_vals t = mset vs + tracker_vals t'"
    "list_all (is_due now) vs" "\<forall>m \<in># tracker_vals t'. \<not> is_due now m"
    "map expiration_key vs @ om_expirations t' = om_expirations t"
  using take_expired_loop_spec [OF assms, of now "[]"] unfolding take_expired_def by auto

lemma take_expired_split:
  assumes "tracker_inv t" and "take_expired now t = Some (vs, t')"
  shows "tracker_inv t'" and "mset vs = filter_mset (is_due now) (tracker_vals t)"
    and "tracker_vals t' = filter_mset (\<lambda>m. \<not> is_due now m) (tracker_vals t)"
    and "map expiration_key vs @ om_expirations t' = om_expirations t"
proof -
  note spec = take_expired_spec [OF assms(1), of now]
  show "tracker_inv t'" "map expiration_key vs @ om_expirations t' = om_expirations t"
    using spec assms(2) by (metis option.inject prod.inject)+
  have split: "tracker_vals t = mset vs + tracker_vals t'" "list_all (is_due now) vs"
    "\<forall>m \<in># tracker_vals t'. \<not> is_due now m"
    using spec assms(2) by (metis option.inject prod.inject)+
  have "filter_mset (is_due now) (mset vs) = mset vs"
    using split(2) by (simp add: filter_mset_eq_conv list_all_iff)
  moreover have "filter_mset (is_due now) (tracker_vals t') = {#}"
    using split(3) by (simp add: filter_mset_eq_conv)
  ultimately show "mset vs = filter_mset (is_due now) (tracker_vals t)"
    using split(1) by simp
  have "filter_mset (\<lambda>m. \<not> is_due now m) (mset vs) = {#}"
    using split(2) by (auto simp: list_all_iff)
  moreover have "filter_mset (\<lambda>m. \<not> is_due now m) (tracker_vals t') = tracker_vals t'"
    using split(3) by (simp add: filter_mset_eq_conv)
  ultimately show "tracker_vals t' = filter_mset (\<lambda>m. \<not> is_due now m) (tracker_vals t)"
    using split(1) by simp
qed

lemma tracker_next_Some:
  assumes inv: "tracker_inv t" and nxt: "next_expiration t = Some d"
  shows "(\<exists>m. (d, m) \<in># tracker_contents t) \<and> (\<forall>x \<in># tracker_contents t. d \<le> fst x)"
proof -
  obtain i where first: "bt_first (om_expirations t) = Some (d, i)"
    using nxt by (auto simp: next_expiration_def)
  have bt: "bt_invar (om_expirations t)"
    using inv by (simp add: tracker_inv_def)
  obtain m where m: "fmlookup (om_messages t) i = Some m" "pm_deadline m = d"
    using tracker_inv_key [OF inv] bts.first_Some [OF bt first] by blast
  have "d \<le> pm_deadline n" if mem: "n \<in># tracker_vals t" for n
  proof -
    obtain j where "fmlookup (om_messages t) j = Some n"
      using mem by (auto simp: in_fmvals_iff)
    then have "(d, i) \<le> (pm_deadline n, j)"
      using tracker_inv_expiration_key [OF inv] bts.first_Some [OF bt first] by fastforce
    then show ?thesis by (auto simp: less_eq_prod_def)
  qed
  moreover have "m \<in># tracker_vals t"
    using m(1) by (auto simp: in_fmvals_iff)
  ultimately show ?thesis
    using m(2) by (auto simp: tracker_contents_def)
qed

interpretation outstanding_due: due_queue tracker_inv tracker_contents take_expired next_expiration
proof unfold_locales
  fix t now
  assume "tracker_inv t"
  then show "\<exists>vs t'. take_expired now t = Some (vs, t')"
    by (metis take_expired_spec)
next
  fix t now vs t'
  assume h: "tracker_inv t" "take_expired now t = Some (vs, t')"
  show "tracker_inv t'" by (rule take_expired_split(1) [OF h])
  show "tracker_contents t' = filter_mset (\<lambda>x. \<not> due now x) (tracker_contents t)"
    unfolding tracker_contents_def take_expired_split(3) [OF h]
    by (simp add: filter_mset_image_mset comp_def)
  show "mset vs = image_mset snd (filter_mset (due now) (tracker_contents t))"
    unfolding tracker_contents_def take_expired_split(2) [OF h]
    by (simp add: filter_mset_image_mset comp_def multiset.map_comp)
next
  fix t
  assume "tracker_inv t"
  then show "next_expiration t = None \<longleftrightarrow> tracker_contents t = {#}"
    using tracker_empty_iff [of t]
    by (cases "om_expirations t") (auto simp: next_expiration_def tracker_contents_def)
next
  fix t d
  assume "tracker_inv t" "next_expiration t = Some d"
  then show "(\<exists>v. (d, v) \<in># tracker_contents t) \<and> (\<forall>x \<in># tracker_contents t. d \<le> fst x)"
    by (rule tracker_next_Some)
qed

section \<open>Removing acknowledged messages\<close>

lemma tracker_remove_loop_spec:
  "tracker_inv t \<Longrightarrow> tracker_remove_loop first ids b acc t = (b', vs, t') \<Longrightarrow>
   tracker_inv t' \<and> (\<exists>ws. vs = acc @ ws \<and> tracker_vals t = mset ws + tracker_vals t'
     \<and> (\<forall>w \<in> set ws. pm_ack_id w \<in> set ids \<and> fmlookup (om_messages t) (pm_ack_id w) = Some w))
   \<and> (\<forall>i. fmlookup (om_messages t') i = (if i \<in> set ids then None else fmlookup (om_messages t) i))"
proof (induction ids arbitrary: b acc t)
  case (Cons i ids)
  show ?case
  proof (cases "fmlookup (om_messages t) i")
    case None
    then have "tracker_remove_loop first ids b acc t = (b', vs, t')"
      using Cons.prems(2) by simp
    from Cons.IH [OF Cons.prems(1) this] None show ?thesis
      by (auto 0 4)
  next
    case (Some m)
    let ?t = "t\<lparr>om_messages := fmdrop i (om_messages t),
      om_expirations := bt_remove (expiration_key m) (om_expirations t)\<rparr>"
    have id: "pm_ack_id m = i"
      by (rule tracker_inv_ack_id [OF Cons.prems(1) Some])
    have "tracker_remove_loop first ids (b \<or> first = Some (expiration_key m)) (acc @ [m]) ?t
        = (b', vs, t')"
      using Cons.prems(2) Some by simp
    note IH = Cons.IH [OF tracker_drop_inv [OF Cons.prems(1) Some] this]
    then obtain ws where ws: "vs = (acc @ [m]) @ ws" "tracker_vals ?t = mset ws + tracker_vals t'"
      "\<forall>w \<in> set ws. pm_ack_id w \<in> set ids \<and> fmlookup (om_messages ?t) (pm_ack_id w) = Some w"
      by blast
    have "\<forall>w \<in> set ws. pm_ack_id w \<in> set (i # ids) \<and> fmlookup (om_messages t) (pm_ack_id w) = Some w"
      using ws(3) by (auto split: if_splits)
    moreover have "tracker_vals t = mset (m # ws) + tracker_vals t'"
      using ws(2) fmvals_lookup [OF Some] by simp
    ultimately show ?thesis
      using IH ws(1) id Some by (auto intro!: exI [of _ "m # ws"])
  qed
qed simp

lemma tracker_remove_spec:
  assumes "tracker_inv t" and "tracker_remove ids t = (vs, t')"
  shows "tracker_inv t'" and "tracker_vals t = mset vs + tracker_vals t'"
    and "\<forall>w \<in> set vs. pm_ack_id w \<in> set ids \<and> fmlookup (om_messages t) (pm_ack_id w) = Some w"
    and "\<And>i. fmlookup (om_messages t') i = (if i \<in> set ids then None else fmlookup (om_messages t) i)"
proof -
  obtain b ws u where loop:
    "tracker_remove_loop (bt_first (om_expirations t)) ids False [] t = (b, ws, u)"
    by (metis prod_cases3)
  then have eq: "vs = ws" "t' = tracker_notify b u"
    using assms(2) by (auto simp: tracker_remove_def)
  note spec = tracker_remove_loop_spec [OF assms(1) loop]
  show "tracker_inv t'" "tracker_vals t = mset vs + tracker_vals t'"
    "\<forall>w \<in> set vs. pm_ack_id w \<in> set ids \<and> fmlookup (om_messages t) (pm_ack_id w) = Some w"
    "\<And>i. fmlookup (om_messages t') i = (if i \<in> set ids then None else fmlookup (om_messages t) i)"
    using spec eq by auto
qed

section \<open>Modifying deadlines\<close>

text \<open>The effect of the modifications on one ack id, in order: the specification of \<^verbatim>\<open>modify\<close>.\<close>

definition modify_entry ::
    "ack_id \<Rightarrow> deadline_modification \<Rightarrow> pulled_message option \<Rightarrow> pulled_message option" where
  "modify_entry i m entry =
     (if dm_ack_id m = i
      then Option.bind entry (\<lambda>p. map_option (\<lambda>d. pulled_modify_deadline d p) (dm_new_deadline m))
      else entry)"

abbreviation payloads :: "tracker \<Rightarrow> topic_message multiset" where
  "payloads t \<equiv> image_mset pm_message (tracker_vals t)"

lemma tracker_redeadline_inv:
  assumes inv: "tracker_inv t" and m: "fmlookup (om_messages t) i = Some m"
  shows "tracker_inv (t\<lparr>om_messages := fmupd i (pulled_modify_deadline d m) (om_messages t),
    om_expirations := bt_insert (expiration_key (pulled_modify_deadline d m))
      (bt_remove (expiration_key m) (om_expirations t))\<rparr>)"
proof -
  let ?u = "t\<lparr>om_messages := fmdrop i (om_messages t),
    om_expirations := bt_remove (expiration_key m) (om_expirations t)\<rparr>"
  have u: "tracker_inv ?u" by (rule tracker_drop_inv [OF inv m])
  have id: "pm_ack_id (pulled_modify_deadline d m) = i"
    using tracker_inv_ack_id [OF inv m] by (simp add: pulled_modify_deadline_def)
  have "fmupd i x (fmdrop i (om_messages t)) = fmupd i x (om_messages t)" for x
    by (rule fmap_ext) simp
  then show ?thesis
    using tracker_add_inv [OF u, of "pulled_modify_deadline d m"] id
    by (simp add: tracker_add_def Let_def tracker_inv_def)
qed

lemma tracker_modify_one_spec:
  assumes inv: "tracker_inv t" and step: "tracker_modify_one first m (b, vs, t) = (b', vs', t')"
  shows "tracker_inv t'"
    and "payloads t + image_mset pm_message (mset vs) = payloads t' + image_mset pm_message (mset vs')"
    and "\<And>i. fmlookup (om_messages t') i = modify_entry i m (fmlookup (om_messages t) i)"
    and "\<exists>ws. vs' = vs @ ws \<and> (\<forall>w \<in> set ws. fmlookup (om_messages t) (pm_ack_id w) = Some w)"
proof -
  show "tracker_inv t'"
    using step tracker_redeadline_inv [OF inv] tracker_drop_inv [OF inv] inv
    by (auto simp: tracker_modify_one_def Let_def split: option.splits)
  show "payloads t + image_mset pm_message (mset vs) = payloads t' + image_mset pm_message (mset vs')"
    using step fmvals_lookup [of "om_messages t" "dm_ack_id m"]
    by (auto simp: tracker_modify_one_def Let_def fmvals_upd pulled_modify_deadline_def
        split: option.splits)
  show "\<And>i. fmlookup (om_messages t') i = modify_entry i m (fmlookup (om_messages t) i)"
    using step by (auto simp: tracker_modify_one_def modify_entry_def Let_def split: option.splits)
  show "\<exists>ws. vs' = vs @ ws \<and> (\<forall>w \<in> set ws. fmlookup (om_messages t) (pm_ack_id w) = Some w)"
    using step tracker_inv_ack_id [OF inv]
    by (auto simp: tracker_modify_one_def Let_def split: option.splits)
qed

lemma tracker_modify_fold_spec:
  "tracker_inv t \<Longrightarrow> fold (tracker_modify_one first) ms (b, vs, t) = (b', vs', t') \<Longrightarrow>
   tracker_inv t'
   \<and> payloads t + image_mset pm_message (mset vs) = payloads t' + image_mset pm_message (mset vs')
   \<and> (\<forall>i. fmlookup (om_messages t') i = fold (modify_entry i) ms (fmlookup (om_messages t) i))"
proof (induction ms arbitrary: b vs t)
  case (Cons m ms)
  obtain c ws u where one: "tracker_modify_one first m (b, vs, t) = (c, ws, u)"
    by (metis prod_cases3)
  note spec = tracker_modify_one_spec [OF Cons.prems(1) one]
  have "fold (tracker_modify_one first) ms (c, ws, u) = (b', vs', t')"
    using Cons.prems(2) one by simp
  from Cons.IH [OF spec(1) this] spec(2,3) show ?case by simp
qed simp

lemma tracker_modify_spec:
  assumes "tracker_inv t" and "tracker_modify ms t = (nacks, t')"
  shows "tracker_inv t'" and "payloads t = image_mset pm_message (mset nacks) + payloads t'"
    and "\<And>i. fmlookup (om_messages t') i = fold (modify_entry i) ms (fmlookup (om_messages t) i)"
proof -
  obtain b ws u where loop:
    "fold (tracker_modify_one (bt_first (om_expirations t))) ms (False, [], t) = (b, ws, u)"
    by (metis prod_cases3)
  then have eq: "nacks = ws" "t' = tracker_notify b u"
    using assms(2) by (auto simp: tracker_modify_def)
  note spec = tracker_modify_fold_spec [OF assms(1) loop]
  show "tracker_inv t'" "payloads t = image_mset pm_message (mset nacks) + payloads t'"
    "\<And>i. fmlookup (om_messages t') i = fold (modify_entry i) ms (fmlookup (om_messages t) i)"
    using spec eq by auto
qed

lemma modify_entry_None: "fold (modify_entry i) ms None = None"
  by (induction ms) (auto simp: modify_entry_def)

lemma tracker_modify_dom:
  assumes "tracker_inv t" and "tracker_modify ms t = (nacks, t')"
    and "fmlookup (om_messages t') i = Some m'"
  shows "\<exists>m. fmlookup (om_messages t) i = Some m"
  using tracker_modify_spec(3) [OF assms(1,2), of i] assms(3) modify_entry_None
  by (cases "fmlookup (om_messages t) i") auto

lemma tracker_clear_inv [simp, invariant_intros]: "tracker_inv (tracker_clear t)"
  by (simp add: tracker_inv_def tracker_clear_def bts.invar_empty)

lemma tracker_drain_inv [invariant_intros]: "tracker_inv (snd (tracker_drain order t))"
  by (simp add: tracker_inv_def tracker_drain_def bts.invar_empty)

end
