(* ===== verification/Retry_Queue.thy ===== *)
theory Retry_Queue
  imports Due_Queue
begin

text \<open>
  The retry queue, \<^verbatim>\<open>subscriptions/retry_queue.rs\<close>: messages waiting for their backoff, held
  under a sequence number, with an ordered schedule of (delivery time, sequence number). It meets
  the same contract as the outstanding tracker (\<open>due_queue\<close>).
\<close>

record retry_queue =
  rq_schedule :: "(ack_deadline \<times> u64) btree_set"
  rq_messages :: "(u64, topic_message) hash_map"
  rq_next_seq :: u64
  rq_notifies :: nat

definition retry_new :: retry_queue where
  "retry_new = \<lparr>rq_schedule = [], rq_messages = fmempty, rq_next_seq = 0, rq_notifies = 0\<rparr>"

definition retry_add :: "topic_message \<Rightarrow> ack_deadline \<Rightarrow> retry_queue \<Rightarrow> retry_queue" where
  "retry_add m deliver_at q =
     (let seq = rq_next_seq q;
          key = (deliver_at, seq);
          should_notify = (case bt_first (rq_schedule q) of None \<Rightarrow> True | Some first \<Rightarrow> key < first)
      in q\<lparr>rq_schedule := bt_insert key (rq_schedule q),
           rq_messages := fmupd seq m (rq_messages q),
           rq_next_seq := seq + 1,
           rq_notifies := (if should_notify then rq_notifies q + 1 else rq_notifies q)\<rparr>)"

function take_ready_loop ::
    "instant \<Rightarrow> retry_queue \<Rightarrow> topic_message list \<Rightarrow> topic_message list \<times> retry_queue" where
  "take_ready_loop now q result =
     (case rq_schedule q of
        [] \<Rightarrow> (result, q)
      | (deadline, seq) # rest \<Rightarrow>
          if now < deadline_time deadline then (result, q)
          else (case fmlookup (rq_messages q) seq of
                  None \<Rightarrow> take_ready_loop now (q\<lparr>rq_schedule := rest\<rparr>) result
                | Some message \<Rightarrow>
                    take_ready_loop now
                      (q\<lparr>rq_schedule := rest, rq_messages := fmdrop seq (rq_messages q)\<rparr>)
                      (result @ [message])))"
  by pat_completeness auto
termination
  by (relation "measure (\<lambda>(_, q, _). length (rq_schedule q))") auto

declare take_ready_loop.simps [simp del]

definition take_ready :: "instant \<Rightarrow> retry_queue \<Rightarrow> topic_message list \<times> retry_queue" where
  "take_ready now q = take_ready_loop now q []"

definition retry_next :: "retry_queue \<Rightarrow> ack_deadline option" where
  "retry_next q = map_option fst (bt_first (rq_schedule q))"

definition poll_next_ready ::
    "instant list \<Rightarrow> retry_queue \<Rightarrow> (topic_message, retry_queue) poll_result" where
  "poll_next_ready wakeups q = poll_with (\<lambda>now q. Some (take_ready now q)) wakeups q"

definition retry_len :: "retry_queue \<Rightarrow> nat" where
  "retry_len q = hm_len (rq_messages q)"

definition retry_clear :: "retry_queue \<Rightarrow> retry_queue" where
  "retry_clear q =
     q\<lparr>rq_schedule := [], rq_messages := fmempty, rq_notifies := rq_notifies q + 1\<rparr>"

text \<open>\<^verbatim>\<open>drain\<close> yields the values of the hash map in iteration order, the first argument.\<close>

definition retry_drain :: "topic_message list \<Rightarrow> retry_queue \<Rightarrow> topic_message list \<times> retry_queue" where
  "retry_drain order q =
     (order, q\<lparr>rq_schedule := [], rq_messages := fmempty, rq_notifies := rq_notifies q + 1\<rparr>)"

section \<open>Invariant and contents\<close>

definition retry_inv :: "retry_queue \<Rightarrow> bool" where
  "retry_inv q \<longleftrightarrow>
     bt_invar (rq_schedule q)
     \<and> distinct (map snd (rq_schedule q))
     \<and> snd ` set (rq_schedule q) = fset (fmdom (rq_messages q))
     \<and> (\<forall>k \<in> set (rq_schedule q). snd k < rq_next_seq q)"

definition retry_contents :: "retry_queue \<Rightarrow> (ack_deadline \<times> topic_message) multiset" where
  "retry_contents q =
     mset (map (\<lambda>k. (fst k, the (fmlookup (rq_messages q) (snd k)))) (rq_schedule q))"

abbreviation retry_vals :: "retry_queue \<Rightarrow> topic_message multiset" where
  "retry_vals q \<equiv> fmvals (rq_messages q)"

lemma retry_vals_contents:
  assumes "retry_inv q"
  shows "image_mset snd (retry_contents q) = retry_vals q"
proof -
  have "mset (map snd (rq_schedule q)) = mset_set (fset (fmdom (rq_messages q)))"
    using assms unfolding retry_inv_def by (metis list.set_map mset_set_set)
  then have "image_mset (\<lambda>s. the (fmlookup (rq_messages q) s)) (mset (map snd (rq_schedule q)))
      = retry_vals q"
    by (simp add: fmvals_def)
  then show ?thesis
    by (simp add: retry_contents_def multiset.map_comp comp_def)
qed

lemma retry_inv_new [simp, invariant_intros]: "retry_inv retry_new"
  by (simp add: retry_inv_def retry_new_def bts.invar_empty)

lemma retry_inv_cleared [simp, invariant_intros]:
  "retry_inv (retry_clear q)" "retry_inv (snd (retry_drain order q))"
  by (simp_all add: retry_inv_def retry_clear_def retry_drain_def bts.invar_empty)

lemma distinct_snd_bt_insert:
  "distinct (map snd s) \<Longrightarrow> snd k \<notin> snd ` set s \<Longrightarrow> distinct (map snd (bt_insert k s))"
  by (induction s) (auto simp: set_bt_insert)

lemma mset_bt_insert: "k \<notin> set s \<Longrightarrow> mset (bt_insert k s) = add_mset k (mset s)"
  by (induction s) auto

lemma retry_add_fresh:
  assumes "retry_inv q"
  shows "fmlookup (rq_messages q) (rq_next_seq q) = None"
  using assms unfolding retry_inv_def by (metis (no_types, lifting) fmdom_notD imageE order_less_irrefl)

lemma retry_add_inv [invariant_intros]:
  assumes inv: "retry_inv q" and room: "unat (rq_next_seq q) + 1 < 2 ^ 64"
  shows "retry_inv (retry_add m d q)"
proof -
  have bt: "bt_invar (rq_schedule q)" using inv by (simp add: retry_inv_def)
  have fresh: "rq_next_seq q \<notin> snd ` set (rq_schedule q)"
    using inv unfolding retry_inv_def by fastforce
  have less: "rq_next_seq q < rq_next_seq q + 1"
    using room by (simp add: word_less_nat_alt unat_word_ariths)
  show ?thesis
    using inv bts.invar_insert [OF bt] fresh less
    by (auto simp: retry_inv_def retry_add_def Let_def set_bt_insert distinct_snd_bt_insert
        intro: less_trans)
qed

lemma retry_add_vals:
  "retry_inv q \<Longrightarrow> retry_vals (retry_add m d q) = add_mset m (retry_vals q)"
  using retry_add_fresh by (simp add: retry_add_def Let_def fmvals_fresh)

lemma retry_add_contents:
  assumes inv: "retry_inv q"
  shows "retry_contents (retry_add m d q) = add_mset (d, m) (retry_contents q)"
proof -
  have fresh: "rq_next_seq q \<notin> snd ` set (rq_schedule q)"
    using inv unfolding retry_inv_def by fastforce
  then have "(d, rq_next_seq q) \<notin> set (rq_schedule q)" by force
  note sched = mset_bt_insert [OF this]
  have "image_mset (\<lambda>k. (fst k, the (fmlookup (fmupd (rq_next_seq q) m (rq_messages q)) (snd k))))
      (mset (rq_schedule q)) = retry_contents q"
    unfolding retry_contents_def mset_map
    by (rule image_mset_cong) (use fresh in \<open>force simp: image_iff\<close>)
  moreover have "rq_schedule (retry_add m d q) = bt_insert (d, rq_next_seq q) (rq_schedule q)"
    "rq_messages (retry_add m d q) = fmupd (rq_next_seq q) m (rq_messages q)"
    by (simp_all add: retry_add_def Let_def)
  ultimately show ?thesis
    unfolding retry_contents_def [of "retry_add m d q"] mset_map by (simp add: sched)
qed

section \<open>Taking ready messages\<close>

lemma retry_pop:
  assumes inv: "retry_inv q" and sched: "rq_schedule q = (d, i) # rest"
  obtains m where "fmlookup (rq_messages q) i = Some m"
    "retry_inv (q\<lparr>rq_schedule := rest, rq_messages := fmdrop i (rq_messages q)\<rparr>)"
    "retry_contents q = add_mset (d, m)
       (retry_contents (q\<lparr>rq_schedule := rest, rq_messages := fmdrop i (rq_messages q)\<rparr>))"
proof -
  have "i \<in> fset (fmdom (rq_messages q))"
    using inv sched by (force simp: retry_inv_def)
  then obtain m where m: "fmlookup (rq_messages q) i = Some m"
    by (auto simp: fmdom_iff_Some)
  have notin: "i \<notin> snd ` set rest"
    using inv sched by (auto simp: retry_inv_def)
  have dom: "snd ` set rest = fset (fmdom (rq_messages q)) - {i}"
    using inv sched notin by (auto simp: retry_inv_def)
  have inv': "retry_inv (q\<lparr>rq_schedule := rest, rq_messages := fmdrop i (rq_messages q)\<rparr>)"
    using inv sched dom by (auto simp: retry_inv_def bt_invar_def)
  have "map (\<lambda>k. (fst k, the (fmlookup (rq_messages q) (snd k)))) rest
      = map (\<lambda>k. (fst k, the (fmlookup (fmdrop i (rq_messages q)) (snd k)))) rest"
    using notin by (auto simp: image_iff)
  then have "retry_contents q = add_mset (d, m)
      (retry_contents (q\<lparr>rq_schedule := rest, rq_messages := fmdrop i (rq_messages q)\<rparr>))"
    using sched m by (simp add: retry_contents_def del: mset_map map_eq_conv fmlookup_drop)
  with m inv' show thesis by (rule that)
qed

lemma take_ready_loop_spec:
  "retry_inv q \<Longrightarrow> take_ready_loop now q acc = (vs, q') \<Longrightarrow>
   retry_inv q' \<and> rq_next_seq q' = rq_next_seq q
   \<and> (\<exists>ds. vs = acc @ map snd ds \<and> retry_contents q = mset ds + retry_contents q'
        \<and> list_all (due now) ds) \<and> (\<forall>x \<in># retry_contents q'. \<not> due now x)"
proof (induction now q acc rule: take_ready_loop.induct)
  case (1 now q acc)
  show ?case
  proof (cases "rq_schedule q")
    case Nil
    then show ?thesis
      using "1.prems" by (auto simp: take_ready_loop.simps [of now q] retry_contents_def)
  next
    case (Cons k rest)
    obtain d i where k: "k = (d, i)" by force
    show ?thesis
    proof (cases "now < deadline_time d")
      case True
      have "d \<le> fst x" if "x \<in> set (rq_schedule q)" for x
        using bts.first_Some [of "rq_schedule q" "(d, i)"] "1.prems"(1) Cons k that
        by (cases x) (auto simp: retry_inv_def less_eq_prod_def)
      then have "\<forall>x \<in># retry_contents q. \<not> due now x"
        using True by (auto simp: retry_contents_def less_eq_ack_deadline_def) force
      with True Cons k "1.prems" show ?thesis
        by (auto simp: take_ready_loop.simps [of now q])
    next
      case False
      let ?q = "q\<lparr>rq_schedule := rest, rq_messages := fmdrop i (rq_messages q)\<rparr>"
      obtain m where m: "fmlookup (rq_messages q) i = Some m" and inv': "retry_inv ?q"
        and cont: "retry_contents q = add_mset (d, m) (retry_contents ?q)"
        using retry_pop [OF "1.prems"(1)] Cons k by metis
      have "take_ready_loop now ?q (acc @ [m]) = (vs, q')"
        using "1.prems"(2) Cons k False m by (simp add: take_ready_loop.simps [of now q])
      then have IH: "retry_inv q' \<and> rq_next_seq q' = rq_next_seq ?q
          \<and> (\<exists>ds. vs = (acc @ [m]) @ map snd ds \<and> retry_contents ?q = mset ds + retry_contents q'
               \<and> list_all (due now) ds) \<and> (\<forall>x \<in># retry_contents q'. \<not> due now x)"
        using "1.IH"(2) [OF Cons] k False m inv' by blast
      then obtain ds where ds: "vs = (acc @ [m]) @ map snd ds"
        "retry_contents ?q = mset ds + retry_contents q'" "list_all (due now) ds" by blast
      have "vs = acc @ map snd ((d, m) # ds) \<and> retry_contents q = mset ((d, m) # ds) + retry_contents q'
          \<and> list_all (due now) ((d, m) # ds)"
        using ds cont False by simp
      then have "\<exists>ds. vs = acc @ map snd ds \<and> retry_contents q = mset ds + retry_contents q'
          \<and> list_all (due now) ds" by blast
      with IH show ?thesis by simp
    qed
  qed
qed

lemma take_ready_spec:
  assumes "retry_inv q" and "take_ready now q = (vs, q')"
  shows "retry_inv q'" and "retry_contents q' = filter_mset (\<lambda>x. \<not> due now x) (retry_contents q)"
    and "mset vs = image_mset snd (filter_mset (due now) (retry_contents q))"
    and "rq_next_seq q' = rq_next_seq q"
proof -
  note spec = take_ready_loop_spec [OF assms(1), of now "[]" vs q']
  show "retry_inv q'" "rq_next_seq q' = rq_next_seq q"
    using spec assms(2) by (auto simp: take_ready_def)
  obtain ds where ds: "vs = map snd ds" "retry_contents q = mset ds + retry_contents q'"
    "list_all (due now) ds" and rest: "\<forall>x \<in># retry_contents q'. \<not> due now x"
    using spec assms(2) by (auto simp: take_ready_def)
  have "filter_mset (due now) (mset ds) = mset ds" "filter_mset (\<lambda>x. \<not> due now x) (mset ds) = {#}"
    using ds(3) by (auto simp: list_all_iff filter_mset_eq_conv)
  moreover have "filter_mset (due now) (retry_contents q') = {#}"
    "filter_mset (\<lambda>x. \<not> due now x) (retry_contents q') = retry_contents q'"
    using rest by (auto simp: filter_mset_eq_conv)
  ultimately show "retry_contents q' = filter_mset (\<lambda>x. \<not> due now x) (retry_contents q)"
    "mset vs = image_mset snd (filter_mset (due now) (retry_contents q))"
    using ds by simp_all
qed

interpretation retry_due: due_queue retry_inv retry_contents
  "\<lambda>now q. Some (take_ready now q)" retry_next
proof unfold_locales
  fix q now vs q'
  assume h: "retry_inv q" "Some (take_ready now q) = Some (vs, q')"
  then have t: "take_ready now q = (vs, q')" by simp
  show "retry_inv q'" "retry_contents q' = filter_mset (\<lambda>x. \<not> due now x) (retry_contents q)"
    "mset vs = image_mset snd (filter_mset (due now) (retry_contents q))"
    using take_ready_spec [OF h(1) t] by simp_all
next
  fix q
  show "retry_next q = None \<longleftrightarrow> retry_contents q = {#}"
    by (cases "rq_schedule q") (auto simp: retry_next_def retry_contents_def)
next
  fix q d
  assume inv: "retry_inv q" and "retry_next q = Some d"
  then obtain i where first: "bt_first (rq_schedule q) = Some (d, i)"
    by (auto simp: retry_next_def)
  have min: "(d, i) \<in> set (rq_schedule q) \<and> (\<forall>y \<in> set (rq_schedule q). (d, i) \<le> y)"
    using bts.first_Some [OF _ first] inv by (simp add: retry_inv_def)
  then show "(\<exists>v. (d, v) \<in># retry_contents q) \<and> (\<forall>x \<in># retry_contents q. d \<le> fst x)"
    by (force simp: retry_contents_def less_eq_prod_def)
qed (simp_all add: split_def)

end
