(* ===== verification/Subscription_Actor.thy ===== *)
theory Subscription_Actor
  imports Subscription_Info Message_List Outstanding Retry_Queue Message_Filter
begin

text \<open>
  The subscription actor, \<^verbatim>\<open>subscriptions/subscription_actor.rs\<close>: its state as a record, one
  definition per handler, and the select loop as a step relation.

  What a handler reads from outside the actor is passed in an \<open>environment\<close>: the two clocks, the
  result of upgrading the weak reference to the topic, whether the topic's mailbox answered
  \<^verbatim>\<open>remove_subscription\<close>, which topics the topic manager knows, and the iteration orders of the
  hash maps that \<^verbatim>\<open>drain\<close> empties. The clock is read once per handler. What a handler does
  outside the actor (wake-ups of the observer, calls of the push registry, of the manager's
  delegate and of the topics) is recorded in order in \<open>sa_effects\<close>.
\<close>

section \<open>State\<close>

datatype actor_effect =
    NotifyNewMessagesAvailable
  | NotifyOutstandingFreed
  | NotifyDeleted
  | PushRegistrySet subscription_name "push_config option"
  | DelegateDelete subscription_name
  | TopicRemoveSubscription subscription_name
  | PublishDeadLettered topic_name "topic_message list"

record subscription_actor =
  sa_internal_id :: u32
  sa_info :: subscription_info
  sa_backlog :: messages
  sa_outstanding :: tracker
  sa_next_ack_id :: ack_id
  sa_deleted :: bool
  sa_delivery_attempts :: "(message_id, u16) hash_map"
  sa_retry_queue :: retry_queue
  sa_has_topic_manager :: bool
  sa_compiled_filter :: "filter_expr option"
  sa_ordered_queues :: "(string, topic_message list) hash_map"
  sa_keys_in_flight :: "string fset"
  sa_counters :: subscription_counters
  sa_effects :: "actor_effect list"

record environment =
  env_now :: instant
  env_wall :: system_time
  env_topic :: "topic_name option"
  env_topic_responds :: bool
  env_topic_exists :: "topic_name \<Rightarrow> bool"
  env_drained_outstanding :: "pulled_message list"
  env_drained_retry :: "topic_message list"

definition emit :: "actor_effect \<Rightarrow> subscription_actor \<Rightarrow> subscription_actor" where
  "emit e a = a\<lparr>sa_effects := sa_effects a @ [e]\<rparr>"

definition max_pull_count :: u16 where
  "max_pull_count = 1000"

text \<open>\<^verbatim>\<open>start\<close>: a malformed filter is ignored with a warning.\<close>

definition compile_filter :: "string option \<Rightarrow> filter_expr option" where
  "compile_filter raw =
     Option.bind raw (\<lambda>r. case filter_parse r of Some (Inr f) \<Rightarrow> Some f | _ \<Rightarrow> None)"

definition actor_start :: "u32 \<Rightarrow> subscription_info \<Rightarrow> bool \<Rightarrow> subscription_actor" where
  "actor_start internal_id info topic_manager =
     \<lparr>sa_internal_id = internal_id, sa_info = info, sa_backlog = messages_new,
      sa_outstanding = tracker_new, sa_next_ack_id = AckId 1, sa_deleted = False,
      sa_delivery_attempts = fmempty, sa_retry_queue = retry_new,
      sa_has_topic_manager = topic_manager, sa_compiled_filter = compile_filter (si_filter info),
      sa_ordered_queues = fmempty, sa_keys_in_flight = {||},
      sa_counters = subscription_counters_default,
      sa_effects = (if si_push_config info \<noteq> None
                    then [PushRegistrySet (si_name info) (si_push_config info)] else [])\<rparr>"

section \<open>Posting\<close>

definition actor_get_info :: "subscription_actor \<Rightarrow> get_info_error + subscription_info" where
  "actor_get_info a = Inr (sa_info a)"

definition actor_update_info ::
    "subscription_update \<Rightarrow> subscription_actor
     \<Rightarrow> (get_info_error + subscription_info) \<times> subscription_actor" where
  "actor_update_info update a =
     (let a' = a\<lparr>sa_info := apply_update update (sa_info a)\<rparr> in (Inr (sa_info a'), a'))"

definition filter_accepts :: "subscription_actor \<Rightarrow> topic_message \<Rightarrow> bool" where
  "filter_accepts a m =
     (case sa_compiled_filter a of None \<Rightarrow> True | Some f \<Rightarrow> matches f (tm_attributes m))"

text \<open>\<^verbatim>\<open>entry(key).or_default()\<close>: the queue of a key, empty when there is none.\<close>

definition key_queue :: "subscription_actor \<Rightarrow> string \<Rightarrow> topic_message list" where
  "key_queue a k = (case fmlookup (sa_ordered_queues a) k of None \<Rightarrow> [] | Some q \<Rightarrow> q)"

definition set_key_queue ::
    "string \<Rightarrow> topic_message list \<Rightarrow> subscription_actor \<Rightarrow> subscription_actor" where
  "set_key_queue k q a = a\<lparr>sa_ordered_queues := fmupd k q (sa_ordered_queues a)\<rparr>"

definition post_one :: "topic_message \<Rightarrow> subscription_actor \<Rightarrow> subscription_actor" where
  "post_one m a =
     (case (tm_ordering_key m, si_enable_message_ordering (sa_info a)) of
        (Some key, True) \<Rightarrow> set_key_queue key (key_queue a key @ [m]) a
      | _ \<Rightarrow> a\<lparr>sa_backlog := messages_append [m] (sa_backlog a)\<rparr>)"

fun post_loop :: "topic_message list \<Rightarrow> bool \<Rightarrow> subscription_actor \<Rightarrow> bool \<times> subscription_actor" where
  "post_loop [] had_any a = (had_any, a)"
| "post_loop (m # ms) had_any a =
     (if filter_accepts a m then post_loop ms True (post_one m a) else post_loop ms had_any a)"

definition actor_post_messages :: "topic_message list \<Rightarrow> subscription_actor \<Rightarrow> subscription_actor" where
  "actor_post_messages new_messages a =
     (if sa_deleted a then a
      else (case post_loop new_messages False a of
              (had_any, a') \<Rightarrow> if had_any then emit NotifyNewMessagesAvailable a' else a'))"

section \<open>Pulling\<close>

definition is_message_expired :: "subscription_actor \<Rightarrow> topic_message \<Rightarrow> instant \<Rightarrow> bool" where
  "is_message_expired a m now =
     (case si_message_retention_duration (sa_info a) of
        None \<Rightarrow> False
      | Some retention \<Rightarrow> retention \<le> saturating_duration_since now (tm_published_at_instant m))"

definition pullable_keys :: "subscription_actor \<Rightarrow> string fset" where
  "pullable_keys a =
     ffilter (\<lambda>k. k |\<notin>| sa_keys_in_flight a \<and> key_queue a k \<noteq> []) (fmdom (sa_ordered_queues a))"

definition pull_capacity :: "u16 \<Rightarrow> u16 \<Rightarrow> subscription_actor \<Rightarrow> nat" where
  "pull_capacity max_count max_outstanding a =
     (let pending_keyed = (of_nat (fcard (pullable_keys a)) :: u16);
          outgoing_len = saturating_add (of_nat (messages_len (sa_backlog a))) pending_keyed;
          effective_max = min max_count (max outgoing_len max_pull_count);
          effective_max =
            (if 0 < max_outstanding then
               (let outstanding_now = (of_nat (tracker_len (sa_outstanding a)) :: u16);
                    headroom = saturating_sub max_outstanding outstanding_now
                in min effective_max headroom)
             else effective_max)
      in unat effective_max)"

text \<open>Handing out one message: a fresh ack id, the recorded delivery attempt, and an entry in the
  outstanding tracker. The code has this in both loops of \<^verbatim>\<open>pull_messages\<close>.\<close>

definition deliver ::
    "ack_deadline \<Rightarrow> topic_message \<Rightarrow> subscription_actor \<Rightarrow> pulled_message \<times> subscription_actor" where
  "deliver deadline m a =
     (let ack_id = sa_next_ack_id a;
          delivery_attempt =
            (case fmlookup (sa_delivery_attempts a) (tm_id m) of None \<Rightarrow> 1 | Some n \<Rightarrow> n);
          pulled = pulled_message_new m ack_id deadline delivery_attempt
      in (pulled,
          a\<lparr>sa_outstanding := tracker_add pulled (sa_outstanding a),
            sa_next_ack_id := ack_id_next ack_id\<rparr>))"

definition forget_attempts :: "topic_message \<Rightarrow> subscription_actor \<Rightarrow> subscription_actor" where
  "forget_attempts m a = a\<lparr>sa_delivery_attempts := fmdrop (tm_id m) (sa_delivery_attempts a)\<rparr>"

text \<open>The inner loop for one key: drop expired heads, hand out the first that is not expired and
  mark the key as in flight.\<close>

function pull_key ::
    "instant \<Rightarrow> ack_deadline \<Rightarrow> string \<Rightarrow> pulled_message list \<Rightarrow> subscription_actor
     \<Rightarrow> pulled_message list \<times> subscription_actor" where
  "pull_key now deadline key result a =
     (case key_queue a key of
        [] \<Rightarrow> (result, a)
      | head # rest \<Rightarrow>
          let a1 = set_key_queue key rest a
          in if is_message_expired a1 head now
             then pull_key now deadline key result (forget_attempts head a1)
             else (case deliver deadline head a1 of
                     (pulled, a2) \<Rightarrow>
                       (result @ [pulled],
                        a2\<lparr>sa_keys_in_flight := finsert key (sa_keys_in_flight a2)\<rparr>)))"
  by pat_completeness auto
termination
  by (relation "measure (\<lambda>(_, _, key, _, a). length (key_queue a key))")
    (auto simp: key_queue_def set_key_queue_def forget_attempts_def)

declare pull_key.simps [simp del]

fun pull_keys ::
    "nat \<Rightarrow> instant \<Rightarrow> ack_deadline \<Rightarrow> string list \<Rightarrow> pulled_message list \<Rightarrow> subscription_actor
     \<Rightarrow> pulled_message list \<times> subscription_actor" where
  "pull_keys capacity now deadline [] result a = (result, a)"
| "pull_keys capacity now deadline (key # keys) result a =
     (if capacity \<le> length result then (result, a)
      else (case pull_key now deadline key result a of
              (result', a') \<Rightarrow> pull_keys capacity now deadline keys result' a'))"

function pull_backlog ::
    "nat \<Rightarrow> instant \<Rightarrow> ack_deadline \<Rightarrow> pulled_message list \<Rightarrow> subscription_actor
     \<Rightarrow> pulled_message list \<times> subscription_actor" where
  "pull_backlog capacity now deadline result a =
     (if length result < capacity then
        (case messages_pop_front (sa_backlog a) of
           None \<Rightarrow> (result, a)
         | Some (m, backlog') \<Rightarrow>
             let a1 = a\<lparr>sa_backlog := backlog'\<rparr>
             in if is_message_expired a1 m now
                then pull_backlog capacity now deadline result (forget_attempts m a1)
                else (case deliver deadline m a1 of
                        (pulled, a2) \<Rightarrow> pull_backlog capacity now deadline (result @ [pulled]) a2))
      else (result, a))"
  by pat_completeness auto
termination
  by (relation "measure (\<lambda>(_, _, _, _, a). messages_len (sa_backlog a))")
    (auto simp: forget_attempts_def deliver_def Let_def dest: backlog.pop_decreases_len)

declare pull_backlog.simps [simp del]

definition more_pending :: "subscription_actor \<Rightarrow> bool" where
  "more_pending a \<longleftrightarrow> \<not> messages_is_empty (sa_backlog a) \<or> pullable_keys a \<noteq> {||}"

definition add_pulled :: "nat \<Rightarrow> subscription_actor \<Rightarrow> subscription_actor" where
  "add_pulled n a =
     a\<lparr>sa_counters := (sa_counters a)\<lparr>ct_pulled := ct_pulled (sa_counters a) + of_nat n\<rparr>\<rparr>"

definition actor_pull_messages ::
    "environment \<Rightarrow> u16 \<Rightarrow> u16 \<Rightarrow> subscription_actor
     \<Rightarrow> (pull_messages_error + pulled_message list) \<times> subscription_actor" where
  "actor_pull_messages env max_count max_outstanding a =
     (if sa_deleted a then (Inr [], a)
      else if si_detached (sa_info a) then (Inl PullMessages_Detached, a)
      else
        (let capacity = pull_capacity max_count max_outstanding a
         in if capacity = 0 then (Inr [], a)
            else
              (let now = env_now env;
                   deadline = ack_deadline_new (now + int (si_ack_deadline (sa_info a)));
                   keys = sorted_list_of_fset (pullable_keys a);
                   (result1, a1) = pull_keys capacity now deadline keys [] a;
                   (result2, a2) = pull_backlog capacity now deadline result1 a1;
                   a3 = (if more_pending a2 then emit NotifyNewMessagesAvailable a2 else a2)
               in (Inr result2, add_pulled (length result2) a3))))"

section \<open>Acknowledging\<close>

definition ack_split :: "ack_id list \<Rightarrow> tracker \<Rightarrow> ack_outcome" where
  "ack_split ids t =
     \<lparr>ao_valid = filter (\<lambda>i. tracker_contains i t) ids,
      ao_invalid = filter (\<lambda>i. \<not> tracker_contains i t) ids\<rparr>"

text \<open>The loop over the acknowledged messages: forget the attempts, release the key.\<close>

fun release_acked ::
    "pulled_message list \<Rightarrow> string list \<Rightarrow> subscription_actor \<Rightarrow> string list \<times> subscription_actor" where
  "release_acked [] freed a = (freed, a)"
| "release_acked (p # ps) freed a =
     (let a1 = forget_attempts (pm_message p) a
      in case tm_ordering_key (pm_message p) of
           None \<Rightarrow> release_acked ps freed a1
         | Some key \<Rightarrow>
             if si_enable_message_ordering (sa_info a1) then
               (let present = key |\<in>| sa_keys_in_flight a1;
                    a2 = a1\<lparr>sa_keys_in_flight := sa_keys_in_flight a1 |-| {|key|}\<rparr>
                in release_acked ps (if present then freed @ [key] else freed) a2)
             else release_acked ps freed a1)"

definition actor_acknowledge_messages ::
    "ack_id list \<Rightarrow> subscription_actor
     \<Rightarrow> (acknowledge_messages_error + ack_outcome) \<times> subscription_actor" where
  "actor_acknowledge_messages ack_ids a =
     (if sa_deleted a then (Inr ack_outcome_default, a)
      else
        (let outcome = ack_split ack_ids (sa_outstanding a);
             (acked, outstanding') = tracker_remove (ao_valid outcome) (sa_outstanding a);
             (freed_keys, a1) = release_acked acked [] (a\<lparr>sa_outstanding := outstanding'\<rparr>);
             a2 = (if acked \<noteq> [] then emit NotifyOutstandingFreed a1 else a1);
             a3 = (if freed_keys \<noteq> [] then emit NotifyNewMessagesAvailable a2 else a2)
         in (Inr outcome,
             a3\<lparr>sa_counters := (sa_counters a3)
                  \<lparr>ct_acked := ct_acked (sa_counters a3) + of_nat (length acked)\<rparr>\<rparr>)))"

section \<open>Redelivery\<close>

definition requeue_one :: "topic_message \<Rightarrow> subscription_actor \<Rightarrow> subscription_actor" where
  "requeue_one m a =
     (case (tm_ordering_key m, si_enable_message_ordering (sa_info a)) of
        (Some key, True) \<Rightarrow>
          (let a1 = set_key_queue key (m # key_queue a key) a
           in a1\<lparr>sa_keys_in_flight := sa_keys_in_flight a1 |-| {|key|}\<rparr>)
      | _ \<Rightarrow> a\<lparr>sa_backlog := messages_append [m] (sa_backlog a)\<rparr>)"

definition bump_attempt :: "topic_message \<Rightarrow> subscription_actor \<Rightarrow> u16 \<times> subscription_actor" where
  "bump_attempt m a =
     (let attempt = (case fmlookup (sa_delivery_attempts a) (tm_id m) of
                       None \<Rightarrow> 2 | Some n \<Rightarrow> saturating_add n 1)
      in (attempt, a\<lparr>sa_delivery_attempts := fmupd (tm_id m) attempt (sa_delivery_attempts a)\<rparr>))"

definition exceeds_attempts :: "subscription_actor \<Rightarrow> u16 \<Rightarrow> bool" where
  "exceeds_attempts a attempt =
     (case si_dead_letter_policy (sa_info a) of
        None \<Rightarrow> False
      | Some dlp \<Rightarrow> dlp_max_delivery_attempts dlp < int (unat attempt))"

definition dead_letter_message :: "environment \<Rightarrow> subscription_info \<Rightarrow> u16 \<Rightarrow> topic_message \<Rightarrow> topic_message" where
  "dead_letter_message env info attempt m =
     (let attrs0 = (case tm_attributes m of None \<Rightarrow> fmempty | Some at \<Rightarrow> at);
          attrs1 = fmupd ''CloudPubSubDeadLetterSourceDeliveryCount''
                     (show_nat (unat (attempt - 1))) attrs0;
          attrs2 = fmupd ''CloudPubSubDeadLetterSourceSubscription''
                     (sn_subscription_id (si_name info)) attrs1;
          attrs3 = fmupd ''CloudPubSubDeadLetterSourceSubscriptionProject''
                     (sn_project_id (si_name info)) attrs2;
          attrs4 = fmupd ''CloudPubSubDeadLetterSourceTopicPublishTime''
                     (format_rfc3339 (tm_published_at m)) attrs3
      in topic_message_new (env_now env) (tm_data m) (Some attrs4))"

text \<open>One iteration of the loop of \<^verbatim>\<open>requeue_messages\<close>; the accumulator holds the messages and the
  ids collected for the dead letter topic.\<close>

definition requeue_step ::
    "environment \<Rightarrow> pulled_message
     \<Rightarrow> topic_message list \<times> message_id list \<times> subscription_actor
     \<Rightarrow> topic_message list \<times> message_id list \<times> subscription_actor" where
  "requeue_step env pulled acc =
     (case acc of (dead, dead_ids, a) \<Rightarrow>
       let m = pm_message pulled;
           (attempt, a1) = bump_attempt m a
       in if exceeds_attempts a1 attempt then
            (dead @ [dead_letter_message env (sa_info a1) attempt m], dead_ids @ [tm_id m], a1)
          else (case si_retry_policy (sa_info a1) of
                  Some policy \<Rightarrow>
                    (let backoff = calculate_backoff policy attempt;
                         deliver_at = ack_deadline_new (env_now env + int backoff)
                     in (dead, dead_ids,
                         a1\<lparr>sa_retry_queue := retry_add m deliver_at (sa_retry_queue a1)\<rparr>))
                | None \<Rightarrow> (dead, dead_ids, requeue_one m a1)))"

definition try_publish_dead_lettered ::
    "environment \<Rightarrow> topic_message list \<Rightarrow> subscription_actor \<Rightarrow> subscription_actor" where
  "try_publish_dead_lettered env dead a =
     (case si_dead_letter_policy (sa_info a) of
        Some dlp \<Rightarrow>
          if sa_has_topic_manager a \<and> env_topic_exists env (dlp_dead_letter_topic dlp)
          then emit (PublishDeadLettered (dlp_dead_letter_topic dlp) dead) a
          else a
      | None \<Rightarrow> a)"

definition forget_ids :: "message_id list \<Rightarrow> subscription_actor \<Rightarrow> subscription_actor" where
  "forget_ids ids a =
     a\<lparr>sa_delivery_attempts := fold fmdrop ids (sa_delivery_attempts a)\<rparr>"

definition requeue_messages ::
    "environment \<Rightarrow> pulled_message list \<Rightarrow> subscription_actor \<Rightarrow> subscription_actor" where
  "requeue_messages env pulled a =
     (let (dead, dead_ids, a1) = fold (requeue_step env) pulled ([], [], a);
          a2 = (if dead \<noteq> [] then
                  (let b = a1\<lparr>sa_counters := (sa_counters a1)
                             \<lparr>ct_dead_lettered := ct_dead_lettered (sa_counters a1) + of_nat (length dead)\<rparr>\<rparr>
                   in forget_ids dead_ids (try_publish_dead_lettered env dead b))
                else a1)
      in if \<not> messages_is_empty (sa_backlog a2) then emit NotifyNewMessagesAvailable a2 else a2)"

definition actor_modify_deadline ::
    "environment \<Rightarrow> deadline_modification list \<Rightarrow> subscription_actor
     \<Rightarrow> (modify_deadline_error + ack_outcome) \<times> subscription_actor" where
  "actor_modify_deadline env mods a =
     (if sa_deleted a then (Inr ack_outcome_default, a)
      else
        (let outcome = ack_split (map dm_ack_id mods) (sa_outstanding a);
             (nacks, outstanding') = tracker_modify mods (sa_outstanding a);
             a1 = a\<lparr>sa_outstanding := outstanding',
                    sa_counters := (sa_counters a)
                      \<lparr>ct_nacked := ct_nacked (sa_counters a) + of_nat (length nacks)\<rparr>\<rparr>
         in (Inr outcome, requeue_messages env nacks a1)))"

definition handle_expired_messages ::
    "environment \<Rightarrow> pulled_message list \<Rightarrow> subscription_actor \<Rightarrow> subscription_actor" where
  "handle_expired_messages env expired a =
     requeue_messages env expired
       (a\<lparr>sa_counters := (sa_counters a)
            \<lparr>ct_expired := ct_expired (sa_counters a) + of_nat (length expired)\<rparr>\<rparr>)"

fun retry_ready_loop ::
    "instant \<Rightarrow> topic_message list \<Rightarrow> bool \<Rightarrow> subscription_actor \<Rightarrow> bool \<times> subscription_actor" where
  "retry_ready_loop now [] delivered_any a = (delivered_any, a)"
| "retry_ready_loop now (m # ms) delivered_any a =
     (if is_message_expired a m now then retry_ready_loop now ms delivered_any (forget_attempts m a)
      else retry_ready_loop now ms True (requeue_one m a))"

definition handle_retry_ready ::
    "environment \<Rightarrow> topic_message list \<Rightarrow> subscription_actor \<Rightarrow> subscription_actor" where
  "handle_retry_ready env ready a =
     (case retry_ready_loop (env_now env) ready False a of
        (delivered_any, a') \<Rightarrow>
          if delivered_any then emit NotifyNewMessagesAvailable a' else a')"

section \<open>Administration\<close>

definition actor_modify_push_config ::
    "push_config option \<Rightarrow> subscription_actor \<Rightarrow> (get_info_error + unit) \<times> subscription_actor" where
  "actor_modify_push_config config a =
     (let a1 = a\<lparr>sa_info := (sa_info a)\<lparr>si_push_config := config\<rparr>\<rparr>
      in (Inr (), emit (PushRegistrySet (si_name (sa_info a1)) config) a1))"

text \<open>The block of \<^verbatim>\<open>clear\<close> calls shared by \<^verbatim>\<open>detach\<close> and \<^verbatim>\<open>delete\<close>.\<close>

definition clear_all :: "subscription_actor \<Rightarrow> subscription_actor" where
  "clear_all a =
     a\<lparr>sa_backlog := messages_clear (sa_backlog a),
       sa_outstanding := tracker_clear (sa_outstanding a),
       sa_delivery_attempts := fmempty,
       sa_retry_queue := retry_clear (sa_retry_queue a),
       sa_ordered_queues := fmempty,
       sa_keys_in_flight := {||}\<rparr>"

definition actor_detach ::
    "subscription_actor \<Rightarrow> (get_info_error + unit) \<times> subscription_actor" where
  "actor_detach a =
     (if si_detached (sa_info a) then (Inr (), a)
      else (Inr (), clear_all (a\<lparr>sa_info := (sa_info a)\<lparr>si_detached := True\<rparr>\<rparr>)))"

definition actor_delete ::
    "environment \<Rightarrow> subscription_actor \<Rightarrow> (delete_error + unit) \<times> subscription_actor" where
  "actor_delete env a =
     (if sa_deleted a then (Inr (), a)
      else
        (let a1 = a\<lparr>sa_deleted := True\<rparr>;
             name = si_name (sa_info a1)
         in case env_topic env of
              Some _ \<Rightarrow>
                if \<not> env_topic_responds env then (Inl Delete_Closed, a1)
                else (Inr (), emit (PushRegistrySet name None)
                        (clear_all (emit NotifyDeleted (emit (DelegateDelete name)
                          (emit (TopicRemoveSubscription name) a1)))))
            | None \<Rightarrow>
                (Inr (), emit (PushRegistrySet name None)
                   (clear_all (emit NotifyDeleted (emit (DelegateDelete name) a1))))))"

definition ordered_pending :: "subscription_actor \<Rightarrow> nat" where
  "ordered_pending a =
     sum_list (map (\<lambda>k. length (key_queue a k)) (sorted_list_of_fset (fmdom (sa_ordered_queues a))))"

definition actor_get_stats ::
    "environment \<Rightarrow> subscription_actor \<Rightarrow> get_stats_error + subscription_stats" where
  "actor_get_stats env a =
     (let age = (case oldest_published_at (sa_outstanding a) of
                   None \<Rightarrow> 0
                 | Some published_at \<Rightarrow>
                     if published_at \<le> env_wall env then nat (env_wall env - published_at) else 0);
          topic = (case env_topic env of None \<Rightarrow> topic_name_deleted | Some n \<Rightarrow> n)
      in Inr (subscription_stats_new (si_name (sa_info a)) topic (tracker_len (sa_outstanding a))
                (messages_len (sa_backlog a) + ordered_pending a) (retry_len (sa_retry_queue a))
                age (sa_counters a)))"

text \<open>\<^verbatim>\<open>HashMap::retain\<close> on the per-key queues: filter each queue, drop the ones left empty.\<close>

definition retain_queues ::
    "(topic_message \<Rightarrow> bool) \<Rightarrow> (string, topic_message list) hash_map
     \<Rightarrow> (string, topic_message list) hash_map" where
  "retain_queues P qs =
     fmfilter (\<lambda>k. filter P (the (fmlookup qs k)) \<noteq> []) (fmmap (filter P) qs)"

definition actor_seek_to_time ::
    "environment \<Rightarrow> system_time \<Rightarrow> subscription_actor \<Rightarrow> subscription_actor" where
  "actor_seek_to_time env seek_time a =
     (if sa_deleted a then a
      else
        (let (outstanding, tracker') = tracker_drain (env_drained_outstanding env) (sa_outstanding a);
             (retrying, retry') = retry_drain (env_drained_retry env) (sa_retry_queue a);
             newer = (\<lambda>m. seek_time < tm_published_at m);
             a1 = a\<lparr>sa_backlog := messages_retain newer (sa_backlog a),
                    sa_outstanding := tracker',
                    sa_delivery_attempts := fmempty,
                    sa_retry_queue := retry',
                    sa_ordered_queues := retain_queues newer (sa_ordered_queues a),
                    sa_keys_in_flight := {||}\<rparr>;
             a2 = fold (\<lambda>m b. if newer m then requeue_one m b else b) (map pm_message outstanding) a1;
             a3 = fold (\<lambda>m b. if newer m then requeue_one m b else b) retrying a2
         in emit NotifyNewMessagesAvailable (emit NotifyOutstandingFreed a3)))"

section \<open>Requests and the select loop\<close>

datatype subscription_request =
    PostMessages "topic_message list"
  | GetInfo
  | UpdateInfo subscription_update
  | PullMessages u16 u16
  | AcknowledgeMessages "ack_id list"
  | ModifyDeadline "deadline_modification list"
  | Delete
  | Detach
  | ModifyPushConfig "push_config option"
  | GetStats
  | Seek system_time

datatype subscription_response =
    NoResponse
  | InfoResponse "get_info_error + subscription_info"
  | PullResponse "pull_messages_error + pulled_message list"
  | AcknowledgeResponse "acknowledge_messages_error + ack_outcome"
  | ModifyDeadlineResponse "modify_deadline_error + ack_outcome"
  | DeleteResponse "delete_error + unit"
  | UnitResponse "get_info_error + unit"
  | StatsResponse "get_stats_error + subscription_stats"
  | SeekResponse "seek_error + unit"

fun receive ::
    "environment \<Rightarrow> subscription_request \<Rightarrow> subscription_actor
     \<Rightarrow> subscription_response \<times> subscription_actor" where
  "receive env (PostMessages ms) a = (NoResponse, actor_post_messages ms a)"
| "receive env GetInfo a = (InfoResponse (actor_get_info a), a)"
| "receive env (UpdateInfo u) a = map_prod InfoResponse id (actor_update_info u a)"
| "receive env (PullMessages max_count max_outstanding) a =
     map_prod PullResponse id (actor_pull_messages env max_count max_outstanding a)"
| "receive env (AcknowledgeMessages ids) a =
     map_prod AcknowledgeResponse id (actor_acknowledge_messages ids a)"
| "receive env (ModifyDeadline mods) a =
     map_prod ModifyDeadlineResponse id (actor_modify_deadline env mods a)"
| "receive env Delete a = map_prod DeleteResponse id (actor_delete env a)"
| "receive env Detach a = map_prod UnitResponse id (actor_detach a)"
| "receive env (ModifyPushConfig c) a = map_prod UnitResponse id (actor_modify_push_config c a)"
| "receive env GetStats a = (StatsResponse (actor_get_stats env a), a)"
| "receive env (Seek t) a = (SeekResponse (Inr ()), actor_seek_to_time env t a)"

text \<open>The loop ends when the deletion signal fires, that is once \<open>NotifyDeleted\<close> was emitted.\<close>

definition stopped :: "subscription_actor \<Rightarrow> bool" where
  "stopped a \<longleftrightarrow> NotifyDeleted \<in> set (sa_effects a)"

datatype actor_event =
    Request environment subscription_request
  | Expiry instant environment
  | RetryDue instant environment

fun handle_event :: "actor_event \<Rightarrow> subscription_actor \<Rightarrow> subscription_actor option" where
  "handle_event (Request env r) a = Some (snd (receive env r a))"
| "handle_event (Expiry at env) a =
     (case take_expired at (sa_outstanding a) of
        None \<Rightarrow> None
      | Some (expired, t) \<Rightarrow>
          Some (if expired \<noteq> [] then handle_expired_messages env expired (a\<lparr>sa_outstanding := t\<rparr>)
                else a\<lparr>sa_outstanding := t\<rparr>))"
| "handle_event (RetryDue at env) a =
     (case take_ready at (sa_retry_queue a) of
        (ready, q) \<Rightarrow>
          Some (if ready \<noteq> [] then handle_retry_ready env ready (a\<lparr>sa_retry_queue := q\<rparr>)
                else a\<lparr>sa_retry_queue := q\<rparr>))"

end
