(* ===== verification/Broker.thy ===== *)
theory Broker
  imports Topic Subscription_Actor
begin

text \<open>
  The running broker: the two managers (\<^verbatim>\<open>topics/topic_manager.rs\<close>,
  \<^verbatim>\<open>subscriptions/subscription_manager.rs\<close>), the push registry (\<^verbatim>\<open>push/mod.rs\<close>) and the actors
  behind the handles, found by internal id. The methods of the handles (\<^verbatim>\<open>topics/topic.rs\<close>,
  \<^verbatim>\<open>subscriptions/subscription.rs\<close>) send a request to the actor and wait for the answer:
  \<open>topic_call\<close> and \<open>subscription_call\<close> run the actor's handler and then carry out the effects it
  recorded on the other components. The mailboxes are first in, first out, and a call waits for its
  answer, so a sequence of calls is a sequence of such steps; the post of a published batch is handled
  by the subscription's actor before the next call. The publish of dead letters is spawned as a task
  of its own, which waits in \<open>bk_spawned\<close> until \<open>run_spawned\<close> picks it.

  The environment of a call holds the clocks, the iteration orders of the hash maps, and for a deleted
  subscription whether its select loop has already ended (then its mailbox is closed) or still answers.
\<close>

section \<open>The push registry\<close>

type_synonym push_registry = "(subscription_name, push_config) hash_map"

definition push_registry_new :: push_registry where
  "push_registry_new = fmempty"

definition push_registry_set ::
    "subscription_name \<Rightarrow> push_config option \<Rightarrow> push_registry \<Rightarrow> push_registry" where
  "push_registry_set name config reg =
     (case config of
        Some c \<Rightarrow> if fmlookup reg name = None then fmupd name c reg else reg
      | None \<Rightarrow> fmdrop name reg)"

section \<open>The subscription manager's state\<close>

record subscription_state =
  sm_subscriptions :: "(subscription_name, subscription) hash_map"
  sm_next_id :: u32

definition subscription_state_new :: subscription_state where
  "subscription_state_new = \<lparr>sm_subscriptions = fmempty, sm_next_id = 1\<rparr>"

definition subscription_new :: "subscription_info \<Rightarrow> u32 \<Rightarrow> topic \<Rightarrow> subscription" where
  "subscription_new info internal_id t =
     \<lparr>sub_name = si_name info, sub_topic = t, sub_internal_id = internal_id\<rparr>"

definition state_create_subscription ::
    "subscription_info \<times> topic \<Rightarrow> subscription_state
     \<Rightarrow> (create_subscription_error + subscription) \<times> subscription_state" where
  "state_create_subscription info_topic s =
     (case info_topic of (info, t) \<Rightarrow>
        if fmlookup (sm_subscriptions s) (si_name info) = None then
          (let internal_id = sm_next_id s + 1;
               sub = subscription_new info internal_id t
           in (Inr sub, s\<lparr>sm_subscriptions := fmupd (si_name info) sub (sm_subscriptions s),
                          sm_next_id := internal_id\<rparr>))
        else (Inl CreateSubscription_AlreadyExists, s))"

definition subscription_delegate_delete ::
    "subscription_name \<Rightarrow> subscription_state \<Rightarrow> subscription_state" where
  "subscription_delegate_delete name s = s\<lparr>sm_subscriptions := fmdrop name (sm_subscriptions s)\<rparr>"

definition state_get_subscription ::
    "subscription_name \<Rightarrow> subscription_state \<Rightarrow> get_subscription_error + subscription" where
  "state_get_subscription name s =
     (case fmlookup (sm_subscriptions s) name of
        None \<Rightarrow> Inl GetSubscription_DoesNotExist | Some sub \<Rightarrow> Inr sub)"

definition list_subscriptions_in_project ::
    "subscription list \<Rightarrow> string \<Rightarrow> paging \<Rightarrow> list_subscriptions_error + subscriptions_page" where
  "list_subscriptions_in_project order project_id paging =
     (let subscriptions_for_project =
            filter (\<lambda>s. subscription_is_in_project (sub_name s) project_id) order;
          sorted_subs = sort_key sub_internal_id subscriptions_for_project;
          (subs, offset) = page_of paging sorted_subs
      in Inr (subscriptions_page_new subs offset))"

interpretation subscription_registry: registry sm_subscriptions sm_next_id sub_name sub_internal_id
  subscription_state_new state_create_subscription "\<lambda>(info, _). si_name info"
  CreateSubscription_AlreadyExists subscription_delegate_delete
  by unfold_locales
    (auto simp: subscription_state_new_def state_create_subscription_def subscription_new_def
      subscription_delegate_delete_def Let_def)

section \<open>The broker\<close>

record broker =
  bk_topics :: topic_state
  bk_topic_actors :: "(u32, topic_actor) hash_map"
  bk_subscriptions :: subscription_state
  bk_subscription_actors :: "(u32, subscription_actor) hash_map"
  bk_push :: push_registry
  bk_spawned :: "(topic \<times> topic_message list) list"

record broker_env =
  be_now :: instant
  be_wall :: system_time
  be_topic_order :: "topic list"
  be_subscription_order :: "subscription list"
  be_loop_ended :: "subscription \<Rightarrow> bool"
  be_posted_before_abort :: "subscription \<Rightarrow> bool"
  be_drained_outstanding :: "pulled_message list"
  be_drained_retry :: "topic_message list"

definition broker_new :: broker where
  "broker_new =
     \<lparr>bk_topics = topic_state_new, bk_topic_actors = fmempty,
      bk_subscriptions = subscription_state_new, bk_subscription_actors = fmempty,
      bk_push = push_registry_new, bk_spawned = []\<rparr>"

definition subscription_open :: "broker_env \<Rightarrow> broker \<Rightarrow> subscription \<Rightarrow> bool" where
  "subscription_open env b s =
     (case fmlookup (bk_subscription_actors b) (sub_internal_id s) of
        None \<Rightarrow> False
      | Some a \<Rightarrow> \<not> (stopped a \<and> be_loop_ended env s))"

definition topic_env_of :: "broker_env \<Rightarrow> broker \<Rightarrow> topic_environment" where
  "topic_env_of env b =
     \<lparr>te_wall = be_wall env, te_now = be_now env, te_join_order = be_subscription_order env,
      te_accepts = subscription_open env b, te_posted_before_abort = be_posted_before_abort env\<rparr>"

text \<open>The weak reference to the topic can be upgraded as long as the manager holds the topic.\<close>

definition upgrade_topic :: "topic \<Rightarrow> broker \<Rightarrow> topic_name option" where
  "upgrade_topic t b =
     (case fmlookup (tm_topics (bk_topics b)) (topic_handle_name t) of
        None \<Rightarrow> None
      | Some t' \<Rightarrow> if topic_internal_id t' = topic_internal_id t then Some (topic_handle_name t) else None)"

definition actor_env_of :: "broker_env \<Rightarrow> topic \<Rightarrow> broker \<Rightarrow> environment" where
  "actor_env_of env t b =
     \<lparr>env_now = be_now env, env_wall = be_wall env, env_topic = upgrade_topic t b,
      env_topic_responds = True,
      env_topic_exists = (\<lambda>n. fmlookup (tm_topics (bk_topics b)) n \<noteq> None),
      env_drained_outstanding = be_drained_outstanding env,
      env_drained_retry = be_drained_retry env\<rparr>"

definition set_topic_actor :: "u32 \<Rightarrow> topic_actor \<Rightarrow> broker \<Rightarrow> broker" where
  "set_topic_actor i a b = b\<lparr>bk_topic_actors := fmupd i a (bk_topic_actors b)\<rparr>"

definition set_subscription_actor :: "u32 \<Rightarrow> subscription_actor \<Rightarrow> broker \<Rightarrow> broker" where
  "set_subscription_actor i a b =
     b\<lparr>bk_subscription_actors := fmupd i a (bk_subscription_actors b)\<rparr>"

fun apply_topic_effect :: "topic_effect \<Rightarrow> broker \<Rightarrow> broker" where
  "apply_topic_effect (PostTo s ms) b =
     (case fmlookup (bk_subscription_actors b) (sub_internal_id s) of
        None \<Rightarrow> b
      | Some a \<Rightarrow> set_subscription_actor (sub_internal_id s) (actor_post_messages ms a) b)"
| "apply_topic_effect (TopicDelegateDelete name) b =
     b\<lparr>bk_topics := topic_delegate_delete name (bk_topics b)\<rparr>"

fun apply_actor_effect :: "topic \<Rightarrow> actor_effect \<Rightarrow> broker \<Rightarrow> broker" where
  "apply_actor_effect t (PushRegistrySet name config) b =
     b\<lparr>bk_push := push_registry_set name config (bk_push b)\<rparr>"
| "apply_actor_effect t (DelegateDelete name) b =
     b\<lparr>bk_subscriptions := subscription_delegate_delete name (bk_subscriptions b)\<rparr>"
| "apply_actor_effect t (TopicRemoveSubscription name) b =
     (case fmlookup (bk_topic_actors b) (topic_internal_id t) of
        None \<Rightarrow> b
      | Some a \<Rightarrow> set_topic_actor (topic_internal_id t) (snd (remove_subscription name a)) b)"
| "apply_actor_effect t (PublishDeadLettered name ms) b =
     (case fmlookup (tm_topics (bk_topics b)) name of
        None \<Rightarrow> b
      | Some dlq \<Rightarrow> b\<lparr>bk_spawned := bk_spawned b @ [(dlq, ms)]\<rparr>)"
| "apply_actor_effect t NotifyNewMessagesAvailable b = b"
| "apply_actor_effect t NotifyOutstandingFreed b = b"
| "apply_actor_effect t NotifyDeleted b = b"

section \<open>Calls of the handles\<close>

definition topic_call ::
    "broker_env \<Rightarrow> topic \<Rightarrow> topic_request \<Rightarrow> broker \<Rightarrow> topic_response option \<times> broker" where
  "topic_call env t request b =
     (case fmlookup (bk_topic_actors b) (topic_internal_id t) of
        None \<Rightarrow> (None, b)
      | Some a \<Rightarrow>
          (case topic_receive (topic_env_of env b) request a of
             (response, a') \<Rightarrow>
               (Some response,
                fold apply_topic_effect (drop (length (ta_effects a)) (ta_effects a'))
                  (set_topic_actor (topic_internal_id t) a' b))))"

definition subscription_call ::
    "broker_env \<Rightarrow> subscription \<Rightarrow> subscription_request \<Rightarrow> broker
     \<Rightarrow> subscription_response option \<times> broker" where
  "subscription_call env s request b =
     (case fmlookup (bk_subscription_actors b) (sub_internal_id s) of
        None \<Rightarrow> (None, b)
      | Some a \<Rightarrow>
          if stopped a \<and> be_loop_ended env s then (None, b)
          else
            (case receive (actor_env_of env (sub_topic s) b) request a of
               (response, a') \<Rightarrow>
                 (Some response,
                  fold (apply_actor_effect (sub_topic s))
                    (drop (length (sa_effects a)) (sa_effects a'))
                    (set_subscription_actor (sub_internal_id s) a' b))))"

text \<open>The methods of \<^verbatim>\<open>Topic\<close>: a mailbox that is closed, or an answer that never comes, is
  reported as \<^verbatim>\<open>Closed\<close>.\<close>

definition topic_publish_messages ::
    "broker_env \<Rightarrow> topic \<Rightarrow> topic_message list \<Rightarrow> broker
     \<Rightarrow> (publish_messages_error + message_id list) \<times> broker" where
  "topic_publish_messages env t ms b =
     (case topic_call env t (PublishMessages ms) b of
        (Some (PublishResponse r), b') \<Rightarrow> (r, b') | (_, b') \<Rightarrow> (Inl PublishMessages_Closed, b'))"

definition topic_handle_list_subscriptions ::
    "broker_env \<Rightarrow> topic \<Rightarrow> paging \<Rightarrow> broker
     \<Rightarrow> (topic_list_subscriptions_error + subscriptions_page) \<times> broker" where
  "topic_handle_list_subscriptions env t p b =
     (case topic_call env t (ListSubscriptions p) b of
        (Some (ListSubscriptionsResponse r), b') \<Rightarrow> (r, b')
      | (_, b') \<Rightarrow> (Inl TopicListSubscriptions_Closed, b'))"

definition topic_attach_subscription ::
    "broker_env \<Rightarrow> topic \<Rightarrow> subscription \<Rightarrow> broker
     \<Rightarrow> (attach_subscription_error + unit) \<times> broker" where
  "topic_attach_subscription env t s b =
     (case topic_call env t (AttachSubscription s) b of
        (Some (AttachResponse r), b') \<Rightarrow> (r, b') | (_, b') \<Rightarrow> (Inl AttachSubscription_Closed, b'))"

definition topic_remove_subscription ::
    "broker_env \<Rightarrow> topic \<Rightarrow> subscription_name \<Rightarrow> broker
     \<Rightarrow> (remove_subscription_error + unit) \<times> broker" where
  "topic_remove_subscription env t name b =
     (case topic_call env t (RemoveSubscription name) b of
        (Some (RemoveResponse r), b') \<Rightarrow> (r, b') | (_, b') \<Rightarrow> (Inl RemoveSubscription_Closed, b'))"

definition topic_handle_get_info ::
    "broker_env \<Rightarrow> topic \<Rightarrow> broker \<Rightarrow> (get_topic_info_error + topic_info) \<times> broker" where
  "topic_handle_get_info env t b =
     (case topic_call env t GetTopicInfo b of
        (Some (TopicInfoResponse r), b') \<Rightarrow> (r, b') | (_, b') \<Rightarrow> (Inl GetTopicInfo_Closed, b'))"

definition topic_handle_update_info ::
    "broker_env \<Rightarrow> topic \<Rightarrow> topic_update \<Rightarrow> broker
     \<Rightarrow> (get_topic_info_error + topic_info) \<times> broker" where
  "topic_handle_update_info env t u b =
     (case topic_call env t (UpdateTopicInfo u) b of
        (Some (TopicInfoResponse r), b') \<Rightarrow> (r, b') | (_, b') \<Rightarrow> (Inl GetTopicInfo_Closed, b'))"

definition topic_handle_get_stats ::
    "broker_env \<Rightarrow> topic \<Rightarrow> broker \<Rightarrow> (topic_get_stats_error + topic_stats) \<times> broker" where
  "topic_handle_get_stats env t b =
     (case topic_call env t GetTopicStats b of
        (Some (TopicStatsResponse r), b') \<Rightarrow> (r, b') | (_, b') \<Rightarrow> (Inl TopicGetStats_Closed, b'))"

definition topic_handle_delete ::
    "broker_env \<Rightarrow> topic \<Rightarrow> broker \<Rightarrow> (topic_delete_error + unit) \<times> broker" where
  "topic_handle_delete env t b =
     (case topic_call env t DeleteTopic b of
        (Some (DeleteTopicResponse r), b') \<Rightarrow> (r, b') | (_, b') \<Rightarrow> (Inl TopicDelete_Closed, b'))"

text \<open>The methods of \<^verbatim>\<open>Subscription\<close>.\<close>

definition subscription_get_info ::
    "broker_env \<Rightarrow> subscription \<Rightarrow> broker \<Rightarrow> (get_info_error + subscription_info) \<times> broker" where
  "subscription_get_info env s b =
     (case subscription_call env s GetInfo b of
        (Some (InfoResponse r), b') \<Rightarrow> (r, b') | (_, b') \<Rightarrow> (Inl GetInfo_Closed, b'))"

definition subscription_update_info ::
    "broker_env \<Rightarrow> subscription \<Rightarrow> subscription_update \<Rightarrow> broker
     \<Rightarrow> (get_info_error + subscription_info) \<times> broker" where
  "subscription_update_info env s u b =
     (case subscription_call env s (UpdateInfo u) b of
        (Some (InfoResponse r), b') \<Rightarrow> (r, b') | (_, b') \<Rightarrow> (Inl GetInfo_Closed, b'))"

definition pull_messages_capped ::
    "broker_env \<Rightarrow> subscription \<Rightarrow> u16 \<Rightarrow> u16 \<Rightarrow> broker
     \<Rightarrow> (pull_messages_error + pulled_message list) \<times> broker" where
  "pull_messages_capped env s max_count max_outstanding b =
     (case subscription_call env s (PullMessages max_count max_outstanding) b of
        (Some (PullResponse r), b') \<Rightarrow> (r, b') | (_, b') \<Rightarrow> (Inl PullMessages_Closed, b'))"

definition subscription_pull_messages ::
    "broker_env \<Rightarrow> subscription \<Rightarrow> u16 \<Rightarrow> broker
     \<Rightarrow> (pull_messages_error + pulled_message list) \<times> broker" where
  "subscription_pull_messages env s max_count b = pull_messages_capped env s max_count 0 b"

definition subscription_post_messages ::
    "broker_env \<Rightarrow> subscription \<Rightarrow> topic_message list \<Rightarrow> broker \<Rightarrow> (post_messages_error + unit) \<times> broker" where
  "subscription_post_messages env s ms b =
     (case subscription_call env s (PostMessages ms) b of
        (Some _, b') \<Rightarrow> (Inr (), b') | (None, b') \<Rightarrow> (Inl PostMessages_Closed, b'))"

definition subscription_acknowledge_messages ::
    "broker_env \<Rightarrow> subscription \<Rightarrow> ack_id list \<Rightarrow> broker
     \<Rightarrow> (acknowledge_messages_error + ack_outcome) \<times> broker" where
  "subscription_acknowledge_messages env s ids b =
     (case subscription_call env s (AcknowledgeMessages ids) b of
        (Some (AcknowledgeResponse r), b') \<Rightarrow> (r, b')
      | (_, b') \<Rightarrow> (Inl AcknowledgeMessages_Closed, b'))"

definition modify_ack_deadlines ::
    "broker_env \<Rightarrow> subscription \<Rightarrow> deadline_modification list \<Rightarrow> broker
     \<Rightarrow> (modify_deadline_error + ack_outcome) \<times> broker" where
  "modify_ack_deadlines env s mods b =
     (case subscription_call env s (ModifyDeadline mods) b of
        (Some (ModifyDeadlineResponse r), b') \<Rightarrow> (r, b')
      | (_, b') \<Rightarrow> (Inl ModifyDeadline_Closed, b'))"

definition subscription_get_stats ::
    "broker_env \<Rightarrow> subscription \<Rightarrow> broker \<Rightarrow> (get_stats_error + subscription_stats) \<times> broker" where
  "subscription_get_stats env s b =
     (case subscription_call env s GetStats b of
        (Some (StatsResponse r), b') \<Rightarrow> (r, b') | (_, b') \<Rightarrow> (Inl GetStats_Closed, b'))"

definition subscription_modify_push_config ::
    "broker_env \<Rightarrow> subscription \<Rightarrow> push_config option \<Rightarrow> broker
     \<Rightarrow> (get_info_error + unit) \<times> broker" where
  "subscription_modify_push_config env s config b =
     (case subscription_call env s (ModifyPushConfig config) b of
        (Some (UnitResponse r), b') \<Rightarrow> (r, b') | (_, b') \<Rightarrow> (Inl GetInfo_Closed, b'))"

definition subscription_detach ::
    "broker_env \<Rightarrow> subscription \<Rightarrow> broker \<Rightarrow> (get_info_error + unit) \<times> broker" where
  "subscription_detach env s b =
     (case subscription_call env s Detach b of
        (Some (UnitResponse r), b') \<Rightarrow> (r, b') | (_, b') \<Rightarrow> (Inl GetInfo_Closed, b'))"

definition subscription_seek_to_time ::
    "broker_env \<Rightarrow> subscription \<Rightarrow> system_time \<Rightarrow> broker \<Rightarrow> (seek_error + unit) \<times> broker" where
  "subscription_seek_to_time env s seek_time b =
     (case subscription_call env s (Seek seek_time) b of
        (Some (SeekResponse r), b') \<Rightarrow> (r, b') | (_, b') \<Rightarrow> (Inl Seek_Closed, b'))"

definition subscription_delete ::
    "broker_env \<Rightarrow> subscription \<Rightarrow> broker \<Rightarrow> (delete_error + unit) \<times> broker" where
  "subscription_delete env s b =
     (case subscription_call env s Delete b of
        (Some (DeleteResponse r), b') \<Rightarrow> (r, b') | (_, b') \<Rightarrow> (Inl Delete_Closed, b'))"

section \<open>The managers over the broker\<close>

definition manager_create_topic ::
    "topic_info \<Rightarrow> broker \<Rightarrow> (create_topic_error + topic) \<times> broker" where
  "manager_create_topic info b =
     (case create_topic info (bk_topics b) of
        (Inl e, s) \<Rightarrow> (Inl e, b\<lparr>bk_topics := s\<rparr>)
      | (Inr t, s) \<Rightarrow>
          (Inr t, set_topic_actor (topic_internal_id t)
                    (topic_actor_start info (topic_internal_id t)) (b\<lparr>bk_topics := s\<rparr>)))"

definition manager_get_topic :: "topic_name \<Rightarrow> broker \<Rightarrow> get_topic_error + topic" where
  "manager_get_topic name b = get_topic name (bk_topics b)"

definition manager_get_subscription ::
    "subscription_name \<Rightarrow> broker \<Rightarrow> get_subscription_error + subscription" where
  "manager_get_subscription name b = state_get_subscription name (bk_subscriptions b)"

text \<open>The check of the dead letter topic: on success, whether the actor gets the topic manager.\<close>

definition check_dead_letter_topic ::
    "subscription_info \<Rightarrow> broker \<Rightarrow> create_subscription_error + bool" where
  "check_dead_letter_topic info b =
     (case si_dead_letter_policy info of
        None \<Rightarrow> Inr False
      | Some dlp \<Rightarrow>
          (case manager_get_topic (dlp_dead_letter_topic dlp) b of
             Inl GetTopic_DoesNotExist \<Rightarrow> Inl CreateSubscription_DeadLetterTopicDoesNotExist
           | Inl GetTopic_Closed \<Rightarrow> Inl CreateSubscription_Closed
           | Inr _ \<Rightarrow> Inr True))"

text \<open>\<^verbatim>\<open>SubscriptionManager::create_subscription\<close>: the checks, the entry in the state with the start of
  the actor (which registers its push configuration), and the attachment to the topic.\<close>

definition manager_create_subscription ::
    "broker_env \<Rightarrow> subscription_info \<Rightarrow> topic \<Rightarrow> broker
     \<Rightarrow> (create_subscription_error + subscription) \<times> broker" where
  "manager_create_subscription env info t b =
     (if \<not> topic_is_in_project (topic_handle_name t) (sn_project_id (si_name info))
      then (Inl CreateSubscription_MustBeInSameProjectAsTopic, b)
      else
        (case check_dead_letter_topic info b of
           Inl e \<Rightarrow> (Inl e, b)
         | Inr topic_manager_for_dlq \<Rightarrow>
             (case state_create_subscription (info, t) (bk_subscriptions b) of
                (Inl e, s) \<Rightarrow> (Inl e, b\<lparr>bk_subscriptions := s\<rparr>)
              | (Inr sub, s) \<Rightarrow>
                  (let a = actor_start (sub_internal_id sub) info topic_manager_for_dlq;
                       b1 = fold (apply_actor_effect t) (sa_effects a)
                              (set_subscription_actor (sub_internal_id sub) a
                                 (b\<lparr>bk_subscriptions := s\<rparr>))
                   in case topic_attach_subscription env t sub b1 of
                        (Inl AttachSubscription_Closed, b2) \<Rightarrow> (Inl CreateSubscription_Closed, b2)
                      | (Inr _, b2) \<Rightarrow> (Inr sub, b2)))))"

text \<open>A spawned dead letter publish: one of the waiting tasks runs.\<close>

definition run_spawned :: "broker_env \<Rightarrow> nat \<Rightarrow> broker \<Rightarrow> broker" where
  "run_spawned env i b =
     (if i < length (bk_spawned b) then
        (case bk_spawned b ! i of
           (dlq, ms) \<Rightarrow>
             snd (topic_publish_messages env dlq ms
               (b\<lparr>bk_spawned := take i (bk_spawned b) @ drop (Suc i) (bk_spawned b)\<rparr>)))
      else b)"

text \<open>A timer of a subscription: expired or retried messages are handled by the select loop.\<close>

definition subscription_timer ::
    "broker_env \<Rightarrow> subscription \<Rightarrow> (environment \<Rightarrow> actor_event) \<Rightarrow> broker \<Rightarrow> broker option" where
  "subscription_timer env s event b =
     (case fmlookup (bk_subscription_actors b) (sub_internal_id s) of
        None \<Rightarrow> Some b
      | Some a \<Rightarrow>
          map_option (\<lambda>a'. fold (apply_actor_effect (sub_topic s))
              (drop (length (sa_effects a)) (sa_effects a'))
              (set_subscription_actor (sub_internal_id s) a' b))
            (handle_event (event (actor_env_of env (sub_topic s) b)) a))"

end
