(* ===== verification/Publisher.thy ===== *)
theory Publisher
  imports Broker Api_Parser
begin

text \<open>
  The publisher service, \<^verbatim>\<open>api/publisher.rs\<close>: one definition per remote procedure, from the fields of
  the request to a status or a response, threading the broker. Functions of third-party crates (the
  base64 engine, the conversions between timestamps, the text of a filter error) are the fields of
  \<open>externals\<close>.
\<close>

section \<open>Calls in sequence\<close>

record externals =
  ex_base64_encode :: "bytes \<Rightarrow> string"
  ex_base64_decode :: "string \<Rightarrow> bytes option"
  ex_timestamp_from :: "system_time \<Rightarrow> proto_timestamp"
  ex_timestamp_try_into :: "proto_timestamp \<Rightarrow> system_time option"
  ex_filter_error_text :: "filter_parse_error \<Rightarrow> string"

type_synonym 'a answer = "(status + 'a) \<times> broker"

text \<open>The question mark operator: on a parse result, and on the result of a call, whose error is
  mapped to a status.\<close>

definition with_parsed :: "status + 'a \<Rightarrow> broker \<Rightarrow> ('a \<Rightarrow> 'b answer) \<Rightarrow> 'b answer" where
  "with_parsed r b f = (case r of Inl e \<Rightarrow> (Inl e, b) | Inr x \<Rightarrow> f x)"

definition with_result ::
    "('e + 'a) \<times> broker \<Rightarrow> ('e \<Rightarrow> status) \<Rightarrow> ('a \<Rightarrow> broker \<Rightarrow> 'b answer) \<Rightarrow> 'b answer" where
  "with_result r to_status f =
     (case r of (Inl e, b) \<Rightarrow> (Inl (to_status e), b) | (Inr x, b) \<Rightarrow> f x b)"

fun collect_answers :: "('a \<Rightarrow> broker \<Rightarrow> 'b answer) \<Rightarrow> 'a list \<Rightarrow> broker \<Rightarrow> 'b list answer" where
  "collect_answers f [] b = (Inr [], b)"
| "collect_answers f (x # xs) b =
     (case f x b of
        (Inl e, b') \<Rightarrow> (Inl e, b')
      | (Inr y, b') \<Rightarrow>
          (case collect_answers f xs b' of
             (Inl e, b'') \<Rightarrow> (Inl e, b'') | (Inr ys, b'') \<Rightarrow> (Inr (y # ys), b'')))"

section \<open>Statuses and resources\<close>

definition conflict :: status where
  "conflict = Status FailedPrecondition ''The operation resulted in a conflict.''"

definition shutting_down :: status where
  "shutting_down = Status Internal ''System is shutting down''"

definition topic_not_found :: "topic_name \<Rightarrow> status" where
  "topic_not_found name =
     Status NotFound (''Resource not found (resource='' @ tn_topic_id name @ '').'')"

definition subscription_not_found :: "subscription_name \<Rightarrow> status" where
  "subscription_not_found name =
     Status NotFound (''Resource not found (resource='' @ sn_subscription_id name @ '').'')"

definition duration_to_proto :: "duration \<Rightarrow> proto_duration" where
  "duration_to_proto d =
     \<lparr>pd_seconds = sint (of_nat (as_secs d) :: 64 word), pd_nanos = sint (of_nat (subsec_nanos d) :: 32 word)\<rparr>"

definition map_to_topic_resource :: "topic_info \<Rightarrow> proto_topic" where
  "map_to_topic_resource info =
     \<lparr>pt_name = topic_name_to_string (ti_name info), pt_labels = ti_labels info,
      pt_message_retention_duration =
        map_option duration_to_proto (ti_message_retention_duration info)\<rparr>"

definition next_page_token :: "externals \<Rightarrow> nat option \<Rightarrow> string" where
  "next_page_token ext offset =
     (case offset of
        None \<Rightarrow> [] | Some v \<Rightarrow> page_token_encode (ex_base64_encode ext) \<lparr>pt_value = of_nat v\<rparr>)"

section \<open>Remote procedures\<close>

definition get_topic_internal :: "topic_name \<Rightarrow> broker \<Rightarrow> status + topic" where
  "get_topic_internal name b =
     (case manager_get_topic name b of
        Inl GetTopic_DoesNotExist \<Rightarrow> Inl (topic_not_found name)
      | Inl GetTopic_Closed \<Rightarrow> Inl shutting_down
      | Inr t \<Rightarrow> Inr t)"

definition rpc_create_topic :: "broker_env \<Rightarrow> proto_topic \<Rightarrow> broker \<Rightarrow> proto_topic answer" where
  "rpc_create_topic env request b =
     with_parsed (parse_topic_name (pt_name request)) b (\<lambda>name.
     with_parsed (transpose_map parse_message_retention_duration
                    (pt_message_retention_duration request)) b (\<lambda>retention.
     with_result
       (manager_create_topic
          \<lparr>ti_name = name, ti_labels = pt_labels request,
           ti_message_retention_duration = retention\<rparr> b)
       (\<lambda>e. case e of
              CreateTopic_AlreadyExists \<Rightarrow> Status AlreadyExists ''Topic already exists''
            | CreateTopic_Closed \<Rightarrow> conflict)
       (\<lambda>t b1. with_result (topic_handle_get_info env t b1) (\<lambda>_. conflict)
         (\<lambda>info b2. (Inr (map_to_topic_resource info), b2)))))"

definition rpc_update_topic ::
    "broker_env \<Rightarrow> proto_topic option \<Rightarrow> string list option \<Rightarrow> broker \<Rightarrow> proto_topic answer" where
  "rpc_update_topic env topic_field update_mask b =
     (case topic_field of
        None \<Rightarrow> (Inl (Status InvalidArgument ''topic must be specified''), b)
      | Some proto \<Rightarrow>
          (case update_mask of
             None \<Rightarrow> (Inl (Status InvalidArgument ''update_mask must be specified''), b)
           | Some paths \<Rightarrow>
               with_parsed (parse_topic_name (pt_name proto)) b (\<lambda>name.
               with_parsed (parse_topic_update proto paths) b (\<lambda>update.
               with_parsed (get_topic_internal name b) b (\<lambda>t.
               with_result (topic_handle_update_info env t update b) (\<lambda>_. conflict)
                 (\<lambda>info b1. (Inr (map_to_topic_resource info), b1)))))))"

definition rpc_publish ::
    "broker_env \<Rightarrow> string \<Rightarrow> pubsub_message list \<Rightarrow> broker \<Rightarrow> string list answer" where
  "rpc_publish env raw_topic messages b =
     with_parsed (parse_topic_name raw_topic) b (\<lambda>name.
     with_parsed (get_topic_internal name b) b (\<lambda>t.
     with_result
       (topic_publish_messages env t (map (parse_topic_message (be_now env)) messages) b)
       (\<lambda>e. case e of
              PublishMessages_TopicDoesNotExist \<Rightarrow> topic_not_found name
            | PublishMessages_Closed \<Rightarrow> conflict)
       (\<lambda>ids b1. (Inr (map message_id_to_string ids), b1))))"

definition rpc_get_topic :: "broker_env \<Rightarrow> string \<Rightarrow> broker \<Rightarrow> proto_topic answer" where
  "rpc_get_topic env raw_topic b =
     with_parsed (parse_topic_name raw_topic) b (\<lambda>name.
     with_parsed (get_topic_internal name b) b (\<lambda>t.
     with_result (topic_handle_get_info env t b) (\<lambda>_. conflict)
       (\<lambda>info b1. (Inr (map_to_topic_resource info), b1))))"

definition rpc_list_topics ::
    "externals \<Rightarrow> broker_env \<Rightarrow> string \<Rightarrow> int \<Rightarrow> string \<Rightarrow> broker
     \<Rightarrow> (proto_topic list \<times> string) answer" where
  "rpc_list_topics ext env project page_size page_token b =
     with_parsed (parse_paging (ex_base64_decode ext) page_size page_token) b (\<lambda>paging.
     with_parsed (parse_project_id project) b (\<lambda>project_id.
     with_result (list_topics (be_topic_order env) project_id paging, b) (\<lambda>_. conflict)
       (\<lambda>page b1. with_result
          (collect_answers (\<lambda>t b'. with_result (topic_handle_get_info env t b') (\<lambda>_. conflict)
               (\<lambda>info b''. (Inr (map_to_topic_resource info), b''))) (tp_topics page) b1)
          id
          (\<lambda>topics b2. (Inr (topics, next_page_token ext (tp_offset page)), b2)))))"

definition rpc_list_topic_subscriptions ::
    "externals \<Rightarrow> broker_env \<Rightarrow> string \<Rightarrow> int \<Rightarrow> string \<Rightarrow> broker
     \<Rightarrow> (string list \<times> string) answer" where
  "rpc_list_topic_subscriptions ext env raw_topic page_size page_token b =
     with_parsed (parse_topic_name raw_topic) b (\<lambda>name.
     with_parsed (parse_paging (ex_base64_decode ext) page_size page_token) b (\<lambda>paging.
     with_parsed (get_topic_internal name b) b (\<lambda>t.
     with_result (topic_handle_list_subscriptions env t paging b) (\<lambda>_. conflict)
       (\<lambda>page b1.
          (Inr (map (subscription_name_to_string \<circ> sub_name) (sp_subscriptions page),
                next_page_token ext (sp_offset page)), b1)))))"

definition rpc_list_topic_snapshots :: "string \<Rightarrow> broker \<Rightarrow> (string list \<times> string) answer" where
  "rpc_list_topic_snapshots raw_topic b =
     with_parsed (parse_topic_name raw_topic) b (\<lambda>name.
     with_parsed (get_topic_internal name b) b (\<lambda>_. (Inr ([], []), b)))"

definition rpc_delete_topic :: "broker_env \<Rightarrow> string \<Rightarrow> broker \<Rightarrow> unit answer" where
  "rpc_delete_topic env raw_topic b =
     with_parsed (parse_topic_name raw_topic) b (\<lambda>name.
     with_parsed (get_topic_internal name b) b (\<lambda>t.
     with_result (topic_handle_delete env t b) (\<lambda>_. conflict) (\<lambda>_ b1. (Inr (), b1))))"

definition rpc_detach_subscription :: "broker_env \<Rightarrow> string \<Rightarrow> broker \<Rightarrow> unit answer" where
  "rpc_detach_subscription env raw_subscription b =
     with_parsed (parse_subscription_name raw_subscription) b (\<lambda>name.
     with_result (manager_get_subscription name b, b)
       (\<lambda>e. case e of
              GetSubscription_DoesNotExist \<Rightarrow> subscription_not_found name
            | GetSubscription_Closed \<Rightarrow> conflict)
       (\<lambda>s b1. with_result (subscription_detach env s b1) (\<lambda>_. conflict) (\<lambda>_ b2. (Inr (), b2))))"

end
