(* ===== verification/Subscriber.thy ===== *)
theory Subscriber
  imports Publisher
begin

text \<open>
  The subscriber service, \<^verbatim>\<open>api/subscriber.rs\<close>. A blocking pull waits between its attempts: it runs on
  a list of rounds, each with its environment and what the rest of the system did to the broker while
  the call was waiting, and times out when the list ends. The server side of a streaming pull runs on
  such rounds too, with the signal that ended each wait.
\<close>

section \<open>Responses\<close>

record received_message =
  rm_ack_id :: string
  rm_message :: "pubsub_message option"
  rm_delivery_attempt :: int

record ack_confirmation =
  ac_ack_ids :: "string list"
  ac_invalid_ack_ids :: "string list"

record subscription_properties =
  spr_exactly_once_delivery_enabled :: bool
  spr_message_ordering_enabled :: bool

record streaming_pull_response =
  sr_received_messages :: "received_message list"
  sr_acknowledge_confirmation :: "ack_confirmation option"
  sr_modify_ack_deadline_confirmation :: "ack_confirmation option"
  sr_subscription_properties :: "subscription_properties option"

record streaming_pull_request =
  sq_subscription :: string
  sq_ack_ids :: "string list"
  sq_modify_deadline_seconds :: "int list"
  sq_modify_deadline_ack_ids :: "string list"
  sq_max_outstanding_messages :: int
  sq_max_outstanding_bytes :: int
  sq_protocol_version :: int

datatype seek_target = SeekToTime proto_timestamp | SeekToSnapshot string

definition detached_status :: status where
  "detached_status = Status FailedPrecondition ''Subscription is detached.''"

definition subscriber_get_subscription :: "subscription_name \<Rightarrow> broker \<Rightarrow> status + subscription" where
  "subscriber_get_subscription name b =
     (case manager_get_subscription name b of
        Inl GetSubscription_DoesNotExist \<Rightarrow> Inl (subscription_not_found name)
      | Inl GetSubscription_Closed \<Rightarrow> Inl shutting_down
      | Inr s \<Rightarrow> Inr s)"

definition map_to_received_message :: "externals \<Rightarrow> pulled_message \<Rightarrow> received_message" where
  "map_to_received_message ext m =
     \<lparr>rm_ack_id = ack_id_to_string (pm_ack_id m),
      rm_message =
        Some \<lparr>pb_data = tm_data (pm_message m),
              pb_attributes = (case tm_attributes (pm_message m) of None \<Rightarrow> fmempty | Some at \<Rightarrow> at),
              pb_message_id = message_id_to_string (tm_id (pm_message m)),
              pb_publish_time = Some (ex_timestamp_from ext (tm_published_at (pm_message m))),
              pb_ordering_key = (case tm_ordering_key (pm_message m) of None \<Rightarrow> [] | Some k \<Rightarrow> k)\<rparr>,
      rm_delivery_attempt = int (unat (pm_delivery_attempt m))\<rparr>"

definition map_to_push_config_resource :: "push_config \<Rightarrow> proto_push_config" where
  "map_to_push_config_resource config =
     \<lparr>pp_push_endpoint = pc_endpoint config,
      pp_attributes = (case pc_attributes config of None \<Rightarrow> fmempty | Some at \<Rightarrow> at),
      pp_authentication_method =
        map_option (\<lambda>token. \<lparr>po_audience = oidc_audience token,
            po_service_account_email = oidc_service_account_email token\<rparr>) (pc_oidc_token config)\<rparr>"

definition map_to_subscription_resource ::
    "subscription \<Rightarrow> subscription_info \<Rightarrow> broker \<Rightarrow> proto_subscription" where
  "map_to_subscription_resource s info b =
     \<lparr>ps_name = subscription_name_to_string (sub_name s),
      ps_topic = (case upgrade_topic (sub_topic s) b of
                    None \<Rightarrow> ''_deleted_topic_'' | Some n \<Rightarrow> topic_name_to_string n),
      ps_push_config = map_option map_to_push_config_resource (si_push_config info),
      ps_ack_deadline_seconds = sint (of_nat (as_secs (si_ack_deadline info)) :: 32 word),
      ps_message_retention_duration = map_option duration_to_proto (si_message_retention_duration info),
      ps_enable_message_ordering = si_enable_message_ordering info,
      ps_filter = (case si_filter info of None \<Rightarrow> [] | Some f \<Rightarrow> f),
      ps_dead_letter_policy =
        map_option (\<lambda>dlp. \<lparr>pl_dead_letter_topic = topic_name_to_string (dlp_dead_letter_topic dlp),
            pl_max_delivery_attempts = dlp_max_delivery_attempts dlp\<rparr>) (si_dead_letter_policy info),
      ps_retry_policy =
        map_option (\<lambda>rp. \<lparr>pr_minimum_backoff = Some (duration_to_proto (rp_minimum_backoff rp)),
            pr_maximum_backoff = Some (duration_to_proto (rp_maximum_backoff rp))\<rparr>) (si_retry_policy info),
      ps_detached = si_detached info,
      ps_enable_exactly_once_delivery = si_enable_exactly_once_delivery info\<rparr>"

section \<open>Administration\<close>

text \<open>The filter of a create request is parsed for validation; \<open>filter_parse\<close> never runs out of fuel, so
  the last case does not occur.\<close>

definition parse_filter :: "externals \<Rightarrow> string \<Rightarrow> status + string option" where
  "parse_filter ext raw =
     (let f = trim raw
      in if f = [] then Inr None
         else (case filter_parse f of
                 Some (Inr _) \<Rightarrow> Inr (Some f)
               | Some (Inl e) \<Rightarrow> Inl (Status InvalidArgument
                   (''invalid filter expression: '' @ ex_filter_error_text ext e))
               | None \<Rightarrow> Inr None))"

text \<open>The information a create request asks for, from its parsed parts, in the order in which the
  handler parses them.\<close>

definition create_request_info ::
    "externals \<Rightarrow> proto_subscription \<Rightarrow> broker \<Rightarrow> (topic_name \<times> subscription_info) answer" where
  "create_request_info ext request b =
     with_parsed (parse_topic_name (ps_topic request)) b (\<lambda>topic_name.
     with_parsed (parse_subscription_name (ps_name request)) b (\<lambda>name.
     with_parsed (transpose_map parse_push_config (ps_push_config request)) b (\<lambda>push.
     with_parsed (transpose_map parse_retry_policy (ps_retry_policy request)) b (\<lambda>retry.
     with_parsed (transpose_map parse_dead_letter_policy (ps_dead_letter_policy request)) b (\<lambda>dead_letter.
     with_parsed (transpose_map parse_message_retention_duration
                    (ps_message_retention_duration request)) b (\<lambda>retention.
     with_parsed (parse_filter ext (ps_filter request)) b (\<lambda>filter_text.
       (Inr (topic_name,
             (subscription_info_new name (parse_create_ack_deadline (ps_ack_deadline_seconds request))
                push retry dead_letter)
               \<lparr>si_message_retention_duration := retention,
                si_enable_message_ordering := ps_enable_message_ordering request,
                si_enable_exactly_once_delivery := ps_enable_exactly_once_delivery request,
                si_filter := filter_text\<rparr>), b))))))))"

fun create_subscription_status :: "subscription_name \<Rightarrow> create_subscription_error \<Rightarrow> status" where
  "create_subscription_status name CreateSubscription_AlreadyExists =
     Status AlreadyExists (''The subscription '' @ subscription_name_to_string name @ '' already exists'')"
| "create_subscription_status name CreateSubscription_MustBeInSameProjectAsTopic =
     Status InvalidArgument ''The subscription must be in the same project as the topic''"
| "create_subscription_status name CreateSubscription_DeadLetterTopicDoesNotExist =
     Status NotFound ''The dead letter topic does not exist''"
| "create_subscription_status name CreateSubscription_Closed = conflict"

definition rpc_create_subscription ::
    "externals \<Rightarrow> broker_env \<Rightarrow> proto_subscription \<Rightarrow> broker \<Rightarrow> proto_subscription answer" where
  "rpc_create_subscription ext env request b =
     with_result (create_request_info ext request b) id (\<lambda>(topic_name, info) b0.
     with_result (manager_get_topic topic_name b0, b0)
       (\<lambda>e. case e of
              GetTopic_DoesNotExist \<Rightarrow> Status NotFound
                (''The topic '' @ topic_name_to_string topic_name @ '' does not exist'')
            | GetTopic_Closed \<Rightarrow> conflict)
       (\<lambda>t b1. with_result (manager_create_subscription env info t b1)
          (create_subscription_status (si_name info))
          (\<lambda>s b2. with_result (subscription_get_info env s b2) (\<lambda>_. conflict)
             (\<lambda>info' b3. (Inr (map_to_subscription_resource s info' b3), b3)))))"

definition rpc_get_subscription ::
    "broker_env \<Rightarrow> string \<Rightarrow> broker \<Rightarrow> proto_subscription answer" where
  "rpc_get_subscription env raw_name b =
     with_parsed (parse_subscription_name raw_name) b (\<lambda>name.
     with_result (manager_get_subscription name b, b)
       (\<lambda>e. case e of
              GetSubscription_DoesNotExist \<Rightarrow> subscription_not_found name
            | GetSubscription_Closed \<Rightarrow> conflict)
       (\<lambda>s b1. with_result (subscription_get_info env s b1) (\<lambda>_. conflict)
          (\<lambda>info b2. (Inr (map_to_subscription_resource s info b2), b2))))"

definition rpc_update_subscription ::
    "broker_env \<Rightarrow> proto_subscription option \<Rightarrow> string list option \<Rightarrow> broker
     \<Rightarrow> proto_subscription answer" where
  "rpc_update_subscription env subscription_field update_mask b =
     (case subscription_field of
        None \<Rightarrow> (Inl (Status InvalidArgument ''subscription must be specified''), b)
      | Some proto \<Rightarrow>
          (case update_mask of
             None \<Rightarrow> (Inl (Status InvalidArgument ''update_mask must be specified''), b)
           | Some paths \<Rightarrow>
               with_parsed (parse_subscription_name (ps_name proto)) b (\<lambda>name.
               with_parsed (parse_subscription_update proto paths) b (\<lambda>update.
               with_parsed (subscriber_get_subscription name b) b (\<lambda>s.
               with_result (subscription_update_info env s update b) (\<lambda>_. conflict)
                 (\<lambda>info b1. (Inr (map_to_subscription_resource s info b1), b1)))))))"

definition rpc_list_subscriptions ::
    "externals \<Rightarrow> broker_env \<Rightarrow> string \<Rightarrow> int \<Rightarrow> string \<Rightarrow> broker
     \<Rightarrow> (proto_subscription list \<times> string) answer" where
  "rpc_list_subscriptions ext env project page_size page_token b =
     with_parsed (parse_paging (ex_base64_decode ext) page_size page_token) b (\<lambda>paging.
     with_parsed (parse_project_id project) b (\<lambda>project_id.
     with_result (list_subscriptions_in_project (be_subscription_order env) project_id paging, b)
       (\<lambda>_. conflict)
       (\<lambda>page b1. with_result
          (collect_answers (\<lambda>s b'. with_result (subscription_get_info env s b') (\<lambda>_. conflict)
               (\<lambda>info b''. (Inr (map_to_subscription_resource s info b''), b'')))
             (sp_subscriptions page) b1)
          id
          (\<lambda>subs b2. (Inr (subs, next_page_token ext (sp_offset page)), b2)))))"

definition rpc_delete_subscription :: "broker_env \<Rightarrow> string \<Rightarrow> broker \<Rightarrow> unit answer" where
  "rpc_delete_subscription env raw_name b =
     with_parsed (parse_subscription_name raw_name) b (\<lambda>name.
     with_parsed (subscriber_get_subscription name b) b (\<lambda>s.
     with_result (subscription_delete env s b) (\<lambda>_. conflict) (\<lambda>_ b1. (Inr (), b1))))"

definition rpc_modify_push_config ::
    "broker_env \<Rightarrow> string \<Rightarrow> proto_push_config option \<Rightarrow> broker \<Rightarrow> unit answer" where
  "rpc_modify_push_config env raw_name push_field b =
     with_parsed (parse_subscription_name raw_name) b (\<lambda>name.
     with_parsed
       (case push_field of
          None \<Rightarrow> Inr None
        | Some pc \<Rightarrow>
            if trim (pp_push_endpoint pc) = [] then Inr None
            else (case parse_push_config pc of Inl e \<Rightarrow> Inl e | Inr c \<Rightarrow> Inr (Some c))) b
       (\<lambda>config.
     with_parsed (subscriber_get_subscription name b) b (\<lambda>s.
     with_result (subscription_modify_push_config env s config b) (\<lambda>_. conflict)
       (\<lambda>_ b1. (Inr (), b1)))))"

definition rpc_seek ::
    "externals \<Rightarrow> broker_env \<Rightarrow> string \<Rightarrow> seek_target option \<Rightarrow> broker \<Rightarrow> unit answer" where
  "rpc_seek ext env raw_name target b =
     with_parsed (parse_subscription_name raw_name) b (\<lambda>name.
     with_parsed (subscriber_get_subscription name b) b (\<lambda>s.
     with_parsed
       (case target of
          Some (SeekToTime ts) \<Rightarrow>
            (case ex_timestamp_try_into ext ts of
               Some t \<Rightarrow> Inr t
             | None \<Rightarrow> Inl (Status InvalidArgument ''Seek time is out of the valid range''))
        | Some (SeekToSnapshot _) \<Rightarrow> Inl (Status Unimplemented
            ''Seek to a snapshot is not supported in Deltio; only seek to a time is supported'')
        | None \<Rightarrow> Inl (Status InvalidArgument ''A seek target (time) must be specified'')) b
       (\<lambda>seek_time.
     with_result (subscription_seek_to_time env s seek_time b) (\<lambda>_. shutting_down)
       (\<lambda>_ b1. (Inr (), b1)))))"

datatype snapshot_call =
  GetSnapshot | ListSnapshots | CreateSnapshot | UpdateSnapshot | DeleteSnapshot

fun rpc_snapshot :: "snapshot_call \<Rightarrow> broker \<Rightarrow> unit answer" where
  "rpc_snapshot GetSnapshot b = (Inl (Status Unimplemented ''GetSnapshot is not implemented in Deltio''), b)"
| "rpc_snapshot ListSnapshots b = (Inl (Status Unimplemented ''ListSnapshots is not implemented in Deltio''), b)"
| "rpc_snapshot CreateSnapshot b = (Inl (Status Unimplemented ''CreateSnapshot is not implemented in Deltio''), b)"
| "rpc_snapshot UpdateSnapshot b = (Inl (Status Unimplemented ''UpdateSnapshot is not implemented in Deltio''), b)"
| "rpc_snapshot DeleteSnapshot b = (Inl (Status Unimplemented ''DeleteSnapshot is not implemented in Deltio''), b)"

section \<open>Consuming messages\<close>

definition rpc_modify_ack_deadline ::
    "broker_env \<Rightarrow> string \<Rightarrow> string list \<Rightarrow> int \<Rightarrow> broker \<Rightarrow> unit answer" where
  "rpc_modify_ack_deadline env raw_name ack_ids seconds b =
     with_parsed (parse_deadline_modifications (be_now env) ack_ids (map (\<lambda>_. seconds) ack_ids)) b (\<lambda>mods.
     with_parsed (parse_subscription_name raw_name) b (\<lambda>name.
     with_parsed (subscriber_get_subscription name b) b (\<lambda>s.
     with_result (modify_ack_deadlines env s mods b) (\<lambda>_. shutting_down) (\<lambda>_ b1. (Inr (), b1)))))"

definition rpc_acknowledge ::
    "broker_env \<Rightarrow> string \<Rightarrow> string list \<Rightarrow> broker \<Rightarrow> unit answer" where
  "rpc_acknowledge env raw_name raw_ids b =
     with_parsed (collect_results parse_ack_id raw_ids) b (\<lambda>ack_ids.
     with_parsed (parse_subscription_name raw_name) b (\<lambda>name.
     with_parsed (subscriber_get_subscription name b) b (\<lambda>s.
     with_result (subscription_acknowledge_messages env s ack_ids b) (\<lambda>_. shutting_down)
       (\<lambda>_ b1. (Inr (), b1)))))"

definition subscriber_pull_messages ::
    "externals \<Rightarrow> broker_env \<Rightarrow> subscription \<Rightarrow> u16 \<Rightarrow> broker \<Rightarrow> received_message list answer" where
  "subscriber_pull_messages ext env s max_messages b =
     with_result (subscription_pull_messages env s max_messages b)
       (\<lambda>e. case e of PullMessages_Closed \<Rightarrow> conflict | PullMessages_Detached \<Rightarrow> detached_status)
       (\<lambda>pulled b1. (Inr (map (map_to_received_message ext) pulled), b1))"

fun pull_loop ::
    "externals \<Rightarrow> subscription \<Rightarrow> u16 \<Rightarrow> bool \<Rightarrow> (broker_env \<times> (broker \<Rightarrow> broker)) list \<Rightarrow> broker
     \<Rightarrow> received_message list answer" where
  "pull_loop ext s max_messages return_immediately [] b = (Inr [], b)"
| "pull_loop ext s max_messages return_immediately ((env, meanwhile) # rounds) b =
     (case subscriber_pull_messages ext env s max_messages b of
        (Inl e, b1) \<Rightarrow> (Inl e, b1)
      | (Inr received, b1) \<Rightarrow>
          if received \<noteq> [] then (Inr received, b1)
          else if return_immediately then (Inr received, b1)
          else pull_loop ext s max_messages return_immediately rounds (meanwhile b1))"

text \<open>\<^verbatim>\<open>request.max_messages as u16\<close> keeps the low sixteen bits of the 32-bit integer.\<close>

definition rpc_pull ::
    "externals \<Rightarrow> string \<Rightarrow> int \<Rightarrow> bool \<Rightarrow> (broker_env \<times> (broker \<Rightarrow> broker)) list \<Rightarrow> broker
     \<Rightarrow> received_message list answer" where
  "rpc_pull ext raw_name max_messages return_immediately rounds b =
     with_parsed (parse_subscription_name raw_name) b (\<lambda>name.
     with_parsed (subscriber_get_subscription name b) b (\<lambda>s.
       pull_loop ext s (of_int max_messages) return_immediately rounds b))"

end
