(* ===== verification/Streaming_Pull.thy ===== *)
theory Streaming_Pull
  imports Subscriber
begin

text \<open>
  Streaming pull, \<^verbatim>\<open>SubscriberService::streaming_pull\<close> and \<^verbatim>\<open>handle_streaming_pull_request\<close> of
  \<^verbatim>\<open>api/subscriber.rs\<close>: the initial request, the control requests that follow it on the stream with
  their confirmations, and the loop that streams messages to the client.
\<close>

section \<open>Control requests\<close>

text \<open>The acknowledgements of a control request: the raw strings are kept, so that a confirmation
  echoes what the client sent.\<close>

definition ack_ids_ok :: "string list \<Rightarrow> (string \<times> ack_id) list" where
  "ack_ids_ok raws =
     List.map_filter (\<lambda>raw. case parse_ack_id raw of Inr i \<Rightarrow> Some (raw, i) | Inl _ \<Rightarrow> None) raws"

definition ack_ids_failed :: "string list \<Rightarrow> string list" where
  "ack_ids_failed raws = filter (\<lambda>raw. isl (parse_ack_id raw)) raws"

definition confirm_acks :: "string list \<Rightarrow> ack_outcome \<Rightarrow> ack_confirmation" where
  "confirm_acks raws outcome =
     \<lparr>ac_ack_ids = map fst (filter (\<lambda>(_, i). i \<in> set (ao_valid outcome)) (ack_ids_ok raws)),
      ac_invalid_ack_ids =
        map fst (filter (\<lambda>(_, i). i \<in> set (ao_invalid outcome)) (ack_ids_ok raws))
        @ ack_ids_failed raws\<rparr>"

definition stream_acknowledge ::
    "broker_env \<Rightarrow> subscription \<Rightarrow> bool \<Rightarrow> string list \<Rightarrow> broker \<Rightarrow> ack_confirmation option answer" where
  "stream_acknowledge env s exactly_once raws b =
     (if raws = [] then (Inr None, b)
      else with_result (subscription_acknowledge_messages env s (map snd (ack_ids_ok raws)) b)
        (\<lambda>_. conflict)
        (\<lambda>outcome b1. (Inr (if exactly_once then Some (confirm_acks raws outcome) else None), b1)))"

definition confirm_modifications ::
    "string list \<Rightarrow> string list \<Rightarrow> ack_outcome \<Rightarrow> ack_confirmation" where
  "confirm_modifications raws parse_failed outcome =
     (let known = filter (\<lambda>raw. \<not> isl (parse_ack_id raw)) raws;
          accepted = (\<lambda>raw. projr (parse_ack_id raw) \<in> set (ao_valid outcome))
      in \<lparr>ac_ack_ids = filter accepted known,
          ac_invalid_ack_ids = filter (\<lambda>raw. \<not> accepted raw) known @ parse_failed\<rparr>)"

definition stream_modify ::
    "broker_env \<Rightarrow> subscription \<Rightarrow> bool \<Rightarrow> string list \<Rightarrow> int list \<Rightarrow> broker
     \<Rightarrow> ack_confirmation option answer" where
  "stream_modify env s exactly_once raws seconds b =
     (if raws = [] then (Inr None, b)
      else
        (let (mods, parse_failed) =
               (case parse_deadline_modifications (be_now env) raws seconds of
                  Inr mods \<Rightarrow> (mods, []) | Inl _ \<Rightarrow> ([], raws))
         in with_result (modify_ack_deadlines env s mods b) (\<lambda>_. conflict)
              (\<lambda>outcome b1.
                 (Inr (if exactly_once then Some (confirm_modifications raws parse_failed outcome)
                       else None), b1))))"

definition check_stream_request :: "streaming_pull_request \<Rightarrow> status option" where
  "check_stream_request r =
     (if sq_subscription r \<noteq> [] then
        Some (Status InvalidArgument ''subscription must only be specified in the initial request.'')
      else if 0 < sq_max_outstanding_bytes r then
        Some (Status InvalidArgument ''max_outstanding_bytes must only be specified in the initial request.'')
      else if 0 < sq_max_outstanding_messages r then
        Some (Status InvalidArgument ''max_outstanding_messages must only be specified in the initial request.'')
      else if sq_protocol_version r \<noteq> 0 then
        Some (Status InvalidArgument ''protocol_version must only be specified in the initial request.'')
      else if length (sq_modify_deadline_seconds r) \<noteq> length (sq_modify_deadline_ack_ids r) then
        Some (Status InvalidArgument
          ''modify_deadline_seconds and modify_deadline_ack_ids must be the same length'')
      else None)"

definition confirmation_response ::
    "ack_confirmation option \<Rightarrow> ack_confirmation option \<Rightarrow> streaming_pull_response" where
  "confirmation_response acks mods =
     \<lparr>sr_received_messages = [], sr_acknowledge_confirmation = acks,
      sr_modify_ack_deadline_confirmation = mods, sr_subscription_properties = None\<rparr>"

definition handle_streaming_pull_request ::
    "broker_env \<Rightarrow> subscription \<Rightarrow> bool \<Rightarrow> bool \<Rightarrow> streaming_pull_request \<Rightarrow> broker
     \<Rightarrow> streaming_pull_response option answer" where
  "handle_streaming_pull_request env s exactly_once server_keepalives r b =
     (case check_stream_request r of
        Some e \<Rightarrow> (Inl e, b)
      | None \<Rightarrow>
          with_result (stream_acknowledge env s exactly_once (sq_ack_ids r) b) id (\<lambda>acks b1.
          with_result (stream_modify env s exactly_once (sq_modify_deadline_ack_ids r)
                         (sq_modify_deadline_seconds r) b1) id (\<lambda>mods b2.
            if acks \<noteq> None \<or> mods \<noteq> None then (Inr (Some (confirmation_response acks mods)), b2)
            else if server_keepalives then (Inr (Some (confirmation_response None None)), b2)
            else (Inr None, b2))))"

text \<open>The incoming half of the stream: requests are handled in order, an error ends the stream.\<close>

fun control_stream ::
    "subscription \<Rightarrow> bool \<Rightarrow> bool \<Rightarrow> (broker_env \<times> (status + streaming_pull_request)) list \<Rightarrow> broker
     \<Rightarrow> (status + streaming_pull_response) list \<times> broker" where
  "control_stream s exactly_once server_keepalives [] b = ([], b)"
| "control_stream s exactly_once server_keepalives ((env, incoming) # requests) b =
     (case incoming of
        Inl e \<Rightarrow> ([Inl e], b)
      | Inr r \<Rightarrow>
          (case handle_streaming_pull_request env s exactly_once server_keepalives r b of
             (Inl e, b1) \<Rightarrow> ([Inl e], b1)
           | (Inr response, b1) \<Rightarrow>
               (case control_stream s exactly_once server_keepalives requests b1 of
                  (items, b2) \<Rightarrow>
                    ((case response of None \<Rightarrow> items | Some x \<Rightarrow> Inr x # items), b2))))"

section \<open>The stream\<close>

record stream_setup =
  ss_subscription :: subscription
  ss_name :: subscription_name
  ss_exactly_once :: bool
  ss_ordering :: bool
  ss_server_keepalives :: bool
  ss_max_outstanding :: u16

definition u16_max :: u16 where
  "u16_max = - 1"

definition rpc_streaming_pull ::
    "broker_env \<Rightarrow> (status + streaming_pull_request) option \<Rightarrow> broker \<Rightarrow> stream_setup answer" where
  "rpc_streaming_pull env first b =
     (case first of
        None \<Rightarrow> (Inl (Status Cancelled ''The request was canceled''), b)
      | Some incoming \<Rightarrow>
          with_parsed incoming b (\<lambda>r.
          with_parsed (parse_subscription_name (sq_subscription r)) b (\<lambda>name.
          with_parsed (subscriber_get_subscription name b) b (\<lambda>s.
          with_result (subscription_get_info env s b) (\<lambda>_. conflict) (\<lambda>info b1.
            if si_detached info then (Inl detached_status, b1)
            else if sq_max_outstanding_messages r < 0 then
              (Inl (Status InvalidArgument ''max_outstanding_messages must be non-negative''), b1)
            else
              (Inr \<lparr>ss_subscription = s, ss_name = name,
                    ss_exactly_once = si_enable_exactly_once_delivery info,
                    ss_ordering = si_enable_message_ordering info,
                    ss_server_keepalives = (1 \<le> sq_protocol_version r),
                    ss_max_outstanding =
                      (if 65535 < sq_max_outstanding_messages r then u16_max
                       else of_int (sq_max_outstanding_messages r))\<rparr>, b1))))))"

datatype wake_up = MessagesAvailable | OutstandingFreed | SubscriptionDeleted

text \<open>The loop that streams messages, with the items it yields; each round has its environment, what
  the rest of the system did during the wait, and the signal that ended the wait.\<close>

fun pull_stream ::
    "externals \<Rightarrow> stream_setup \<Rightarrow> (broker_env \<times> (broker \<Rightarrow> broker) \<times> wake_up) list \<Rightarrow> broker
     \<Rightarrow> (status + streaming_pull_response) list \<times> broker" where
  "pull_stream ext st [] b = ([], b)"
| "pull_stream ext st ((env, meanwhile, wake) # rounds) b =
     (let max_per_pull = (if ss_max_outstanding st = 0 then u16_max else ss_max_outstanding st)
      in case pull_messages_capped env (ss_subscription st) max_per_pull (ss_max_outstanding st) b of
           (Inl _, b1) \<Rightarrow> ([], b1)
         | (Inr pulled, b1) \<Rightarrow>
             (let received = map (map_to_received_message ext) pulled;
                  items =
                    (if received \<noteq> [] then
                       [Inr \<lparr>sr_received_messages = received, sr_acknowledge_confirmation = None,
                             sr_modify_ack_deadline_confirmation = None,
                             sr_subscription_properties =
                               (if ss_exactly_once st \<or> ss_ordering st
                                then Some \<lparr>spr_exactly_once_delivery_enabled = ss_exactly_once st,
                                           spr_message_ordering_enabled = ss_ordering st\<rparr>
                                else None)\<rparr>]
                     else []);
                  (rest, b2) =
                    (case wake of
                       SubscriptionDeleted \<Rightarrow> ([Inl (subscription_not_found (ss_name st))], meanwhile b1)
                     | _ \<Rightarrow> pull_stream ext st rounds (meanwhile b1))
              in (items @ rest, b2)))"

section \<open>Confirmations\<close>

lemma mset_ack_ids: "mset (map fst (ack_ids_ok raws)) + mset (ack_ids_failed raws) = mset raws"
proof (induction raws)
  case (Cons raw raws)
  then show ?case
    by (cases "parse_ack_id raw") (auto simp: ack_ids_ok_def ack_ids_failed_def map_filter_simps)
qed (simp add: ack_ids_ok_def ack_ids_failed_def map_filter_simps)

lemma confirm_acks_partition:
  assumes "\<forall>i \<in> snd ` set (ack_ids_ok raws). (i \<in> set (ao_valid oc)) \<noteq> (i \<in> set (ao_invalid oc))"
  shows "mset (ac_ack_ids (confirm_acks raws oc)) + mset (ac_invalid_ack_ids (confirm_acks raws oc))
      = mset raws"
proof -
  have "filter (\<lambda>(_, i). i \<in> set (ao_invalid oc)) (ack_ids_ok raws)
      = filter (\<lambda>p. \<not> (\<lambda>(_, i). i \<in> set (ao_valid oc)) p) (ack_ids_ok raws)"
    using assms by (intro filter_cong) auto
  then have "mset (map fst (filter (\<lambda>(_, i). i \<in> set (ao_valid oc)) (ack_ids_ok raws)))
      + mset (map fst (filter (\<lambda>(_, i). i \<in> set (ao_invalid oc)) (ack_ids_ok raws)))
      = mset (map fst (ack_ids_ok raws))"
    by (metis mset_filter_not_split image_mset_union mset_map)
  then show ?thesis
    using mset_ack_ids [of raws] by (simp add: confirm_acks_def add.assoc [symmetric])
qed

end
