(* ===== verification/Actor_Pull.thy ===== *)
theory Actor_Pull
  imports Subscription_Actor
begin

text \<open>
  What a pull hands out: the batch respects the requested count and the flow-control cap, carries
  fresh consecutive ack ids and one deadline, holds no message past its retention, takes at most
  the first live message of each ordering key that is not in flight, and takes the backlog from
  the front.
\<close>

section \<open>Bookkeeping of a pull\<close>

definition ack_ids_from :: "ack_id \<Rightarrow> nat \<Rightarrow> ack_id list" where
  "ack_ids_from i n = map (\<lambda>j. AckId (ack_value i + of_nat j)) [0..<n]"

definition ack_id_add :: "ack_id \<Rightarrow> nat \<Rightarrow> ack_id" where
  "ack_id_add i n = AckId (ack_value i + of_nat n)"

lemma ack_ids_from_simps [simp]:
  "ack_ids_from i 0 = []" "ack_id_add i 0 = i" "length (ack_ids_from i n) = n"
  "ack_id_next (ack_id_add i n) = ack_id_add i (Suc n)"
  by (simp_all add: ack_ids_from_def ack_id_add_def ack_id_next_def)

lemma ack_id_add_add: "ack_id_add (ack_id_add i m) n = ack_id_add i (m + n)"
  by (simp add: ack_id_add_def add.assoc)

lemma ack_ids_from_append:
  "ack_ids_from i (m + n) = ack_ids_from i m @ ack_ids_from (ack_id_add i m) n"
  by (induction n) (simp_all add: ack_ids_from_def ack_id_add_def add.assoc)

text \<open>\<open>pulls now d a ps a'\<close>: the messages \<open>ps\<close> were handed out, one after the other.\<close>

definition pulls ::
    "instant \<Rightarrow> ack_deadline \<Rightarrow> subscription_actor \<Rightarrow> pulled_message list \<Rightarrow> subscription_actor \<Rightarrow> bool" where
  "pulls now d a ps a' \<longleftrightarrow>
     sa_info a' = sa_info a \<and> sa_retry_queue a' = sa_retry_queue a
     \<and> sa_deleted a' = sa_deleted a \<and> sa_effects a' = sa_effects a \<and> sa_counters a' = sa_counters a
     \<and> sa_compiled_filter a' = sa_compiled_filter a
     \<and> sa_has_topic_manager a' = sa_has_topic_manager a
     \<and> sa_outstanding a' = fold tracker_add ps (sa_outstanding a)
     \<and> sa_next_ack_id a' = ack_id_add (sa_next_ack_id a) (length ps)
     \<and> map pm_ack_id ps = ack_ids_from (sa_next_ack_id a) (length ps)
     \<and> (\<forall>p \<in> set ps. pm_deadline p = d \<and> \<not> is_message_expired a (pm_message p) now)"

lemma pulls_refl [simp]: "pulls now d a [] a"
  by (simp add: pulls_def)

lemma pulls_trans:
  assumes "pulls now d a ps b" and "pulls now d b qs c"
  shows "pulls now d a (ps @ qs) c"
  using assms by (auto simp: pulls_def ack_ids_from_append ack_id_add_add is_message_expired_def)

lemma is_message_expired_simps [simp]:
  "is_message_expired (set_key_queue k q a) m now = is_message_expired a m now"
  "is_message_expired (forget_attempts m' a) m now = is_message_expired a m now"
  "is_message_expired (a\<lparr>sa_backlog := b\<rparr>) m now = is_message_expired a m now"
  by (simp_all add: is_message_expired_def set_key_queue_def forget_attempts_def)

lemma set_key_queue_simps [simp]:
  "sa_info (set_key_queue k q a) = sa_info a"
  "sa_outstanding (set_key_queue k q a) = sa_outstanding a"
  "sa_retry_queue (set_key_queue k q a) = sa_retry_queue a"
  "sa_backlog (set_key_queue k q a) = sa_backlog a"
  "sa_keys_in_flight (set_key_queue k q a) = sa_keys_in_flight a"
  "sa_next_ack_id (set_key_queue k q a) = sa_next_ack_id a"
  "sa_effects (set_key_queue k q a) = sa_effects a"
  "sa_deleted (set_key_queue k q a) = sa_deleted a"
  "sa_counters (set_key_queue k q a) = sa_counters a"
  "sa_compiled_filter (set_key_queue k q a) = sa_compiled_filter a"
  "sa_has_topic_manager (set_key_queue k q a) = sa_has_topic_manager a"
  "sa_delivery_attempts (set_key_queue k q a) = sa_delivery_attempts a"
  "sa_ordered_queues (set_key_queue k q a) = fmupd k q (sa_ordered_queues a)"
  "key_queue (set_key_queue k q a) j = (if j = k then q else key_queue a j)"
  by (simp_all add: set_key_queue_def key_queue_def)

lemma forget_attempts_simps [simp]:
  "sa_info (forget_attempts m a) = sa_info a"
  "sa_outstanding (forget_attempts m a) = sa_outstanding a"
  "sa_retry_queue (forget_attempts m a) = sa_retry_queue a"
  "sa_backlog (forget_attempts m a) = sa_backlog a"
  "sa_ordered_queues (forget_attempts m a) = sa_ordered_queues a"
  "sa_keys_in_flight (forget_attempts m a) = sa_keys_in_flight a"
  "sa_next_ack_id (forget_attempts m a) = sa_next_ack_id a"
  "sa_effects (forget_attempts m a) = sa_effects a"
  "sa_deleted (forget_attempts m a) = sa_deleted a"
  "sa_counters (forget_attempts m a) = sa_counters a"
  "sa_compiled_filter (forget_attempts m a) = sa_compiled_filter a"
  "sa_has_topic_manager (forget_attempts m a) = sa_has_topic_manager a"
  "key_queue (forget_attempts m a) k = key_queue a k"
  by (simp_all add: forget_attempts_def key_queue_def)

lemma deliver_simps [simp]:
  "sa_info (snd (deliver d m a)) = sa_info a"
  "sa_retry_queue (snd (deliver d m a)) = sa_retry_queue a"
  "sa_backlog (snd (deliver d m a)) = sa_backlog a"
  "sa_ordered_queues (snd (deliver d m a)) = sa_ordered_queues a"
  "sa_keys_in_flight (snd (deliver d m a)) = sa_keys_in_flight a"
  "sa_effects (snd (deliver d m a)) = sa_effects a"
  "sa_deleted (snd (deliver d m a)) = sa_deleted a"
  "sa_counters (snd (deliver d m a)) = sa_counters a"
  "sa_compiled_filter (snd (deliver d m a)) = sa_compiled_filter a"
  "sa_has_topic_manager (snd (deliver d m a)) = sa_has_topic_manager a"
  "sa_outstanding (snd (deliver d m a)) = tracker_add (fst (deliver d m a)) (sa_outstanding a)"
  "sa_next_ack_id (snd (deliver d m a)) = ack_id_add (sa_next_ack_id a) 1"
  "pm_message (fst (deliver d m a)) = m"
  "pm_deadline (fst (deliver d m a)) = d"
  "pm_ack_id (fst (deliver d m a)) = sa_next_ack_id a"
  by (simp_all add: deliver_def Let_def pulled_message_new_def ack_id_next_def ack_id_add_def)

lemma key_queue_deliver [simp]: "key_queue (snd (deliver d m a)) k = key_queue a k"
  by (simp add: key_queue_def)

lemma pulls_deliver:
  assumes "\<not> is_message_expired a m now"
  shows "pulls now d a [fst (deliver d m a)] (snd (deliver d m a))"
  using assms by (simp add: pulls_def ack_ids_from_def ack_id_add_def)

text \<open>\<open>pulls\<close> does not look at the queues nor at the keys in flight.\<close>

lemma pulls_cong:
  assumes "pulls now d a ps b"
    and "sa_info a' = sa_info a" "sa_retry_queue a' = sa_retry_queue a" "sa_deleted a' = sa_deleted a"
      "sa_effects a' = sa_effects a" "sa_counters a' = sa_counters a"
      "sa_compiled_filter a' = sa_compiled_filter a" "sa_has_topic_manager a' = sa_has_topic_manager a"
      "sa_outstanding a' = sa_outstanding a" "sa_next_ack_id a' = sa_next_ack_id a"
  shows "pulls now d a' ps b"
  using assms by (simp add: pulls_def is_message_expired_def)

section \<open>One ordering key\<close>

abbreviation live_queue :: "instant \<Rightarrow> subscription_actor \<Rightarrow> string \<Rightarrow> topic_message list" where
  "live_queue now a k \<equiv> dropWhile (\<lambda>m. is_message_expired a m now) (key_queue a k)"

text \<open>\<open>pull_key\<close> hands out the head of the live queue, if there is one, and touches no other key.\<close>

lemma pull_key_spec:
  assumes "pull_key now d key res a = (res', a')"
  shows "\<exists>ps. res' = res @ ps \<and> pulls now d a ps a'
    \<and> map pm_message ps = take 1 (live_queue now a key)
    \<and> key_queue a' key = drop 1 (live_queue now a key)
    \<and> (\<forall>k. k \<noteq> key \<longrightarrow> key_queue a' k = key_queue a k)
    \<and> fset (fmdom (sa_ordered_queues a')) \<subseteq> insert key (fset (fmdom (sa_ordered_queues a)))
    \<and> sa_backlog a' = sa_backlog a
    \<and> sa_keys_in_flight a' =
        (if ps = [] then sa_keys_in_flight a else finsert key (sa_keys_in_flight a))"
  using assms
proof (induction now d key res a rule: pull_key.induct)
  case (1 now d key res a)
  show ?case
  proof (cases "key_queue a key")
    case Nil
    then show ?thesis
      using "1.prems" by (auto simp: pull_key.simps [of now d key res a] intro!: exI [of _ "[]"])
  next
    case (Cons h rest)
    let ?a1 = "set_key_queue key rest a"
    show ?thesis
    proof (cases "is_message_expired a h now")
      case True
      then have "pull_key now d key res (forget_attempts h ?a1) = (res', a')"
        using "1.prems" Cons by (simp add: pull_key.simps [of now d key res a])
      from "1.IH" [OF Cons refl _ this] True obtain ps where ps:
        "res' = res @ ps" "pulls now d (forget_attempts h ?a1) ps a'"
        "map pm_message ps = take 1 (live_queue now (forget_attempts h ?a1) key)"
        "key_queue a' key = drop 1 (live_queue now (forget_attempts h ?a1) key)"
        "\<forall>k. k \<noteq> key \<longrightarrow> key_queue a' k = key_queue (forget_attempts h ?a1) k"
        "fset (fmdom (sa_ordered_queues a')) \<subseteq> insert key (fset (fmdom (sa_ordered_queues (forget_attempts h ?a1))))"
        "sa_backlog a' = sa_backlog (forget_attempts h ?a1)"
        "sa_keys_in_flight a' = (if ps = [] then sa_keys_in_flight (forget_attempts h ?a1)
           else finsert key (sa_keys_in_flight (forget_attempts h ?a1)))"
        by auto
      have "pulls now d a ps a'" by (rule pulls_cong [OF ps(2)]) simp_all
      with ps True Cons show ?thesis
        by (intro exI [of _ ps]) auto
    next
      case False
      let ?a2 = "snd (deliver d h ?a1)"
      let ?p = "fst (deliver d h ?a1)"
      have eq: "res' = res @ [?p]" "a' = ?a2\<lparr>sa_keys_in_flight := finsert key (sa_keys_in_flight ?a2)\<rparr>"
        using "1.prems" Cons False by (auto simp: pull_key.simps [of now d key res a] split_def Let_def)
      have "pulls now d ?a1 [?p] ?a2" using False by (intro pulls_deliver) simp
      then have "pulls now d a [?p] a'"
        unfolding eq(2) by (simp add: pulls_def is_message_expired_def)
      moreover have "key_queue a' k = key_queue ?a2 k" for k
        unfolding eq(2) by (simp add: key_queue_def)
      ultimately show ?thesis
        using eq False Cons by (intro exI [of _ "[?p]"]) auto
    qed
  qed
qed

section \<open>All ordering keys\<close>

text \<open>\<open>serves now a ks a'\<close>: each of the keys \<open>ks\<close> gave up its expired heads and its live head.\<close>

definition serves ::
    "instant \<Rightarrow> subscription_actor \<Rightarrow> string list \<Rightarrow> subscription_actor \<Rightarrow> bool" where
  "serves now a ks a' \<longleftrightarrow>
     (\<forall>k. key_queue a' k = (if k \<in> set ks then drop 1 (live_queue now a k) else key_queue a k))
     \<and> fset (fmdom (sa_ordered_queues a')) \<subseteq> set ks \<union> fset (fmdom (sa_ordered_queues a))
     \<and> fset (sa_keys_in_flight a')
         = fset (sa_keys_in_flight a) \<union> {k \<in> set ks. live_queue now a k \<noteq> []}
     \<and> sa_backlog a' = sa_backlog a"

definition served :: "instant \<Rightarrow> subscription_actor \<Rightarrow> string list \<Rightarrow> topic_message list" where
  "served now a ks = concat (map (\<lambda>k. take 1 (live_queue now a k)) ks)"

lemma pulls_expired: "pulls now d a ps b \<Longrightarrow> is_message_expired b m t = is_message_expired a m t"
  by (simp add: pulls_def is_message_expired_def)

lemma pull_keys_spec:
  assumes "pull_keys capacity now d keys res a = (res', a')" and "distinct keys"
  shows "\<exists>ps n. res' = res @ ps \<and> pulls now d a ps a'
    \<and> map pm_message ps = served now a (take n keys) \<and> serves now a (take n keys) a'
    \<and> (length res \<le> capacity \<longrightarrow> length res' \<le> capacity)
    \<and> n \<le> length keys \<and> (n < length keys \<longrightarrow> capacity \<le> length res')"
  using assms
proof (induction keys arbitrary: res a)
  case Nil
  then show ?case
    by (auto simp: served_def serves_def intro!: exI [of _ "[]"])
next
  case (Cons key keys)
  show ?case
  proof (cases "capacity \<le> length res")
    case True
    then show ?thesis
      using Cons.prems by (auto simp: served_def serves_def intro!: exI [of _ "[]"] exI [of _ 0])
  next
    case False
    obtain r1 a1 where one: "pull_key now d key res a = (r1, a1)" by fastforce
    obtain ps where ps: "r1 = res @ ps" "pulls now d a ps a1"
      "map pm_message ps = take 1 (live_queue now a key)"
      "key_queue a1 key = drop 1 (live_queue now a key)"
      "\<forall>k. k \<noteq> key \<longrightarrow> key_queue a1 k = key_queue a k"
      "fset (fmdom (sa_ordered_queues a1)) \<subseteq> insert key (fset (fmdom (sa_ordered_queues a)))"
      "sa_backlog a1 = sa_backlog a"
      "sa_keys_in_flight a1 =
        (if ps = [] then sa_keys_in_flight a else finsert key (sa_keys_in_flight a))"
      using pull_key_spec [OF one] by blast
    have len: "length ps \<le> 1" using arg_cong [OF ps(3), of length] by simp
    have empty: "ps = [] \<longleftrightarrow> live_queue now a key = []"
      using ps(3) by (cases "live_queue now a key") auto
    have "pull_keys capacity now d keys r1 a1 = (res', a')" and "distinct keys"
      using Cons.prems False one by simp_all
    from Cons.IH [OF this] obtain qs n where qs: "res' = r1 @ qs" "pulls now d a1 qs a'"
      "map pm_message qs = served now a1 (take n keys)" "serves now a1 (take n keys) a'"
      "length r1 \<le> capacity \<longrightarrow> length res' \<le> capacity" "n \<le> length keys"
      "n < length keys \<longrightarrow> capacity \<le> length res'"
      by blast
    have notin: "key \<notin> set (take n keys)"
      using Cons.prems(2) by (auto dest: in_set_takeD)
    then have queue: "key_queue a1 k = key_queue a k" if "k \<in> set (take n keys)" for k
      using ps(5) that by metis
    note expired = pulls_expired [OF ps(2)]
    have "served now a1 (take n keys) = served now a (take n keys)"
      unfolding served_def expired using queue by (metis (mono_tags, lifting) map_eq_conv)
    then have "map pm_message (ps @ qs) = served now a (take (Suc n) (key # keys))"
      using ps(3) qs(3) by (simp add: served_def)
    moreover have "serves now a (take (Suc n) (key # keys)) a'"
      using qs(4) ps(4-8) queue empty notin unfolding serves_def expired
      by (auto split: if_splits)
    ultimately show ?thesis
      using ps(1) qs pulls_trans [OF ps(2) qs(2)] False len
      by (intro exI [of _ "ps @ qs"] exI [of _ "Suc n"]) auto
  qed
qed

section \<open>The backlog\<close>

text \<open>What taking messages off the backlog leaves: a prefix is consumed, its live messages are delivered,
  and the loop stops at the capacity or at the end of the backlog.\<close>

definition drains ::
    "nat \<Rightarrow> instant \<Rightarrow> ack_deadline \<Rightarrow> pulled_message list \<Rightarrow> subscription_actor
     \<Rightarrow> pulled_message list \<Rightarrow> subscription_actor \<Rightarrow> bool" where
  "drains capacity now d res a res' a' \<longleftrightarrow>
     (\<exists>ps n. res' = res @ ps \<and> pulls now d a ps a'
        \<and> map pm_message ps
            = filter (\<lambda>m. \<not> is_message_expired a m now) (take n (ml_list (sa_backlog a)))
        \<and> ml_list (sa_backlog a') = drop n (ml_list (sa_backlog a))
        \<and> sa_ordered_queues a' = sa_ordered_queues a \<and> sa_keys_in_flight a' = sa_keys_in_flight a
        \<and> (length res \<le> capacity \<longrightarrow> length res' \<le> capacity)
        \<and> (ml_list (sa_backlog a') \<noteq> [] \<longrightarrow> capacity \<le> length res'))"

lemma drains_stop:
  assumes "capacity \<le> length res \<or> ml_list (sa_backlog a) = []"
  shows "drains capacity now d res a res a"
  unfolding drains_def using assms by (intro exI [of _ "[]"] exI [of _ 0]) auto

lemma drains_expired:
  assumes list: "ml_list (sa_backlog a) = m # ms" and expired: "is_message_expired a m now"
    and rest: "drains capacity now d res
      (forget_attempts m (a\<lparr>sa_backlog := (sa_backlog a)\<lparr>ml_list := ms\<rparr>\<rparr>)) res' a'"
  shows "drains capacity now d res a res' a'"
proof -
  let ?a1 = "forget_attempts m (a\<lparr>sa_backlog := (sa_backlog a)\<lparr>ml_list := ms\<rparr>\<rparr>)"
  from rest obtain ps n where "res' = res @ ps" "pulls now d ?a1 ps a'"
    "map pm_message ps = filter (\<lambda>x. \<not> is_message_expired a x now) (take n ms)"
    "ml_list (sa_backlog a') = drop n ms"
    "sa_ordered_queues a' = sa_ordered_queues a" "sa_keys_in_flight a' = sa_keys_in_flight a"
    "length res \<le> capacity \<longrightarrow> length res' \<le> capacity"
    "ml_list (sa_backlog a') \<noteq> [] \<longrightarrow> capacity \<le> length res'"
    unfolding drains_def by (elim exE conjE) (rule that, simp_all)
  moreover from this(2) have "pulls now d a ps a'" by (rule pulls_cong) simp_all
  ultimately show ?thesis
    unfolding drains_def using list expired by (intro exI [of _ ps] exI [of _ "Suc n"]) auto
qed

lemma drains_live:
  fixes a :: subscription_actor
  defines "a1 \<equiv> \<lambda>ms. a\<lparr>sa_backlog := (sa_backlog a)\<lparr>ml_list := ms\<rparr>\<rparr>"
  assumes list: "ml_list (sa_backlog a) = m # ms" and live: "\<not> is_message_expired a m now"
    and space: "length res < capacity" and delivered: "deliver d m (a1 ms) = (p, a2)"
    and rest: "drains capacity now d (res @ [p]) a2 res' a'"
  shows "drains capacity now d res a res' a'"
proof -
  have p: "p = fst (deliver d m (a1 ms))" "a2 = snd (deliver d m (a1 ms))" using delivered by simp_all
  have "is_message_expired a2 x now = is_message_expired a x now" for x
    by (simp add: p a1_def is_message_expired_def)
  with rest obtain ps n where ps: "res' = (res @ [p]) @ ps" "pulls now d a2 ps a'"
    "map pm_message ps = filter (\<lambda>x. \<not> is_message_expired a x now) (take n ms)"
    "ml_list (sa_backlog a') = drop n ms"
    "sa_ordered_queues a' = sa_ordered_queues a" "sa_keys_in_flight a' = sa_keys_in_flight a"
    "length (res @ [p]) \<le> capacity \<longrightarrow> length res' \<le> capacity"
    "ml_list (sa_backlog a') \<noteq> [] \<longrightarrow> capacity \<le> length res'"
    unfolding drains_def by (elim exE conjE) (rule that, simp_all add: p a1_def)
  have "pulls now d (a1 ms) [p] a2"
    unfolding p using live by (intro pulls_deliver) (simp add: a1_def)
  then have "pulls now d a [p] a2" by (rule pulls_cong) (simp_all add: a1_def)
  from pulls_trans [OF this ps(2)] have "pulls now d a (p # ps) a'" by simp
  moreover have "pm_message p = m" by (simp add: p)
  ultimately show ?thesis
    unfolding drains_def using ps(1,3-8) live list space
    by (intro exI [of _ "p # ps"] exI [of _ "Suc n"]) auto
qed

lemma pull_backlog_drains:
  assumes "pull_backlog capacity now d res a = (res', a')"
  shows "drains capacity now d res a res' a'"
  using assms
proof (induction capacity now d res a rule: pull_backlog.induct)
  case (1 capacity now d res a)
  note unfold = pull_backlog.simps [of capacity now d res a]
  show ?case
  proof (cases "length res < capacity \<and> ml_list (sa_backlog a) \<noteq> []")
    case False
    then show ?thesis
      using "1.prems" drains_stop [of capacity res a] by (auto simp: unfold split: if_splits)
  next
    case True
    then obtain m ms where list: "ml_list (sa_backlog a) = m # ms" by (cases "ml_list (sa_backlog a)") auto
    let ?b = "(sa_backlog a)\<lparr>ml_list := ms\<rparr>"
    have pop: "messages_pop_front (sa_backlog a) = Some (m, ?b)" using list by simp
    show ?thesis
    proof (cases "is_message_expired a m now")
      case expired: True
      then have "pull_backlog capacity now d res (forget_attempts m (a\<lparr>sa_backlog := ?b\<rparr>)) = (res', a')"
        using "1.prems" True pop by (simp add: unfold)
      from "1.IH"(1) [OF _ pop refl refl _ this] True expired show ?thesis
        by (intro drains_expired [OF list]) simp_all
    next
      case live: False
      obtain p a2 where p: "deliver d m (a\<lparr>sa_backlog := ?b\<rparr>) = (p, a2)" by fastforce
      then have "pull_backlog capacity now d (res @ [p]) a2 = (res', a')"
        using "1.prems" True pop live by (simp add: unfold)
      from "1.IH"(2) [OF _ pop refl refl _ p [symmetric] this] True live show ?thesis
        by (intro drains_live [OF list _ _ p]) simp_all
    qed
  qed
qed

lemmas pull_backlog_spec = pull_backlog_drains [unfolded drains_def]

section \<open>The whole pull\<close>

text \<open>The keys served are the first pullable keys in ascending order.\<close>

lemma pullable_keys_iff:
  "k |\<in>| pullable_keys a \<longleftrightarrow> k |\<notin>| sa_keys_in_flight a \<and> key_queue a k \<noteq> []"
  by (auto simp: pullable_keys_def key_queue_def fmdom_iff_Some split: option.splits)

lemma sorted_keys [simp]:
  "set (sorted_list_of_fset s) = fset s" "distinct (sorted_list_of_fset s)"
  "sorted (sorted_list_of_fset s)"
  by (simp_all add: sorted_list_of_fset.rep_eq)

lemma actor_pull_spec:
  assumes pull: "actor_pull_messages env max_count max_outstanding a = (Inr result, a')"
    and active: "\<not> sa_deleted a" "pull_capacity max_count max_outstanding a \<noteq> 0"
  obtains ks n b where
    "pulls (env_now env) (ack_deadline_new (env_now env + int (si_ack_deadline (sa_info a)))) a result b"
    "sa_outstanding a' = sa_outstanding b" "sa_next_ack_id a' = sa_next_ack_id b"
    "sa_retry_queue a' = sa_retry_queue b" "sa_info a' = sa_info b" "sa_deleted a' = sa_deleted b"
    "sa_ordered_queues a' = sa_ordered_queues b" "sa_keys_in_flight a' = sa_keys_in_flight b"
    "sa_backlog a' = sa_backlog b"
    "map pm_message result = served (env_now env) a ks
       @ filter (\<lambda>m. \<not> is_message_expired a m (env_now env)) (take n (ml_list (sa_backlog a)))"
    "serves (env_now env) a ks (b\<lparr>sa_backlog := sa_backlog a\<rparr>)"
    "ml_list (sa_backlog a') = drop n (ml_list (sa_backlog a))"
    "distinct ks" "set ks \<subseteq> fset (pullable_keys a)"
    "length result \<le> pull_capacity max_count max_outstanding a"
    "ml_list (sa_backlog a') \<noteq> [] \<Longrightarrow> length result = pull_capacity max_count max_outstanding a"
    "length result < pull_capacity max_count max_outstanding a \<Longrightarrow> set ks = fset (pullable_keys a)"
proof -
  let ?now = "env_now env" and ?cap = "pull_capacity max_count max_outstanding a"
  let ?d = "ack_deadline_new (?now + int (si_ack_deadline (sa_info a)))"
  let ?keys = "sorted_list_of_fset (pullable_keys a)"
  have detached: "\<not> si_detached (sa_info a)"
    using pull active by (auto simp: actor_pull_messages_def split: if_splits)
  obtain r1 a1 where keys: "pull_keys ?cap ?now ?d ?keys [] a = (r1, a1)" by fastforce
  obtain r2 a2 where backlog: "pull_backlog ?cap ?now ?d r1 a1 = (r2, a2)" by fastforce
  have result: "result = r2"
    "a' = add_pulled (length r2) (if more_pending a2 then emit NotifyNewMessagesAvailable a2 else a2)"
    using pull active detached keys backlog by (auto simp: actor_pull_messages_def Let_def)
  then have fields: "sa_outstanding a' = sa_outstanding a2" "sa_next_ack_id a' = sa_next_ack_id a2"
    "sa_retry_queue a' = sa_retry_queue a2" "sa_info a' = sa_info a2" "sa_deleted a' = sa_deleted a2"
    "sa_ordered_queues a' = sa_ordered_queues a2" "sa_keys_in_flight a' = sa_keys_in_flight a2"
    "sa_backlog a' = sa_backlog a2"
    by (simp_all add: add_pulled_def emit_def)
  obtain ps i where ps: "r1 = ps" "pulls ?now ?d a ps a1"
    "map pm_message ps = served ?now a (take i ?keys)" "serves ?now a (take i ?keys) a1"
    "length r1 \<le> ?cap" "i < length ?keys \<longrightarrow> ?cap \<le> length r1"
    using pull_keys_spec [OF keys] by auto
  obtain qs n where qs: "r2 = r1 @ qs" "pulls ?now ?d a1 qs a2"
    "map pm_message qs = filter (\<lambda>m. \<not> is_message_expired a1 m ?now) (take n (ml_list (sa_backlog a1)))"
    "ml_list (sa_backlog a2) = drop n (ml_list (sa_backlog a1))"
    "sa_ordered_queues a2 = sa_ordered_queues a1" "sa_keys_in_flight a2 = sa_keys_in_flight a1"
    "length r1 \<le> ?cap \<longrightarrow> length r2 \<le> ?cap"
    "ml_list (sa_backlog a2) \<noteq> [] \<longrightarrow> ?cap \<le> length r2"
    using pull_backlog_spec [OF backlog] by blast
  have same: "sa_backlog a1 = sa_backlog a" using ps(4) by (simp add: serves_def)
  have "key_queue a2 k = key_queue a1 k" for k using qs(5) by (simp add: key_queue_def)
  then have "serves ?now a (take i ?keys) (a2\<lparr>sa_backlog := sa_backlog a\<rparr>)"
    using ps(4) qs(5,6) by (simp add: serves_def key_queue_def)
  moreover have "map pm_message r2 = served ?now a (take i ?keys)
      @ filter (\<lambda>m. \<not> is_message_expired a m ?now) (take n (ml_list (sa_backlog a)))"
    using ps(1,3) qs(1,3) same pulls_expired [OF ps(2)] by simp
  moreover have "set (take i ?keys) \<subseteq> fset (pullable_keys a)"
    by (auto dest: in_set_takeD)
  moreover have "set (take i ?keys) = fset (pullable_keys a)" if "length r2 < ?cap"
    using that ps(6) qs(1) by (cases "i < length ?keys") auto
  ultimately show thesis
    using that [of a2 "take i ?keys" n] fields result(1) ps qs same
      pulls_trans [OF ps(2) qs(2)] by (auto simp: distinct_take)
qed

end
