(* ===== verification/Actor_Invariant.thy ===== *)
theory Actor_Invariant
  imports Actor_Pull
begin

text \<open>
  The invariant of the subscription actor and the accounting of its messages. \<open>stored\<close> is the
  multiset of all messages the actor holds: backlog, per-key queues, outstanding messages and
  messages waiting for their backoff. \<open>actor_inv\<close> says that the two timers are consistent, that
  outstanding ack ids were issued, that each per-key queue holds only messages of its key, and that
  of the messages with one ordering key at most one is out (outstanding or waiting for its
  backoff), in which case the key is in flight. The first argument of \<open>actor_inv\<close> holds the
  messages a handler has in hand between taking them from a timer and routing them.
\<close>

section \<open>Definitions\<close>

definition held :: "subscription_actor \<Rightarrow> topic_message multiset" where
  "held a = payloads (sa_outstanding a) + retry_vals (sa_retry_queue a)"

definition queued :: "subscription_actor \<Rightarrow> topic_message multiset" where
  "queued a = (\<Sum>k \<in> fset (fmdom (sa_ordered_queues a)). mset (key_queue a k))"

definition stored :: "subscription_actor \<Rightarrow> topic_message multiset" where
  "stored a = mset (ml_list (sa_backlog a)) + queued a + held a"

definition keyed :: "string \<Rightarrow> topic_message multiset \<Rightarrow> topic_message multiset" where
  "keyed k M = filter_mset (\<lambda>m. tm_ordering_key m = Some k) M"

definition exclusive :: "topic_message multiset \<Rightarrow> subscription_actor \<Rightarrow> bool" where
  "exclusive M a \<longleftrightarrow> (\<forall>k. size (keyed k (held a + M)) \<le> 1
     \<and> (keyed k (held a + M) \<noteq> {#} \<longrightarrow> k |\<in>| sa_keys_in_flight a))"

abbreviation keeps_order :: "subscription_actor \<Rightarrow> bool" where
  "keeps_order a \<equiv> si_enable_message_ordering (sa_info a)"

definition routed :: "subscription_actor \<Rightarrow> bool" where
  "routed a \<longleftrightarrow>
     (\<forall>k. \<forall>m \<in> set (key_queue a k). tm_ordering_key m = Some k)
     \<and> (if keeps_order a then (\<forall>m \<in> set (ml_list (sa_backlog a)). tm_ordering_key m = None)
        else (\<forall>k. key_queue a k = []) \<and> sa_keys_in_flight a = {||})"

definition issued :: "subscription_actor \<Rightarrow> bool" where
  "issued a \<longleftrightarrow> (\<forall>i m. fmlookup (om_messages (sa_outstanding a)) i = Some m \<longrightarrow> i < sa_next_ack_id a)"

definition actor_inv :: "topic_message multiset \<Rightarrow> subscription_actor \<Rightarrow> bool" where
  "actor_inv M a \<longleftrightarrow> tracker_inv (sa_outstanding a) \<and> retry_inv (sa_retry_queue a) \<and> issued a
     \<and> routed a \<and> (keeps_order a \<longrightarrow> exclusive M a)"

text \<open>The identifier counters are not about to wrap: 65536 bounds a batch of pulled messages, and
  the outstanding messages bound a batch that goes to the retry queue.\<close>

definition counters_have_room :: "subscription_actor \<Rightarrow> bool" where
  "counters_have_room a \<longleftrightarrow> unat (ack_value (sa_next_ack_id a)) + 65536 < 2 ^ 64
     \<and> unat (rq_next_seq (sa_retry_queue a)) + tracker_len (sa_outstanding a) < 2 ^ 64"

section \<open>Frame lemmas\<close>

lemma actor_cong:
  assumes "sa_outstanding b = sa_outstanding a" "sa_retry_queue b = sa_retry_queue a"
    "sa_ordered_queues b = sa_ordered_queues a" "sa_backlog b = sa_backlog a"
  shows "held b = held a" "queued b = queued a" "stored b = stored a"
  using assms by (simp_all add: held_def queued_def stored_def key_queue_def)

lemma actor_inv_cong:
  assumes "sa_outstanding b = sa_outstanding a" "sa_retry_queue b = sa_retry_queue a"
    "sa_ordered_queues b = sa_ordered_queues a" "sa_backlog b = sa_backlog a"
    "sa_next_ack_id b = sa_next_ack_id a" "sa_keys_in_flight b = sa_keys_in_flight a"
    "keeps_order b = keeps_order a"
  shows "actor_inv M b = actor_inv M a"
  using assms by (simp add: actor_inv_def issued_def routed_def exclusive_def held_def key_queue_def)

lemma frame_simps [simp]:
  "actor_inv M (emit e a) = actor_inv M a" "stored (emit e a) = stored a"
  "actor_inv M (a\<lparr>sa_counters := c\<rparr>) = actor_inv M a" "stored (a\<lparr>sa_counters := c\<rparr>) = stored a"
  "actor_inv M (a\<lparr>sa_deleted := d\<rparr>) = actor_inv M a" "stored (a\<lparr>sa_deleted := d\<rparr>) = stored a"
  "actor_inv M (forget_attempts m a) = actor_inv M a" "stored (forget_attempts m a) = stored a"
  "actor_inv M (forget_ids ids a) = actor_inv M a" "stored (forget_ids ids a) = stored a"
  "actor_inv M (add_pulled n a) = actor_inv M a" "stored (add_pulled n a) = stored a"
  "actor_inv M (try_publish_dead_lettered env ds a) = actor_inv M a"
  "stored (try_publish_dead_lettered env ds a) = stored a"
  "actor_inv M (snd (bump_attempt m a)) = actor_inv M a" "stored (snd (bump_attempt m a)) = stored a"
  by (rule actor_inv_cong actor_cong(3);
      simp add: emit_def forget_attempts_def forget_ids_def add_pulled_def
        try_publish_dead_lettered_def bump_attempt_def Let_def split: option.splits)+

lemma emit_fields [simp]:
  "sa_info (emit e a) = sa_info a" "sa_backlog (emit e a) = sa_backlog a"
  "sa_outstanding (emit e a) = sa_outstanding a" "sa_retry_queue (emit e a) = sa_retry_queue a"
  "sa_next_ack_id (emit e a) = sa_next_ack_id a" "sa_deleted (emit e a) = sa_deleted a"
  "sa_ordered_queues (emit e a) = sa_ordered_queues a" "sa_keys_in_flight (emit e a) = sa_keys_in_flight a"
  "sa_effects (emit e a) = sa_effects a @ [e]" "sa_counters (emit e a) = sa_counters a"
  "sa_delivery_attempts (emit e a) = sa_delivery_attempts a"
  by (simp_all add: emit_def)

section \<open>Queues and keys\<close>

lemma keyed_union [simp]: "keyed k (M + N) = keyed k M + keyed k N"
  by (simp add: keyed_def)

lemma keyed_add [simp]:
  "keyed k (add_mset m M) = (if tm_ordering_key m = Some k then add_mset m (keyed k M) else keyed k M)"
  "keyed k {#} = {#}"
  by (simp_all add: keyed_def)

lemma keyed_none: "(\<forall>m \<in># M. tm_ordering_key m \<noteq> Some k) \<Longrightarrow> keyed k M = {#}"
  by (auto simp: keyed_def filter_mset_eq_conv)

lemma queued_sum:
  assumes "finite K" and "fset (fmdom (sa_ordered_queues a)) \<subseteq> K"
  shows "queued a = (\<Sum>k \<in> K. mset (key_queue a k))"
  unfolding queued_def using assms
  by (intro sum.mono_neutral_left) (auto simp: key_queue_def fmdom_iff_Some split: option.splits)

lemma queued_set_key_queue:
  "queued (set_key_queue k q a) + mset (key_queue a k) = queued a + mset q"
proof -
  let ?K = "insert k (fset (fmdom (sa_ordered_queues a)))"
  have K: "finite ?K" by simp
  have "queued (set_key_queue k q a) = mset q + (\<Sum>j \<in> ?K - {k}. mset (key_queue a j))"
    using queued_sum [of ?K "set_key_queue k q a"] by (simp add: sum.remove [of ?K k])
  moreover have "queued a = mset (key_queue a k) + (\<Sum>j \<in> ?K - {k}. mset (key_queue a j))"
    using queued_sum [of ?K a] by (auto simp: sum.remove [of ?K k])
  ultimately show ?thesis by simp
qed

lemma queued_append: "queued (set_key_queue k (key_queue a k @ ms) a) = queued a + mset ms"
  using queued_set_key_queue [of k "key_queue a k @ ms" a] by simp

lemma queued_prepend: "queued (set_key_queue k (m # key_queue a k) a) = add_mset m (queued a)"
  using queued_set_key_queue [of k "m # key_queue a k" a] by simp

lemma queued_other_fields [simp]:
  "queued (a\<lparr>sa_keys_in_flight := x\<rparr>) = queued a" "queued (a\<lparr>sa_backlog := b\<rparr>) = queued a"
  "queued (a\<lparr>sa_outstanding := t\<rparr>) = queued a" "queued (a\<lparr>sa_retry_queue := r\<rparr>) = queued a"
  "held (a\<lparr>sa_keys_in_flight := x\<rparr>) = held a" "held (a\<lparr>sa_backlog := b\<rparr>) = held a"
  "held (set_key_queue k q a) = held a" "held (forget_attempts m a) = held a"
  "queued (forget_attempts m a) = queued a"
  "key_queue (a\<lparr>sa_keys_in_flight := x\<rparr>) k = key_queue a k"
  "key_queue (a\<lparr>sa_backlog := b\<rparr>) k = key_queue a k"
  "key_queue (a\<lparr>sa_outstanding := t\<rparr>) k = key_queue a k"
  "key_queue (a\<lparr>sa_retry_queue := r\<rparr>) k = key_queue a k"
  by (simp_all add: queued_def held_def key_queue_def set_key_queue_def)

section \<open>Starting and posting\<close>

lemma actor_start_inv [simp, invariant_intros]:
  "actor_inv {#} (actor_start i info tm)" "stored (actor_start i info tm) = {#}"
  by (simp_all add: actor_inv_def actor_start_def issued_def routed_def exclusive_def held_def
      stored_def queued_def key_queue_def messages_new_def tracker_new_def retry_new_def
      tracker_inv_def retry_inv_def bts.invar_empty)

lemma post_one_inv:
  assumes "actor_inv M a"
  shows "actor_inv M (post_one m a)" "stored (post_one m a) = add_mset m (stored a)"
    "keeps_order (post_one m a) = keeps_order a"
    "sa_compiled_filter (post_one m a) = sa_compiled_filter a"
proof -
  show "actor_inv M (post_one m a)"
    using assms by (auto simp: post_one_def actor_inv_def issued_def routed_def exclusive_def
        messages_append_def split: option.splits bool.splits)
  show "stored (post_one m a) = add_mset m (stored a)"
    by (auto simp: post_one_def stored_def messages_append_def queued_append
        split: option.splits bool.splits)
  show "keeps_order (post_one m a) = keeps_order a" "sa_compiled_filter (post_one m a) = sa_compiled_filter a"
    by (auto simp: post_one_def split: option.splits bool.splits)
qed

lemma post_loop_inv:
  "actor_inv M a \<Longrightarrow> post_loop ms b a = (b', a') \<Longrightarrow>
   actor_inv M a' \<and> stored a' = stored a + mset (filter (filter_accepts a) ms)
   \<and> (b' \<longleftrightarrow> b \<or> filter (filter_accepts a) ms \<noteq> [])"
proof (induction ms arbitrary: b a)
  case (Cons m ms)
  have same: "filter_accepts (post_one m a) = filter_accepts a"
    using post_one_inv(4) [OF Cons.prems(1)] by (auto simp: filter_accepts_def fun_eq_iff)
  show ?case
    using Cons.IH [OF post_one_inv(1) [OF Cons.prems(1)], of True m] Cons.IH [OF Cons.prems(1), of b]
      Cons.prems post_one_inv(2) [OF Cons.prems(1), of m] same
    by (auto split: if_splits)
qed simp

section \<open>Pulling\<close>

lemma of_nat_word_less: "unat v + n < 2 ^ 64 \<Longrightarrow> unat (v + of_nat n :: u64) = unat v + n"
  by (simp add: unat_word_ariths unat_of_nat)

lemma ack_ids_from_fresh:
  assumes "unat (ack_value i) + n < 2 ^ 64"
  shows "distinct (ack_ids_from i n)"
    "\<And>j. j \<in> set (ack_ids_from i n) \<Longrightarrow> i \<le> j \<and> j < ack_id_add i n"
    "i \<le> ack_id_add i n"
proof -
  have val: "unat (ack_value i + of_nat j) = unat (ack_value i) + j" if "j \<le> n" for j
    using that assms by (intro of_nat_word_less) simp
  then show "i \<le> ack_id_add i n"
    by (simp add: less_eq_ack_id_def ack_id_add_def word_le_nat_alt)
  show "i \<le> j \<and> j < ack_id_add i n" if "j \<in> set (ack_ids_from i n)" for j
    using that val by (auto simp: ack_ids_from_def less_eq_ack_id_def less_ack_id_def ack_id_add_def
        word_le_nat_alt word_less_nat_alt)
  have "inj_on (\<lambda>j. AckId (ack_value i + of_nat j)) (set [0..<n])"
    by (rule inj_onI) (metis ack_id.sel add_left_cancel atLeastLessThan_iff less_imp_le set_upt val)
  then show "distinct (ack_ids_from i n)"
    by (simp add: ack_ids_from_def distinct_map)
qed

lemma tracker_adds:
  "tracker_inv t \<Longrightarrow> distinct (map pm_ack_id ps) \<Longrightarrow>
   (\<And>p. p \<in> set ps \<Longrightarrow> fmlookup (om_messages t) (pm_ack_id p) = None) \<Longrightarrow>
   tracker_inv (fold tracker_add ps t)
   \<and> tracker_vals (fold tracker_add ps t) = mset ps + tracker_vals t
   \<and> (\<forall>i m. fmlookup (om_messages (fold tracker_add ps t)) i = Some m \<longrightarrow>
        fmlookup (om_messages t) i = Some m \<or> m \<in> set ps \<and> pm_ack_id m = i)"
proof (induction ps arbitrary: t)
  case (Cons p ps)
  have fresh: "fmlookup (om_messages t) (pm_ack_id p) = None" using Cons.prems(3) by simp
  have "fmlookup (om_messages (tracker_add p t)) (pm_ack_id x) = None" if "x \<in> set ps" for x
    using that Cons.prems(2,3) by (auto simp: image_iff)
  from Cons.IH [OF tracker_add_inv [OF Cons.prems(1) fresh] _ this] Cons.prems(2)
  show ?case
    using fmvals_fresh [OF fresh, of p] by (auto split: if_splits)
qed simp

lemma pulls_tracker:
  assumes pulls: "pulls now d a ps b" and t: "tracker_inv (sa_outstanding a)" "issued a"
    and room: "unat (ack_value (sa_next_ack_id a)) + length ps < 2 ^ 64"
  shows "tracker_inv (sa_outstanding b)" "issued b"
    "tracker_vals (sa_outstanding b) = mset ps + tracker_vals (sa_outstanding a)"
    "held b = held a + mset (map pm_message ps)"
proof -
  note fresh = ack_ids_from_fresh [OF room]
  have out: "sa_outstanding b = fold tracker_add ps (sa_outstanding a)"
    and nxt: "sa_next_ack_id b = ack_id_add (sa_next_ack_id a) (length ps)"
    and ids: "map pm_ack_id ps = ack_ids_from (sa_next_ack_id a) (length ps)"
    and retry: "sa_retry_queue b = sa_retry_queue a"
    using pulls by (simp_all add: pulls_def)
  have id: "sa_next_ack_id a \<le> pm_ack_id p \<and> pm_ack_id p < sa_next_ack_id b" if "p \<in> set ps" for p
    using that fresh(2) [of "pm_ack_id p"] ids nxt by (metis image_eqI list.set_map)
  have none: "fmlookup (om_messages (sa_outstanding a)) (pm_ack_id p) = None" if "p \<in> set ps" for p
    using id [OF that] t(2) unfolding issued_def by (metis leD option.exhaust)
  have adds: "tracker_inv (sa_outstanding b)
      \<and> tracker_vals (sa_outstanding b) = mset ps + tracker_vals (sa_outstanding a)
      \<and> (\<forall>i m. fmlookup (om_messages (sa_outstanding b)) i = Some m \<longrightarrow>
           fmlookup (om_messages (sa_outstanding a)) i = Some m \<or> m \<in> set ps \<and> pm_ack_id m = i)"
    unfolding out using fresh(1) none by (intro tracker_adds t(1)) (auto simp: ids)
  then show "tracker_inv (sa_outstanding b)"
    "tracker_vals (sa_outstanding b) = mset ps + tracker_vals (sa_outstanding a)" by blast+
  then show "held b = held a + mset (map pm_message ps)"
    using retry by (simp add: held_def)
  show "issued b"
    unfolding issued_def
  proof (intro allI impI)
    fix i m
    assume "fmlookup (om_messages (sa_outstanding b)) i = Some m"
    with adds consider "fmlookup (om_messages (sa_outstanding a)) i = Some m"
      | "m \<in> set ps" "pm_ack_id m = i" by blast
    then show "i < sa_next_ack_id b"
    proof cases
      case 1
      then show ?thesis using t(2) fresh(3) nxt unfolding issued_def by (metis order_less_le_trans)
    next
      case 2
      then show ?thesis using id by blast
    qed
  qed
qed

lemma live_queue_subset: "m \<in> set (live_queue now a k) \<Longrightarrow> m \<in> set (key_queue a k)"
  by (rule set_dropWhileD)

lemma served_keyed:
  assumes "routed a" and "distinct ks"
  shows "keyed k (mset (served now a ks)) = (if k \<in> set ks then mset (take 1 (live_queue now a k)) else {#})"
  using assms(2)
proof (induction ks)
  case (Cons j ks)
  have key: "tm_ordering_key m = Some j" if "m \<in> set (take 1 (live_queue now a j))" for m
    using that assms(1) live_queue_subset by (auto simp: routed_def dest!: in_set_takeD)
  then have "keyed k (mset (take 1 (live_queue now a j)))
      = (if k = j then mset (take 1 (live_queue now a j)) else {#})"
    by (auto simp: keyed_def filter_mset_eq_conv)
  with Cons show ?case by (auto simp: served_def)
qed (simp add: served_def)

lemma queued_serves:
  assumes "serves now a ks b" and "distinct ks"
  shows "queued a = queued b + mset (served now a ks)
    + (\<Sum>k \<in> set ks. mset (takeWhile (\<lambda>m. is_message_expired a m now) (key_queue a k)))"
proof -
  let ?K = "set ks \<union> fset (fmdom (sa_ordered_queues a)) \<union> fset (fmdom (sa_ordered_queues b))"
  let ?dead = "\<lambda>k. mset (takeWhile (\<lambda>m. is_message_expired a m now) (key_queue a k))"
  let ?head = "\<lambda>k. mset (take 1 (live_queue now a k))"
  have split: "mset (key_queue a k) = mset (key_queue b k)
      + (if k \<in> set ks then ?head k + ?dead k else {#})" for k
  proof (cases "k \<in> set ks")
    case True
    then have "key_queue b k = drop 1 (live_queue now a k)" using assms(1) by (simp add: serves_def)
    moreover have "mset (take 1 (live_queue now a k)) + mset (drop 1 (live_queue now a k))
        = mset (live_queue now a k)" by (metis append_take_drop_id mset_append)
    moreover have "mset (key_queue a k) = ?dead k + mset (live_queue now a k)"
      by (metis mset_append takeWhile_dropWhile_id)
    ultimately show ?thesis using True by (simp add: ac_simps)
  qed (use assms(1) in \<open>simp add: serves_def\<close>)
  have "queued a = (\<Sum>k \<in> ?K. mset (key_queue b k) + (if k \<in> set ks then ?head k + ?dead k else {#}))"
    using queued_sum [of ?K a] split by auto
  also have "\<dots> = queued b + (\<Sum>k \<in> ?K. if k \<in> set ks then ?head k + ?dead k else {#})"
    using queued_sum [of ?K b] by (auto simp: sum.distrib)
  also have "(\<Sum>k \<in> ?K. if k \<in> set ks then ?head k + ?dead k else {#})
      = (\<Sum>k \<in> set ks. ?head k + ?dead k)"
    by (intro sum.mono_neutral_cong_right) auto
  also have "\<dots> = mset (served now a ks) + (\<Sum>k \<in> set ks. ?dead k)"
    using assms(2) by (induction ks) (auto simp: served_def sum.distrib ac_simps)
  finally show ?thesis by (simp add: ac_simps)
qed

lemma mset_drop_filter:
  "mset xs = mset (filter P (take n xs)) + mset (filter (\<lambda>x. \<not> P x) (take n xs)) + mset (drop n xs)"
  by (metis append_take_drop_id mset_append mset_filter multiset_partition)

lemma pull_exclusive:
  assumes "routed a" "exclusive {#} a" "distinct ks" "set ks \<subseteq> fset (pullable_keys a)"
    and held: "held b = held a + mset (served now a ks @ unkeyed)"
    and unkeyed: "\<forall>m \<in> set unkeyed. tm_ordering_key m = None"
    and flight: "fset (sa_keys_in_flight b)
      = fset (sa_keys_in_flight a) \<union> {k \<in> set ks. live_queue now a k \<noteq> []}"
  shows "exclusive {#} b"
  unfolding exclusive_def
proof (intro allI)
  fix k
  have "keyed k (mset unkeyed) = {#}" using unkeyed by (intro keyed_none) auto
  then have b: "keyed k (held b) = keyed k (held a)
      + (if k \<in> set ks then mset (take 1 (live_queue now a k)) else {#})"
    using held served_keyed [OF assms(1,3)] by simp
  have ex: "size (keyed k (held a)) \<le> 1" "keyed k (held a) \<noteq> {#} \<Longrightarrow> k |\<in>| sa_keys_in_flight a"
    using assms(2) by (auto simp: exclusive_def)
  have "keyed k (held a) = {#}" if "k \<in> set ks"
  proof -
    have "k |\<notin>| sa_keys_in_flight a" using that assms(4) by (auto simp: pullable_keys_iff)
    then show ?thesis using ex(2) by blast
  qed
  then show "size (keyed k (held b + {#})) \<le> 1
      \<and> (keyed k (held b + {#}) \<noteq> {#} \<longrightarrow> k |\<in>| sa_keys_in_flight b)"
    using ex b flight by auto
qed

lemma pull_routed:
  assumes routed: "routed a" and serves: "serves now a ks c" and ks: "set ks \<subseteq> fset (pullable_keys a)"
    and same: "sa_info a' = sa_info a" "\<And>k. key_queue a' k = key_queue c k"
      "sa_keys_in_flight a' = sa_keys_in_flight c"
    and backlog: "ml_list (sa_backlog a') = drop n (ml_list (sa_backlog a))"
  shows "routed a'"
proof (cases "keeps_order a")
  case True
  have "m \<in> set (key_queue a k)" if "m \<in> set (key_queue a' k)" for m k
    using that serves same(2) [of k] unfolding serves_def
    by (auto split: if_splits dest!: in_set_dropD intro: live_queue_subset)
  then show ?thesis
    using True routed same(1) backlog by (auto simp: routed_def dest: in_set_dropD)
next
  case False
  then have "ks = []"
    using ks routed by (cases ks) (auto simp: routed_def pullable_keys_iff)
  then show ?thesis
    using routed False same serves by (auto simp: routed_def serves_def fset_inject [symmetric])
qed

lemma pull_stored:
  assumes serves: "serves now a ks (b\<lparr>sa_backlog := sa_backlog a\<rparr>)" "distinct ks"
    and queues: "sa_ordered_queues a' = sa_ordered_queues b"
    and backlog: "ml_list (sa_backlog a') = drop n (ml_list (sa_backlog a))"
    and held: "held a' = held a + mset (served now a ks
      @ filter (\<lambda>m. \<not> is_message_expired a m now) (take n (ml_list (sa_backlog a))))"
  shows "\<exists>dropped. stored a = stored a' + dropped
    \<and> (\<forall>m \<in># dropped. is_message_expired a m now)"
proof -
  let ?dead = "\<lambda>m. is_message_expired a m now"
  let ?dropped = "mset (filter ?dead (take n (ml_list (sa_backlog a))))
    + (\<Sum>k \<in> set ks. mset (takeWhile ?dead (key_queue a k)))"
  have "queued a' = queued (b\<lparr>sa_backlog := sa_backlog a\<rparr>)"
    using queues by (simp add: queued_def key_queue_def)
  then have "stored a = stored a' + ?dropped"
    using queued_serves [OF serves] held backlog
      mset_drop_filter [of "ml_list (sa_backlog a)" "\<lambda>m. \<not> ?dead m" n]
    by (simp add: stored_def ac_simps)
  moreover have "?dead m" if "m \<in># ?dropped" for m
    using that by (auto simp: set_mset_sum dest: set_takeWhileD)
  ultimately show ?thesis by blast
qed

lemma actor_pull_inv:
  assumes inv: "actor_inv {#} a" and room: "counters_have_room a"
    and pull: "actor_pull_messages env max_count max_outstanding a = (r, a')"
  shows "actor_inv {#} a'
    \<and> (\<exists>dropped. stored a = stored a' + dropped
         \<and> (\<forall>m \<in># dropped. is_message_expired a m (env_now env)))"
proof (cases "sa_deleted a \<or> si_detached (sa_info a) \<or> pull_capacity max_count max_outstanding a = 0")
  case True
  then have "a' = a" using pull by (auto simp: actor_pull_messages_def Let_def split: if_splits)
  with inv show ?thesis by auto
next
  case False
  let ?now = "env_now env"
  let ?dead = "\<lambda>m. is_message_expired a m ?now"
  obtain result where r: "r = Inr result"
    using pull False by (auto simp: actor_pull_messages_def Let_def split: prod.splits)
  obtain ks n b where spec:
    "pulls ?now (ack_deadline_new (?now + int (si_ack_deadline (sa_info a)))) a result b"
    "sa_outstanding a' = sa_outstanding b" "sa_next_ack_id a' = sa_next_ack_id b"
    "sa_retry_queue a' = sa_retry_queue b" "sa_info a' = sa_info b"
    "sa_ordered_queues a' = sa_ordered_queues b" "sa_keys_in_flight a' = sa_keys_in_flight b"
    "map pm_message result = served ?now a ks @ filter (\<lambda>m. \<not> ?dead m) (take n (ml_list (sa_backlog a)))"
    "serves ?now a ks (b\<lparr>sa_backlog := sa_backlog a\<rparr>)"
    "ml_list (sa_backlog a') = drop n (ml_list (sa_backlog a))"
    "distinct ks" "set ks \<subseteq> fset (pullable_keys a)"
    "length result \<le> pull_capacity max_count max_outstanding a"
    using actor_pull_spec [OF pull [unfolded r]] False by metis
  have info: "sa_info b = sa_info a" "sa_retry_queue b = sa_retry_queue a"
    using spec(1) by (simp_all add: pulls_def)
  have "pull_capacity max_count max_outstanding a < 65536"
    unfolding pull_capacity_def Let_def by (rule unat_u16_less)
  then have "unat (ack_value (sa_next_ack_id a)) + length result < 2 ^ 64"
    using room spec(13) by (simp add: counters_have_room_def)
  note tracker = pulls_tracker [OF spec(1) _ _ this]
  have parts: "tracker_inv (sa_outstanding a)" "retry_inv (sa_retry_queue a)" "issued a" "routed a"
    "keeps_order a \<Longrightarrow> exclusive {#} a"
    using inv by (auto simp: actor_inv_def)
  have held: "held a' = held a + mset (map pm_message result)" "held b = held a'"
    using tracker(4) [OF parts(1,3)] spec(2,4) by (simp_all add: held_def)
  have taken: "held a' = held a + mset (served ?now a ks
      @ filter (\<lambda>m. \<not> ?dead m) (take n (ml_list (sa_backlog a))))"
    using held(1) spec(8) by simp
  have "routed a'"
    by (rule pull_routed [OF parts(4) spec(9,12) _ _ _ spec(10)])
      (simp_all add: spec(5-7) info key_queue_def)
  moreover have "exclusive {#} a'" if ord: "keeps_order a"
  proof (rule pull_exclusive [OF parts(4) parts(5) [OF ord] spec(11,12) taken])
    show "\<forall>m \<in> set (filter (\<lambda>m. \<not> ?dead m) (take n (ml_list (sa_backlog a)))). tm_ordering_key m = None"
      using parts(4) ord by (auto simp: routed_def dest: in_set_takeD)
    show "fset (sa_keys_in_flight a') = fset (sa_keys_in_flight a) \<union> {k \<in> set ks. live_queue ?now a k \<noteq> []}"
      using spec(7,9) by (simp add: serves_def)
  qed
  moreover have "issued a'" "tracker_inv (sa_outstanding a')"
    using tracker(1,2) [OF parts(1,3)] spec(2,3) by (simp_all add: issued_def)
  ultimately have "actor_inv {#} a'"
    using parts(2) spec(4,5) info by (simp add: actor_inv_def)
  then show ?thesis using pull_stored [OF spec(9,11,6,10) taken] by simp
qed

section \<open>Acknowledging\<close>

lemma exclusive_shrink:
  assumes "exclusive M a" and "held a + M = held b + N + L"
    and "\<And>k. keyed k (held b + N) \<noteq> {#} \<Longrightarrow> k |\<in>| sa_keys_in_flight a \<Longrightarrow> k |\<in>| sa_keys_in_flight b"
  shows "exclusive N b"
  unfolding exclusive_def
proof (intro allI)
  fix k
  have k: "keyed k (held a + M) = keyed k (held b + N) + keyed k L"
    using assms(2) by (metis keyed_union)
  have a: "size (keyed k (held a + M)) \<le> 1" "keyed k (held a + M) \<noteq> {#} \<Longrightarrow> k |\<in>| sa_keys_in_flight a"
    using assms(1) by (auto simp: exclusive_def)
  from a(2) assms(3) k have "keyed k (held b + N) \<noteq> {#} \<Longrightarrow> k |\<in>| sa_keys_in_flight b"
    by (metis empty_eq_union)
  then show "size (keyed k (held b + N)) \<le> 1
      \<and> (keyed k (held b + N) \<noteq> {#} \<longrightarrow> k |\<in>| sa_keys_in_flight b)"
    using a(1) unfolding k by auto
qed

text \<open>When a message in hand is let go, its key has no other message out.\<close>

lemma exclusive_last:
  assumes "exclusive (add_mset m M) a" and "tm_ordering_key m = Some k"
  shows "keyed k (held a + M) = {#}"
proof -
  have "size (keyed k (held a + add_mset m M)) \<le> 1" using assms(1) by (simp add: exclusive_def)
  then show ?thesis using assms(2) by simp
qed

lemma exclusive_release:
  assumes "exclusive (add_mset m M) a"
    and "held b = held a"
    and "sa_keys_in_flight b = sa_keys_in_flight a
      \<or> (\<exists>k. tm_ordering_key m = Some k \<and> sa_keys_in_flight b = sa_keys_in_flight a |-| {|k|})"
  shows "exclusive M b"
proof (rule exclusive_shrink [OF assms(1), of _ _ "{#m#}"])
  show "held a + add_mset m M = held b + M + {#m#}" using assms(2) by simp
  show "k |\<in>| sa_keys_in_flight b"
    if "keyed k (held b + M) \<noteq> {#}" "k |\<in>| sa_keys_in_flight a" for k
    using assms(2,3) that exclusive_last [OF assms(1), of k] by auto
qed

lemma release_acked_inv:
  "actor_inv (mset (map pm_message ps)) a \<Longrightarrow> release_acked ps freed a = (freed', a') \<Longrightarrow>
   actor_inv {#} a' \<and> stored a' = stored a \<and> sa_info a' = sa_info a
   \<and> sa_outstanding a' = sa_outstanding a \<and> sa_effects a' = sa_effects a
   \<and> sa_backlog a' = sa_backlog a \<and> sa_ordered_queues a' = sa_ordered_queues a
   \<and> sa_retry_queue a' = sa_retry_queue a \<and> sa_counters a' = sa_counters a"
proof (induction ps arbitrary: freed a)
  case (Cons p ps)
  let ?m = "pm_message p" and ?M = "mset (map pm_message ps)"
  let ?a1 = "forget_attempts ?m a"
  have inv: "actor_inv (add_mset ?m ?M) ?a1" using Cons.prems(1) by simp
  show ?case
  proof (cases "tm_ordering_key ?m = None \<or> \<not> keeps_order a")
    case True
    then have "exclusive ?M ?a1" if "keeps_order a"
      using inv that exclusive_release [of ?m ?M ?a1 ?a1] by (simp add: actor_inv_def)
    then have "actor_inv ?M ?a1"
      using inv by (auto simp: actor_inv_def)
    moreover have "release_acked ps freed ?a1 = (freed', a')"
      using Cons.prems(2) True by (auto simp: Let_def split: option.splits)
    ultimately show ?thesis using Cons.IH by fastforce
  next
    case False
    then obtain k where k: "tm_ordering_key ?m = Some k" "keeps_order a" by auto
    let ?a2 = "?a1\<lparr>sa_keys_in_flight := sa_keys_in_flight ?a1 |-| {|k|}\<rparr>"
    have "exclusive ?M ?a2"
      using inv k exclusive_release [of ?m ?M ?a1 ?a2] by (simp add: actor_inv_def)
    then have "actor_inv ?M ?a2"
      using inv k by (auto simp: actor_inv_def issued_def routed_def)
    moreover have "stored ?a2 = stored a" by (simp add: stored_def held_def)
    moreover obtain f where "release_acked ps f ?a2 = (freed', a')"
      using Cons.prems(2) k by (auto simp: Let_def)
    ultimately show ?thesis using Cons.IH [of ?a2] by fastforce
  qed
qed simp

lemma actor_inv_take:
  assumes inv: "actor_inv M a" and t: "tracker_inv t"
    and vals: "payloads (sa_outstanding a) = image_mset pm_message (mset ps) + payloads t"
    and ids: "\<And>i m. fmlookup (om_messages t) i = Some m \<Longrightarrow>
      \<exists>m'. fmlookup (om_messages (sa_outstanding a)) i = Some m'"
  shows "actor_inv (M + mset (map pm_message ps)) (a\<lparr>sa_outstanding := t\<rparr>)"
    "stored a = stored (a\<lparr>sa_outstanding := t\<rparr>) + mset (map pm_message ps)"
proof -
  let ?b = "a\<lparr>sa_outstanding := t\<rparr>"
  have held: "held a = held ?b + mset (map pm_message ps)"
    using vals by (simp add: held_def)
  then show "stored a = stored ?b + mset (map pm_message ps)"
    by (simp add: stored_def)
  have "exclusive (M + mset (map pm_message ps)) ?b" if "keeps_order a"
    using inv that held exclusive_shrink [of M a ?b "M + mset (map pm_message ps)" "{#}"]
    by (simp add: actor_inv_def ac_simps)
  then show "actor_inv (M + mset (map pm_message ps)) ?b"
    using inv t ids by (auto simp: actor_inv_def issued_def routed_def)
qed

lemma actor_inv_take_retry:
  assumes inv: "actor_inv M a" and q: "retry_inv q"
    and vals: "retry_vals (sa_retry_queue a) = mset ms + retry_vals q"
  shows "actor_inv (M + mset ms) (a\<lparr>sa_retry_queue := q\<rparr>)"
    "stored a = stored (a\<lparr>sa_retry_queue := q\<rparr>) + mset ms"
proof -
  let ?b = "a\<lparr>sa_retry_queue := q\<rparr>"
  have held: "held a = held ?b + mset ms"
    using vals by (simp add: held_def)
  then show "stored a = stored ?b + mset ms"
    by (simp add: stored_def)
  have "exclusive (M + mset ms) ?b" if "keeps_order a"
    using inv that held exclusive_shrink [of M a ?b "M + mset ms" "{#}"]
    by (simp add: actor_inv_def ac_simps)
  then show "actor_inv (M + mset ms) ?b"
    using inv q by (auto simp: actor_inv_def issued_def routed_def)
qed

lemma actor_acknowledge_inv:
  assumes inv: "actor_inv {#} a"
    and ack: "actor_acknowledge_messages ids a = (r, a')"
  shows "actor_inv {#} a'"
proof (cases "sa_deleted a")
  case True
  then show ?thesis using inv ack by (simp add: actor_acknowledge_messages_def)
next
  case False
  obtain acked t where rem: "tracker_remove (ao_valid (ack_split ids (sa_outstanding a))) (sa_outstanding a)
      = (acked, t)" by fastforce
  obtain freed a1 where rel: "release_acked acked [] (a\<lparr>sa_outstanding := t\<rparr>) = (freed, a1)" by fastforce
  have "tracker_inv (sa_outstanding a)" using inv by (simp add: actor_inv_def)
  note spec = tracker_remove_spec [OF this rem]
  have "\<exists>m'. fmlookup (om_messages (sa_outstanding a)) i = Some m'"
    if "fmlookup (om_messages t) i = Some m" for i m
    using that by (simp add: spec(4) split: if_splits)
  from actor_inv_take(1) [OF inv spec(1) _ this, of acked]
  have "actor_inv (mset (map pm_message acked)) (a\<lparr>sa_outstanding := t\<rparr>)"
    using spec(2) by simp
  from release_acked_inv [OF this rel] show ?thesis
    using ack False rem rel by (auto simp: actor_acknowledge_messages_def Let_def)
qed

section \<open>Redelivery\<close>

lemma requeue_one_inv:
  assumes "actor_inv (add_mset m M) a"
  shows "actor_inv M (requeue_one m a)" "stored (requeue_one m a) = add_mset m (stored a)"
    "sa_info (requeue_one m a) = sa_info a" "sa_retry_queue (requeue_one m a) = sa_retry_queue a"
    "sa_outstanding (requeue_one m a) = sa_outstanding a"
proof -
  show "sa_info (requeue_one m a) = sa_info a" "sa_retry_queue (requeue_one m a) = sa_retry_queue a"
    "sa_outstanding (requeue_one m a) = sa_outstanding a"
    by (auto simp: requeue_one_def Let_def split: option.splits bool.splits)
  show "stored (requeue_one m a) = add_mset m (stored a)"
    by (auto simp: requeue_one_def stored_def messages_append_def queued_prepend Let_def
        split: option.splits bool.splits)
  have "exclusive M (requeue_one m a)" if "keeps_order a"
  proof (rule exclusive_release)
    show "exclusive (add_mset m M) a" using assms that by (simp add: actor_inv_def)
  qed (auto simp: requeue_one_def Let_def split: option.splits bool.splits)
  moreover have "routed (requeue_one m a)"
    using assms by (auto simp: requeue_one_def routed_def actor_inv_def messages_append_def Let_def
        split: option.splits bool.splits)
  ultimately show "actor_inv M (requeue_one m a)"
    using assms by (auto simp: actor_inv_def issued_def requeue_one_def Let_def
        split: option.splits bool.splits)
qed

lemma drop_in_hand: "actor_inv (add_mset m M) a \<Longrightarrow> actor_inv M a"
  using exclusive_release [of m M a a] by (simp add: actor_inv_def)

lemma retry_add_actor_inv:
  assumes inv: "actor_inv (add_mset m M) a"
    and room: "unat (rq_next_seq (sa_retry_queue a)) + 1 < 2 ^ 64"
  shows "actor_inv M (a\<lparr>sa_retry_queue := retry_add m d (sa_retry_queue a)\<rparr>)"
    "stored (a\<lparr>sa_retry_queue := retry_add m d (sa_retry_queue a)\<rparr>) = add_mset m (stored a)"
proof -
  let ?b = "a\<lparr>sa_retry_queue := retry_add m d (sa_retry_queue a)\<rparr>"
  have q: "retry_inv (sa_retry_queue a)" using inv by (simp add: actor_inv_def)
  have held: "held ?b = add_mset m (held a)"
    using retry_add_vals [OF q] by (simp add: held_def)
  then show "stored ?b = add_mset m (stored a)" by (simp add: stored_def)
  have "exclusive M ?b" if "keeps_order a"
    using inv that held exclusive_shrink [of "add_mset m M" a ?b M "{#}"]
    by (simp add: actor_inv_def ac_simps)
  then show "actor_inv M ?b"
    using inv retry_add_inv [OF q room] by (auto simp: actor_inv_def issued_def routed_def)
qed

text \<open>Each message that is requeued ends up in exactly one place: the dead letter batch, the retry
  queue, its key's queue or the backlog.\<close>

lemma requeue_step_inv:
  assumes inv: "actor_inv (add_mset (pm_message p) M) a"
    and room: "unat (rq_next_seq (sa_retry_queue a)) + 1 < 2 ^ 64"
    and step: "requeue_step env p (dead, ids, a) = (dead', ids', a')"
  shows "actor_inv M a'" "sa_info a' = sa_info a" "sa_outstanding a' = sa_outstanding a"
    "unat (rq_next_seq (sa_retry_queue a')) \<le> unat (rq_next_seq (sa_retry_queue a)) + 1"
    "\<exists>x. length x = length dead' - length dead \<and> length dead \<le> length dead'
       \<and> stored a' + mset x = add_mset (pm_message p) (stored a)"
    "si_dead_letter_policy (sa_info a) = None \<Longrightarrow> dead' = dead"
proof -
  show "dead' = dead" if "si_dead_letter_policy (sa_info a) = None"
    using step that by (auto simp: requeue_step_def bump_attempt_def exceeds_attempts_def Let_def
        split: if_splits option.splits)
  let ?m = "pm_message p"
  let ?a1 = "snd (bump_attempt ?m a)" and ?n = "fst (bump_attempt ?m a)"
  have inv1: "actor_inv (add_mset ?m M) ?a1" using inv by simp
  have same: "sa_info ?a1 = sa_info a" "sa_outstanding ?a1 = sa_outstanding a"
    "sa_retry_queue ?a1 = sa_retry_queue a" "stored ?a1 = stored a"
    by (simp_all add: bump_attempt_def Let_def stored_def held_def queued_def key_queue_def)
  consider (dead) "a' = ?a1" "length dead' = Suc (length dead)"
    | (retry) d where "a' = ?a1\<lparr>sa_retry_queue := retry_add ?m d (sa_retry_queue ?a1)\<rparr>" "dead' = dead"
    | (requeue) "a' = requeue_one ?m ?a1" "dead' = dead"
    using step by (auto simp: requeue_step_def split_def Let_def split: if_splits option.splits)
  then have "actor_inv M a' \<and> sa_info a' = sa_info a \<and> sa_outstanding a' = sa_outstanding a
    \<and> unat (rq_next_seq (sa_retry_queue a')) \<le> unat (rq_next_seq (sa_retry_queue a)) + 1
    \<and> (\<exists>x. length x = length dead' - length dead \<and> length dead \<le> length dead'
       \<and> stored a' + mset x = add_mset ?m (stored a))"
  proof cases
    case dead
    then show ?thesis using drop_in_hand [OF inv1] same by (auto intro!: exI [of _ "[?m]"])
  next
    case retry
    have "unat (rq_next_seq (sa_retry_queue a) + 1) = unat (rq_next_seq (sa_retry_queue a)) + 1"
      using room by (simp add: unat_word_ariths)
    then show ?thesis
      using retry retry_add_actor_inv [OF inv1] room same
      by (auto simp: retry_add_def [of _ _ "sa_retry_queue a"] Let_def)
  next
    case requeue
    then show ?thesis using requeue_one_inv [OF inv1] same by auto
  qed
  then show "actor_inv M a'" "sa_info a' = sa_info a" "sa_outstanding a' = sa_outstanding a"
    "unat (rq_next_seq (sa_retry_queue a')) \<le> unat (rq_next_seq (sa_retry_queue a)) + 1"
    "\<exists>x. length x = length dead' - length dead \<and> length dead \<le> length dead'
       \<and> stored a' + mset x = add_mset (pm_message p) (stored a)"
    by blast+
qed

lemma requeue_fold_inv:
  "actor_inv (mset (map pm_message ps) + M) a \<Longrightarrow>
   unat (rq_next_seq (sa_retry_queue a)) + length ps < 2 ^ 64 \<Longrightarrow>
   fold (requeue_step env) ps (dead, ids, a) = (dead', ids', a') \<Longrightarrow>
   actor_inv M a' \<and> sa_info a' = sa_info a \<and> sa_outstanding a' = sa_outstanding a
   \<and> (\<exists>x. length x = length dead' - length dead \<and> length dead \<le> length dead'
        \<and> stored a' + mset x = stored a + mset (map pm_message ps))
   \<and> (si_dead_letter_policy (sa_info a) = None \<longrightarrow> dead' = dead)"
proof (induction ps arbitrary: dead ids a)
  case Nil
  then show ?case by (auto intro!: exI [of _ "[]"])
next
  case (Cons p ps)
  obtain d1 i1 a1 where step: "requeue_step env p (dead, ids, a) = (d1, i1, a1)"
    by (metis prod_cases3)
  have "actor_inv (add_mset (pm_message p) (mset (map pm_message ps) + M)) a"
    using Cons.prems(1) by simp
  note one = requeue_step_inv [OF this _ step]
  have room: "unat (rq_next_seq (sa_retry_queue a)) + 1 < 2 ^ 64"
    using Cons.prems(2) by simp
  obtain x where x: "length x = length d1 - length dead" "length dead \<le> length d1"
    "stored a1 + mset x = add_mset (pm_message p) (stored a)"
    using one(5) [OF room] by blast
  have "unat (rq_next_seq (sa_retry_queue a1)) + length ps < 2 ^ 64"
    using one(4) [OF room] Cons.prems(2) by simp
  moreover have "fold (requeue_step env) ps (d1, i1, a1) = (dead', ids', a')"
    using Cons.prems(3) step by simp
  ultimately have IH: "actor_inv M a' \<and> sa_info a' = sa_info a1 \<and> sa_outstanding a' = sa_outstanding a1
   \<and> (\<exists>y. length y = length dead' - length d1 \<and> length d1 \<le> length dead'
        \<and> stored a' + mset y = stored a1 + mset (map pm_message ps))
   \<and> (si_dead_letter_policy (sa_info a1) = None \<longrightarrow> dead' = d1)"
    using Cons.IH one(1) [OF room] by blast
  then obtain y where y: "length y = length dead' - length d1" "length d1 \<le> length dead'"
    "stored a' + mset y = stored a1 + mset (map pm_message ps)" by blast
  have "stored a' + mset (x @ y) = stored a + mset (map pm_message (p # ps))"
  proof -
    have "stored a' + mset (x @ y) = (stored a1 + mset x) + mset (map pm_message ps)"
      using y(3) by (simp add: ac_simps)
    then show ?thesis by (simp add: x(3))
  qed
  then show ?case
    using IH one(2,3) [OF room] one(6) [OF room] x(1,2) y(1,2)
    by (intro conjI exI [of _ "x @ y"]) auto
qed

lemma requeue_messages_inv:
  assumes inv: "actor_inv (mset (map pm_message ps)) a"
    and room: "unat (rq_next_seq (sa_retry_queue a)) + length ps < 2 ^ 64"
  shows "actor_inv {#} (requeue_messages env ps a)"
    "\<exists>x. stored (requeue_messages env ps a) + x = stored a + mset (map pm_message ps)"
    "sa_info (requeue_messages env ps a) = sa_info a"
    "sa_outstanding (requeue_messages env ps a) = sa_outstanding a"
    "si_dead_letter_policy (sa_info a) = None \<Longrightarrow>
       stored (requeue_messages env ps a) = stored a + mset (map pm_message ps)"
proof -
  obtain dead ids b where fold: "fold (requeue_step env) ps ([], [], a) = (dead, ids, b)"
    by (metis prod_cases3)
  have "actor_inv (mset (map pm_message ps) + {#}) a" using inv by simp
  note spec = requeue_fold_inv [OF this room fold]
  have res: "actor_inv {#} (requeue_messages env ps a) = actor_inv {#} b"
    "stored (requeue_messages env ps a) = stored b"
    by (simp_all add: requeue_messages_def fold Let_def)
  have same: "sa_info (requeue_messages env ps a) = sa_info b"
    "sa_outstanding (requeue_messages env ps a) = sa_outstanding b"
    by (simp_all add: requeue_messages_def fold Let_def forget_ids_def try_publish_dead_lettered_def
        split: option.splits)
  show "actor_inv {#} (requeue_messages env ps a)"
    "sa_info (requeue_messages env ps a) = sa_info a"
    "sa_outstanding (requeue_messages env ps a) = sa_outstanding a"
    using spec res same by auto
  show "\<exists>x. stored (requeue_messages env ps a) + x = stored a + mset (map pm_message ps)"
    using spec res(2) by auto
  show "stored (requeue_messages env ps a) = stored a + mset (map pm_message ps)"
    if "si_dead_letter_policy (sa_info a) = None"
    using spec res(2) that by auto
qed

lemma tracker_len_payloads: "tracker_len t = size (payloads t)"
  by (simp add: tracker_len_def size_fmvals)

lemma actor_modify_inv:
  assumes inv: "actor_inv {#} a" and room: "counters_have_room a"
    and modify: "actor_modify_deadline env mods a = (r, a')"
  shows "actor_inv {#} a' \<and> (\<exists>x. stored a = stored a' + x)
    \<and> (si_dead_letter_policy (sa_info a) = None \<longrightarrow> stored a' = stored a)"
proof (cases "sa_deleted a")
  case True
  then show ?thesis using inv modify by (auto simp: actor_modify_deadline_def)
next
  case False
  obtain nacks t where mod: "tracker_modify mods (sa_outstanding a) = (nacks, t)" by fastforce
  have "tracker_inv (sa_outstanding a)" using inv by (simp add: actor_inv_def)
  note spec = tracker_modify_spec [OF this mod] and dom = tracker_modify_dom [OF this mod]
  let ?c = "(sa_counters a)\<lparr>ct_nacked := ct_nacked (sa_counters a) + of_nat (length nacks)\<rparr>"
  let ?b = "a\<lparr>sa_outstanding := t, sa_counters := ?c\<rparr>"
  have a': "a' = requeue_messages env nacks ?b"
    using modify False mod by (auto simp: actor_modify_deadline_def Let_def)
  have take: "actor_inv (mset (map pm_message nacks)) ?b"
    "stored a = stored ?b + mset (map pm_message nacks)"
    using actor_inv_take [OF inv spec(1) spec(2) dom] by simp_all
  have "length nacks \<le> tracker_len (sa_outstanding a)"
    using arg_cong [OF spec(2), of size] by (simp add: tracker_len_payloads)
  then have "unat (rq_next_seq (sa_retry_queue ?b)) + length nacks < 2 ^ 64"
    using room by (simp add: counters_have_room_def)
  note requeue = requeue_messages_inv [OF take(1) this]
  have "stored a' = stored a" if "si_dead_letter_policy (sa_info a) = None"
    using requeue(5) [of env] take(2) that by (simp add: a')
  with requeue(1,2) take(2) show ?thesis
    unfolding a' by metis
qed

lemma expired_requeue:
  assumes inv: "actor_inv {#} a" and room: "counters_have_room a"
    and taken: "take_expired at (sa_outstanding a) = Some (expired, t)"
  shows "actor_inv {#} (handle_expired_messages env expired (a\<lparr>sa_outstanding := t\<rparr>))"
    "\<exists>x. stored a = stored (handle_expired_messages env expired (a\<lparr>sa_outstanding := t\<rparr>)) + x"
    "sa_outstanding (handle_expired_messages env expired (a\<lparr>sa_outstanding := t\<rparr>)) = t"
    "si_dead_letter_policy (sa_info a) = None \<Longrightarrow>
       stored (handle_expired_messages env expired (a\<lparr>sa_outstanding := t\<rparr>)) = stored a"
proof -
  have ti: "tracker_inv (sa_outstanding a)" using inv by (simp add: actor_inv_def)
  note spec = take_expired_split [OF ti taken]
  have vals: "payloads (sa_outstanding a) = image_mset pm_message (mset expired) + payloads t"
    using spec by (metis image_mset_union multiset_partition)
  have dom: "\<exists>m'. fmlookup (om_messages (sa_outstanding a)) i = Some m'"
    if "fmlookup (om_messages t) i = Some m" for i m
  proof -
    have "m \<in># tracker_vals t" using that in_fmvals_iff by fast
    then have "m \<in># tracker_vals (sa_outstanding a)" using spec(3) by simp
    then show ?thesis
      using tracker_inv_ack_id [OF spec(1) that] tracker_inv_ack_id [OF ti]
      by (auto simp: in_fmvals_iff)
  qed
  let ?b = "a\<lparr>sa_outstanding := t\<rparr>"
  let ?c = "?b\<lparr>sa_counters := (sa_counters ?b)
    \<lparr>ct_expired := ct_expired (sa_counters ?b) + of_nat (length expired)\<rparr>\<rparr>"
  have take: "actor_inv (mset (map pm_message expired)) ?c"
    "stored a = stored ?c + mset (map pm_message expired)"
    using actor_inv_take [OF inv spec(1) vals dom] by (simp_all only: frame_simps add_0)
  have "length expired \<le> tracker_len (sa_outstanding a)"
    using arg_cong [OF vals, of size] by (simp add: tracker_len_payloads)
  then have "unat (rq_next_seq (sa_retry_queue ?c)) + length expired < 2 ^ 64"
    using room by (simp add: counters_have_room_def)
  note requeue = requeue_messages_inv [OF take(1) this]
  show "actor_inv {#} (handle_expired_messages env expired ?b)"
    "sa_outstanding (handle_expired_messages env expired ?b) = t"
    unfolding handle_expired_messages_def using requeue(1,4) by simp_all
  show "\<exists>x. stored a = stored (handle_expired_messages env expired ?b) + x"
    unfolding handle_expired_messages_def using requeue(2) take(2) by metis
  show "stored (handle_expired_messages env expired ?b) = stored a"
    if "si_dead_letter_policy (sa_info a) = None"
    unfolding handle_expired_messages_def using requeue(5) take(2) that by simp
qed

lemma retry_ready_loop_inv:
  "actor_inv (mset ms) a \<Longrightarrow> retry_ready_loop now ms b a = (b', a') \<Longrightarrow>
   actor_inv {#} a' \<and> (\<exists>x. stored a + mset ms = stored a' + x)"
proof (induction ms arbitrary: b a)
  case (Cons m ms)
  have inv: "actor_inv (add_mset m (mset ms)) a" using Cons.prems(1) by simp
  show ?case
  proof (cases "is_message_expired a m now")
    case True
    then have "retry_ready_loop now ms b (forget_attempts m a) = (b', a')"
      using Cons.prems(2) by simp
    moreover have "actor_inv (mset ms) (forget_attempts m a)" using drop_in_hand [OF inv] by simp
    ultimately obtain x where "actor_inv {#} a'" "stored a + mset ms = stored a' + x"
      using Cons.IH by fastforce
    then show ?thesis by (auto intro!: exI [of _ "add_mset m x"])
  next
    case False
    then have "retry_ready_loop now ms True (requeue_one m a) = (b', a')"
      using Cons.prems(2) by simp
    then show ?thesis
      using Cons.IH [OF requeue_one_inv(1) [OF inv]] requeue_one_inv(2) [OF inv] by simp
  qed
qed simp

lemma handle_retry_inv:
  assumes inv: "actor_inv {#} a" and taken: "take_ready at (sa_retry_queue a) = (ready, q)"
  shows "actor_inv {#} (handle_retry_ready env ready (a\<lparr>sa_retry_queue := q\<rparr>))
    \<and> (\<exists>x. stored a = stored (handle_retry_ready env ready (a\<lparr>sa_retry_queue := q\<rparr>)) + x)"
proof -
  have ri: "retry_inv (sa_retry_queue a)" using inv by (simp add: actor_inv_def)
  note spec = take_ready_spec [OF ri taken]
  have "image_mset snd (retry_contents (sa_retry_queue a)) = mset ready + image_mset snd (retry_contents q)"
    using retry_due.take_conserves [OF ri, of at ready q] taken by simp
  then have "retry_vals (sa_retry_queue a) = mset ready + retry_vals q"
    using retry_vals_contents [OF ri] retry_vals_contents [OF spec(1)] by simp
  note take = actor_inv_take_retry [OF inv spec(1) this]
  obtain b a' where loop: "retry_ready_loop (env_now env) ready False (a\<lparr>sa_retry_queue := q\<rparr>) = (b, a')"
    by fastforce
  have "actor_inv (mset ready) (a\<lparr>sa_retry_queue := q\<rparr>)" using take(1) by simp
  from retry_ready_loop_inv [OF this loop] take(2) show ?thesis
    by (auto simp: handle_retry_ready_def loop)
qed

section \<open>Administration\<close>

lemma clear_all_inv [simp, invariant_intros]:
  "actor_inv {#} (clear_all a)" "stored (clear_all a) = {#}"
  by (simp_all add: actor_inv_def clear_all_def issued_def routed_def exclusive_def held_def
      stored_def queued_def key_queue_def messages_clear_def)
    (simp_all add: tracker_clear_def retry_clear_def)

lemma clear_all_fields [simp]:
  "sa_deleted (clear_all a) = sa_deleted a" "sa_effects (clear_all a) = sa_effects a"
  "sa_info (clear_all a) = sa_info a"
  by (simp_all add: clear_all_def)

lemma actor_detach_inv: "actor_inv {#} a \<Longrightarrow> actor_inv {#} (snd (actor_detach a))"
  by (simp add: actor_detach_def)

lemma actor_delete_inv: "actor_inv {#} a \<Longrightarrow> actor_inv {#} (snd (actor_delete env a))"
  by (simp add: actor_delete_def Let_def split: option.splits)

section \<open>Seeking\<close>

text \<open>While nothing is outstanding or waiting for its backoff, no key is exclusive.\<close>

lemma exclusive_idle: "held a = {#} \<Longrightarrow> exclusive {#} a"
  by (simp add: exclusive_def)

lemma requeue_one_idle:
  assumes "actor_inv {#} a" and "held a = {#}"
  shows "actor_inv {#} (requeue_one m a)" "held (requeue_one m a) = {#}"
    "stored (requeue_one m a) = add_mset m (stored a)"
proof -
  show held: "held (requeue_one m a) = {#}"
    using assms(2) by (auto simp: requeue_one_def Let_def split: option.splits bool.splits)
  show "stored (requeue_one m a) = add_mset m (stored a)"
    by (auto simp: requeue_one_def stored_def messages_append_def queued_prepend Let_def
        split: option.splits bool.splits)
  have "routed (requeue_one m a)"
    using assms by (auto simp: requeue_one_def routed_def actor_inv_def messages_append_def Let_def
        split: option.splits bool.splits)
  then show "actor_inv {#} (requeue_one m a)"
    using assms exclusive_idle [OF held]
    by (auto simp: actor_inv_def issued_def requeue_one_def Let_def split: option.splits bool.splits)
qed

lemma requeue_newer:
  "actor_inv {#} a \<Longrightarrow> held a = {#} \<Longrightarrow>
   actor_inv {#} (fold (\<lambda>m b. if P m then requeue_one m b else b) ms a)
   \<and> held (fold (\<lambda>m b. if P m then requeue_one m b else b) ms a) = {#}
   \<and> stored (fold (\<lambda>m b. if P m then requeue_one m b else b) ms a) = stored a + mset (filter P ms)"
  by (induction ms arbitrary: a) (simp_all add: requeue_one_idle)

lemma key_queue_retain:
  "(case fmlookup (retain_queues P qs) k of None \<Rightarrow> [] | Some q \<Rightarrow> q)
     = filter P (case fmlookup qs k of None \<Rightarrow> [] | Some q \<Rightarrow> q)"
  by (auto simp: retain_queues_def split: option.splits)

lemma filter_mset_sum:
  "finite K \<Longrightarrow> filter_mset P (\<Sum>k \<in> K. f k) = (\<Sum>k \<in> K. filter_mset P (f k))"
  by (induction K rule: finite_induct) auto

lemma queued_retain:
  "queued (a\<lparr>sa_ordered_queues := retain_queues P (sa_ordered_queues a)\<rparr>) = filter_mset P (queued a)"
proof -
  let ?b = "a\<lparr>sa_ordered_queues := retain_queues P (sa_ordered_queues a)\<rparr>"
  let ?K = "fset (fmdom (sa_ordered_queues a))"
  have queue: "key_queue ?b k = filter P (key_queue a k)" for k
    using key_queue_retain [of P "sa_ordered_queues a" k] by (simp add: key_queue_def)
  have "fset (fmdom (sa_ordered_queues ?b)) \<subseteq> ?K"
    by (auto simp: retain_queues_def)
  then have "queued ?b = (\<Sum>k \<in> ?K. mset (key_queue ?b k))"
    by (intro queued_sum) auto
  also have "\<dots> = filter_mset P (queued a)"
    using queue by (simp add: queued_def filter_mset_sum)
  finally show ?thesis .
qed

lemma actor_seek_inv:
  assumes inv: "actor_inv {#} a" and active: "\<not> sa_deleted a"
    and orders: "enumerates (env_drained_outstanding env) (om_messages (sa_outstanding a))"
      "enumerates (env_drained_retry env) (rq_messages (sa_retry_queue a))"
  shows "actor_inv {#} (actor_seek_to_time env t a)" "held (actor_seek_to_time env t a) = {#}"
    "stored (actor_seek_to_time env t a) = filter_mset (\<lambda>m. t < tm_published_at m) (stored a)"
proof -
  let ?newer = "\<lambda>m. t < tm_published_at m"
  let ?out = "map pm_message (env_drained_outstanding env)" and ?ret = "env_drained_retry env"
  let ?f = "\<lambda>m b. if ?newer m then requeue_one m b else b"
  define a1 where "a1 = a\<lparr>sa_backlog := messages_retain ?newer (sa_backlog a),
    sa_outstanding := snd (tracker_drain (env_drained_outstanding env) (sa_outstanding a)),
    sa_delivery_attempts := fmempty,
    sa_retry_queue := snd (retry_drain (env_drained_retry env) (sa_retry_queue a)),
    sa_ordered_queues := retain_queues ?newer (sa_ordered_queues a), sa_keys_in_flight := {||}\<rparr>"
  have seek: "actor_seek_to_time env t a = emit NotifyNewMessagesAvailable
      (emit NotifyOutstandingFreed (fold ?f ?ret (fold ?f ?out a1)))"
    using active by (simp add: actor_seek_to_time_def a1_def Let_def tracker_drain_def retry_drain_def)
  have queue: "key_queue a1 k = filter ?newer (key_queue a k)" for k
    using key_queue_retain [of ?newer "sa_ordered_queues a" k] by (simp add: a1_def key_queue_def)
  have held: "held a1 = {#}"
    by (simp add: a1_def held_def tracker_drain_def retry_drain_def)
  have "issued a1" "tracker_inv (sa_outstanding a1)" "retry_inv (sa_retry_queue a1)"
    using tracker_drain_inv [of "env_drained_outstanding env" "sa_outstanding a"]
    by (simp_all add: a1_def issued_def) (simp add: tracker_drain_def)
  moreover have "routed a1"
    using inv queue by (auto simp: routed_def actor_inv_def a1_def messages_retain_def)
  ultimately have inv1: "actor_inv {#} a1"
    using exclusive_idle [OF held] by (simp add: actor_inv_def)
  have "queued a1 = filter_mset ?newer (queued a)"
    using queued_retain [of ?newer a] by (simp add: a1_def queued_def key_queue_def)
  then have stored1: "stored a1
      = filter_mset ?newer (mset (ml_list (sa_backlog a)) + queued a)"
    using held by (simp add: stored_def) (simp add: a1_def messages_retain_def)
  have held_a: "held a = mset ?out + mset ?ret"
    using orders by (simp add: held_def enumerates_def)
  note one = requeue_newer [OF inv1 held, of ?newer ?out]
  then have two: "actor_inv {#} (fold ?f ?ret (fold ?f ?out a1))
      \<and> held (fold ?f ?ret (fold ?f ?out a1)) = {#}
      \<and> stored (fold ?f ?ret (fold ?f ?out a1)) = stored (fold ?f ?out a1) + mset (filter ?newer ?ret)"
    by (intro requeue_newer) simp_all
  then show "actor_inv {#} (actor_seek_to_time env t a)" unfolding seek by simp
  show "held (actor_seek_to_time env t a) = {#}"
    using two unfolding seek by (simp add: held_def)
  show "stored (actor_seek_to_time env t a) = filter_mset ?newer (stored a)"
  proof -
    have "stored a = mset (ml_list (sa_backlog a)) + queued a + (mset ?out + mset ?ret)"
      by (simp add: stored_def held_a)
    then show ?thesis using two one stored1 unfolding seek by (simp add: ac_simps)
  qed
qed

section \<open>The select loop\<close>

text \<open>The environment of a seek lists the drained maps; other events put no condition on it.\<close>

fun event_ok :: "actor_event \<Rightarrow> subscription_actor \<Rightarrow> bool" where
  "event_ok (Request env (Seek t)) a \<longleftrightarrow>
     enumerates (env_drained_outstanding env) (om_messages (sa_outstanding a))
     \<and> enumerates (env_drained_retry env) (rq_messages (sa_retry_queue a))"
| "event_ok _ a = True"

inductive actor_step :: "subscription_actor \<Rightarrow> actor_event \<Rightarrow> subscription_actor \<Rightarrow> bool" where
  step: "\<lbrakk> \<not> stopped a; counters_have_room a; event_ok e a; handle_event e a = Some a' \<rbrakk>
    \<Longrightarrow> actor_step a e a'"

inductive actor_reachable :: "subscription_actor \<Rightarrow> bool" where
  start: "actor_reachable (actor_start i info tm)"
| next_step: "\<lbrakk> actor_reachable a; actor_step a e a' \<rbrakk> \<Longrightarrow> actor_reachable a'"

inductive_cases actor_stepE: "actor_step a e a'"

lemma receive_inv:
  assumes inv: "actor_inv {#} a" and room: "counters_have_room a" and ok: "event_ok (Request env r) a"
  shows "actor_inv {#} (snd (receive env r a))"
proof (cases r)
  case (PostMessages ms)
  then show ?thesis
    using inv post_loop_inv [OF inv, of ms False]
    by (auto simp: actor_post_messages_def split: prod.splits)
next
  case (UpdateInfo u)
  then show ?thesis
    using inv actor_inv_cong [of "a\<lparr>sa_info := apply_update u (sa_info a)\<rparr>" a "{#}"]
    by (simp add: actor_update_info_def Let_def)
next
  case (PullMessages c o)
  then show ?thesis using actor_pull_inv [OF inv room] by (simp add: prod_eq_iff)
next
  case (AcknowledgeMessages ids)
  then show ?thesis using actor_acknowledge_inv [OF inv] by (simp add: prod_eq_iff)
next
  case (ModifyDeadline ms)
  then show ?thesis using actor_modify_inv [OF inv room] by (simp add: prod_eq_iff)
next
  case (ModifyPushConfig c)
  then show ?thesis
    using inv actor_inv_cong [of "a\<lparr>sa_info := (sa_info a)\<lparr>si_push_config := c\<rparr>\<rparr>" a "{#}"]
    by (simp add: actor_modify_push_config_def Let_def)
next
  case (Seek t)
  show ?thesis
  proof (cases "sa_deleted a")
    case True
    then show ?thesis using inv Seek by (simp add: actor_seek_to_time_def)
  next
    case False
    then show ?thesis using actor_seek_inv(1) [OF inv False] ok Seek by simp
  qed
qed (use inv actor_detach_inv actor_delete_inv in simp_all)

lemma handle_event_total:
  assumes "actor_inv {#} a"
  shows "\<exists>a'. handle_event e a = Some a'"
proof (cases e)
  case (Expiry at env)
  have "tracker_inv (sa_outstanding a)" using assms by (simp add: actor_inv_def)
  from outstanding_due.take_total [OF this, of at] Expiry show ?thesis by auto
qed (simp_all split: prod.splits)

lemma handle_event_inv:
  assumes inv: "actor_inv {#} a" and room: "counters_have_room a" and ok: "event_ok e a"
    and event: "handle_event e a = Some a'"
  shows "actor_inv {#} a'"
proof (cases e)
  case (Request env r)
  then show ?thesis using receive_inv [OF inv room] ok event by auto
next
  case (Expiry at env)
  then obtain expired t where taken: "take_expired at (sa_outstanding a) = Some (expired, t)"
    using event by (auto split: option.splits)
  have ti: "tracker_inv (sa_outstanding a)" using inv by (simp add: actor_inv_def)
  show ?thesis
  proof (cases "expired = []")
    case True
    have a': "a' = a\<lparr>sa_outstanding := t\<rparr>" using Expiry event taken True by simp
    note spec = take_expired_split [OF ti taken]
    have "handle_expired_messages env [] a' = a'\<lparr>sa_counters := sa_counters a'\<rparr>
        \<or> handle_expired_messages env [] a' = emit NotifyNewMessagesAvailable (a'\<lparr>sa_counters := sa_counters a'\<rparr>)"
      by (simp add: handle_expired_messages_def requeue_messages_def)
    then show ?thesis
      using expired_requeue(1) [OF inv room taken, of env] True a' by (metis frame_simps(1,3))
  next
    case False
    then show ?thesis using expired_requeue(1) [OF inv room taken] Expiry event taken by auto
  qed
next
  case (RetryDue at env)
  obtain ready q where taken: "take_ready at (sa_retry_queue a) = (ready, q)" by fastforce
  show ?thesis
  proof (cases "ready = []")
    case True
    then have "a' = handle_retry_ready env ready (a\<lparr>sa_retry_queue := q\<rparr>)"
      using RetryDue event taken by (auto simp: handle_retry_ready_def)
    then show ?thesis using handle_retry_inv [OF inv taken] by simp
  next
    case False
    then show ?thesis using handle_retry_inv [OF inv taken] RetryDue event taken by auto
  qed
qed

lemma reachable_inv: "actor_reachable a \<Longrightarrow> actor_inv {#} a"
proof (induction rule: actor_reachable.induct)
  case (next_step a e a')
  from next_step.hyps(2) next_step.IH show ?case
    by (elim actor_stepE) (rule handle_event_inv)
qed simp

end
