(* ===== verification/Actor_Properties.thy ===== *)
theory Actor_Properties
  imports Actor_Invariant
begin

text \<open>
  The properties of the subscription actor: what holds in every reachable state, and what each
  request does. The sample subscription below, ordered and holding two messages with one key, is
  the concrete state of the witnesses.
\<close>

section \<open>A sample subscription\<close>

definition sample_info :: subscription_info where
  "sample_info =
     (subscription_info_new_with_defaults (subscription_name_new ''p'' ''s''))
       \<lparr>si_enable_message_ordering := True\<rparr>"

definition sample_message :: "u64 \<Rightarrow> string option \<Rightarrow> topic_message" where
  "sample_message i key =
     \<lparr>tm_id = MessageId i, tm_published_at = int (unat i), tm_published_at_instant = 0, tm_data = [],
      tm_attributes = None, tm_ordering_key = key\<rparr>"

definition sample_env :: environment where
  "sample_env =
     \<lparr>env_now = 0, env_wall = 0, env_topic = None, env_topic_responds = True,
      env_topic_exists = (\<lambda>_. True), env_drained_outstanding = [], env_drained_retry = []\<rparr>"

definition sample_start :: subscription_actor where
  "sample_start = actor_start 1 sample_info True"

definition sample_posted :: subscription_actor where
  "sample_posted =
     actor_post_messages [sample_message 1 (Some ''k''), sample_message 2 (Some ''k'')] sample_start"

definition sample_pulled :: subscription_actor where
  "sample_pulled = snd (actor_pull_messages sample_env 10 0 sample_posted)"

lemma sample_pull_result:
  "fst (actor_pull_messages sample_env 10 0 sample_posted)
   = Inr [pulled_message_new (sample_message 1 (Some ''k'')) (AckId 1) (AckDeadline 10000000000) 1]"
  by code_simp

lemma sample_room: "counters_have_room sample_start" "counters_have_room sample_posted"
  "counters_have_room sample_pulled"
  by code_simp+

lemma sample_running: "\<not> stopped sample_start" "\<not> stopped sample_posted" "\<not> stopped sample_pulled"
  by code_simp+

lemma sample_reachable:
  "actor_reachable sample_start" "actor_reachable sample_posted" "actor_reachable sample_pulled"
proof -
  show start: "actor_reachable sample_start"
    unfolding sample_start_def by (rule actor_reachable.start)
  let ?post = "PostMessages [sample_message 1 (Some ''k''), sample_message 2 (Some ''k'')]"
  have "actor_step sample_start (Request sample_env ?post) sample_posted"
    by (rule actor_step.step) (simp_all add: sample_room sample_running sample_posted_def)
  with start show posted: "actor_reachable sample_posted" by (rule actor_reachable.next_step)
  have "actor_step sample_posted (Request sample_env (PullMessages 10 0)) sample_pulled"
    by (rule actor_step.step) (simp_all add: sample_room sample_running sample_pulled_def)
  with posted show "actor_reachable sample_pulled" by (rule actor_reachable.next_step)
qed

lemma sample_pull:
  "actor_pull_messages sample_env 10 0 sample_posted
   = (Inr [pulled_message_new (sample_message 1 (Some ''k'')) (AckId 1) (AckDeadline 10000000000) 1],
      sample_pulled)"
  by (simp add: prod_eq_iff sample_pull_result sample_pulled_def)

section \<open>Every reachable state\<close>



text \<open>
  C26. Safety of the select loop: in every reachable state every event (a request, an expiry at any
  time, a retry at any time) is handled, so the two \<^verbatim>\<open>unwrap_unchecked\<close> of \<^verbatim>\<open>take_expired\<close>
  are never applied to \<^verbatim>\<open>None\<close>.
\<close>

theorem select_loop_never_undefined:
  assumes "actor_reachable a"
  shows "\<exists>a'. handle_event e a = Some a'"
  by (rule handle_event_total [OF reachable_inv [OF assms]])

theorem select_loop_never_undefined_witness:
  "\<exists>a'. handle_event (Expiry 20000000000 sample_env) sample_pulled = Some a'"
  by (rule select_loop_never_undefined [OF sample_reachable(3)])

section \<open>Pull\<close>

lemma pull_idle:
  assumes "actor_pull_messages env mc mo a = (Inr result, a')"
    and "sa_deleted a \<or> pull_capacity mc mo a = 0"
  shows "result = [] \<and> a' = a"
  using assms by (auto simp: actor_pull_messages_def Let_def split: if_splits)

lemma pull_active:
  assumes "actor_pull_messages env mc mo a = (Inr result, a')" and "result \<noteq> []"
  shows "\<not> sa_deleted a" "pull_capacity mc mo a \<noteq> 0"
  using pull_idle [OF assms(1)] assms(2) by blast+

lemma pull_capacity_unfold:
  "pull_capacity mc mo a =
     (let most = min (unat mc) (max (min (messages_len (sa_backlog a) mod 65536
            + fcard (pullable_keys a) mod 65536) 65535) 1000)
      in if mo = 0 then most else min most (unat mo - tracker_len (sa_outstanding a) mod 65536))"
  by (simp add: pull_capacity_def Let_def bound_simps unat_of_nat max_pull_count_def word_gt_0)

text \<open>Common facts about a pull in a reachable state.\<close>

lemma pull_reachable:
  assumes "actor_reachable a" and "counters_have_room a"
    and "actor_pull_messages env mc mo a = (Inr result, a')"
  shows "map pm_ack_id result = ack_ids_from (sa_next_ack_id a) (length result)"
    "tracker_vals (sa_outstanding a') = mset result + tracker_vals (sa_outstanding a)"
    "tracker_inv (sa_outstanding a')" "length result \<le> pull_capacity mc mo a"
    "\<forall>p \<in> set result. \<not> is_message_expired a (pm_message p) (env_now env)
       \<and> pm_deadline p = ack_deadline_new (env_now env + int (si_ack_deadline (sa_info a)))"
    "\<forall>p \<in> set result. fmlookup (om_messages (sa_outstanding a)) (pm_ack_id p) = None"
proof -
  have inv: "tracker_inv (sa_outstanding a)" "issued a"
    using reachable_inv [OF assms(1)] by (simp_all add: actor_inv_def)
  let ?d = "ack_deadline_new (env_now env + int (si_ack_deadline (sa_info a)))"
  have "\<exists>b. pulls (env_now env) ?d a result b \<and> sa_outstanding a' = sa_outstanding b
      \<and> length result \<le> pull_capacity mc mo a"
  proof (cases "sa_deleted a \<or> pull_capacity mc mo a = 0")
    case True
    from pull_idle [OF assms(3) this] show ?thesis by (intro exI [of _ a]) simp
  next
    case False
    then show ?thesis
      using actor_pull_spec [OF assms(3)] by metis
  qed
  then obtain b where b: "pulls (env_now env) ?d a result b" "sa_outstanding a' = sa_outstanding b"
    "length result \<le> pull_capacity mc mo a" by blast
  have "pull_capacity mc mo a < 65536"
    unfolding pull_capacity_def Let_def by (rule unat_u16_less)
  then have room: "unat (ack_value (sa_next_ack_id a)) + length result < 2 ^ 64"
    using assms(2) b(3) by (simp add: counters_have_room_def)
  note tracker = pulls_tracker [OF b(1) inv room]
  show ids: "map pm_ack_id result = ack_ids_from (sa_next_ack_id a) (length result)"
    and "\<forall>p \<in> set result. \<not> is_message_expired a (pm_message p) (env_now env) \<and> pm_deadline p = ?d"
    using b(1) by (simp_all add: pulls_def)
  show "tracker_vals (sa_outstanding a') = mset result + tracker_vals (sa_outstanding a)"
    "tracker_inv (sa_outstanding a')" "length result \<le> pull_capacity mc mo a"
    using tracker b by simp_all
  show "\<forall>p \<in> set result. fmlookup (om_messages (sa_outstanding a)) (pm_ack_id p) = None"
  proof
    fix p assume "p \<in> set result"
    then have "sa_next_ack_id a \<le> pm_ack_id p"
      using ack_ids_from_fresh(2) [OF room] ids by (metis image_eqI list.set_map)
    then show "fmlookup (om_messages (sa_outstanding a)) (pm_ack_id p) = None"
      using inv(2) unfolding issued_def by (metis leD option.exhaust)
  qed
qed

text \<open>
  C13. A pull hands out at most \<^verbatim>\<open>max_count\<close> messages, and with a flow-control cap it never raises
  the number of outstanding messages above the cap, as long as fewer than 65536 messages are
  outstanding (the count is taken modulo 65536).
\<close>

theorem pull_respects_limits:
  assumes "actor_reachable a" and "counters_have_room a"
    and "actor_pull_messages env mc mo a = (Inr result, a')"
    and "tracker_len (sa_outstanding a) < 65536"
  shows "length result \<le> unat mc
    \<and> tracker_len (sa_outstanding a') = tracker_len (sa_outstanding a) + length result
    \<and> (mo \<noteq> 0 \<longrightarrow> tracker_len (sa_outstanding a') \<le> max (unat mo) (tracker_len (sa_outstanding a)))"
proof -
  note facts = pull_reachable [OF assms(1-3)]
  have len: "tracker_len (sa_outstanding a') = tracker_len (sa_outstanding a) + length result"
    using arg_cong [OF facts(2), of size] by (simp add: tracker_len_def size_fmvals)
  moreover have "length result \<le> unat mc"
    "mo \<noteq> 0 \<Longrightarrow> length result \<le> unat mo - tracker_len (sa_outstanding a)"
    using facts(4) assms(4) by (auto simp: pull_capacity_unfold Let_def split: if_splits)
  ultimately show ?thesis by (auto simp: max_def)
qed

theorem pull_respects_limits_witness:
  "length (projr (fst (actor_pull_messages sample_env 10 1 sample_posted))) \<le> unat (10 :: u16)
    \<and> tracker_len (sa_outstanding (snd (actor_pull_messages sample_env 10 1 sample_posted)))
        = tracker_len (sa_outstanding sample_posted)
          + length (projr (fst (actor_pull_messages sample_env 10 1 sample_posted)))
    \<and> tracker_len (sa_outstanding (snd (actor_pull_messages sample_env 10 1 sample_posted)))
        \<le> max (unat (1 :: u16)) (tracker_len (sa_outstanding sample_posted))"
proof -
  let ?r = "actor_pull_messages sample_env 10 1 sample_posted"
  have "?r = (Inr (projr (fst ?r)), snd ?r)"
    by (rule prod_eqI) (simp_all, code_simp)
  moreover have "tracker_len (sa_outstanding sample_posted) < 65536" by code_simp
  ultimately show ?thesis
    using pull_respects_limits [OF sample_reachable(2) sample_room(2)] by fastforce
qed

text \<open>
  C27. The ack ids of a pulled batch are the next consecutive ids; none of them was outstanding before,
  and afterwards each of them identifies exactly the message it was handed out with.
\<close>

theorem pull_ack_ids_fresh:
  assumes "actor_reachable a" and "counters_have_room a"
    and "actor_pull_messages env mc mo a = (Inr result, a')"
  shows "map pm_ack_id result = ack_ids_from (sa_next_ack_id a) (length result)
    \<and> list_all (\<lambda>p. fmlookup (om_messages (sa_outstanding a)) (pm_ack_id p) = None
        \<and> fmlookup (om_messages (sa_outstanding a')) (pm_ack_id p) = Some p) result"
proof -
  note facts = pull_reachable [OF assms]
  have "fmlookup (om_messages (sa_outstanding a')) (pm_ack_id p) = Some p" if "p \<in> set result" for p
  proof -
    have "p \<in># tracker_vals (sa_outstanding a')" using that facts(2) by simp
    then obtain i where "fmlookup (om_messages (sa_outstanding a')) i = Some p"
      by (auto simp: in_fmvals_iff)
    with tracker_inv_ack_id [OF facts(3)] show ?thesis by blast
  qed
  with facts show ?thesis by (simp add: list_all_iff)
qed

theorem pull_ack_ids_fresh_witness:
  "map pm_ack_id [pulled_message_new (sample_message 1 (Some ''k'')) (AckId 1) (AckDeadline 10000000000) 1]
     = ack_ids_from (sa_next_ack_id sample_posted)
         (length [pulled_message_new (sample_message 1 (Some ''k'')) (AckId 1) (AckDeadline 10000000000) 1])
   \<and> list_all (\<lambda>p. fmlookup (om_messages (sa_outstanding sample_posted)) (pm_ack_id p) = None
        \<and> fmlookup (om_messages (sa_outstanding sample_pulled)) (pm_ack_id p) = Some p)
       [pulled_message_new (sample_message 1 (Some ''k'')) (AckId 1) (AckDeadline 10000000000) 1]"
  by (rule pull_ack_ids_fresh [OF sample_reachable(2) sample_room(2) sample_pull])

text \<open>
  C14. A pull loses nothing but expired messages: what was stored before is stored afterwards, except
  messages past their retention; every message handed out was within its retention, carries the
  deadline of this pull and is now outstanding.
\<close>

theorem pull_conserves_messages:
  assumes "actor_reachable a" and "counters_have_room a"
    and "actor_pull_messages env mc mo a = (Inr result, a')"
  shows "(\<exists>dropped. stored a = stored a' + mset dropped
      \<and> list_all (\<lambda>m. is_message_expired a m (env_now env)) dropped)
    \<and> tracker_vals (sa_outstanding a') = mset result + tracker_vals (sa_outstanding a)
    \<and> list_all (\<lambda>p. \<not> is_message_expired a (pm_message p) (env_now env)
        \<and> pm_deadline p = ack_deadline_new (env_now env + int (si_ack_deadline (sa_info a)))) result"
proof -
  note facts = pull_reachable [OF assms]
  obtain dropped where "stored a = stored a' + dropped"
    "\<forall>m \<in># dropped. is_message_expired a m (env_now env)"
    using actor_pull_inv [OF reachable_inv [OF assms(1)] assms(2,3)] by blast
  moreover obtain xs where "dropped = mset xs" by (metis ex_mset)
  ultimately have "\<exists>dropped. stored a = stored a' + mset dropped
      \<and> list_all (\<lambda>m. is_message_expired a m (env_now env)) dropped"
    by (intro exI [of _ xs]) (simp add: list_all_iff)
  with facts show ?thesis by (simp add: list_all_iff)
qed

theorem pull_conserves_messages_witness:
  "(\<exists>dropped. stored sample_posted = stored sample_pulled + mset dropped
      \<and> list_all (\<lambda>m. is_message_expired sample_posted m (env_now sample_env)) dropped)
    \<and> tracker_vals (sa_outstanding sample_pulled)
        = mset [pulled_message_new (sample_message 1 (Some ''k'')) (AckId 1) (AckDeadline 10000000000) 1]
          + tracker_vals (sa_outstanding sample_posted)
    \<and> list_all (\<lambda>p. \<not> is_message_expired sample_posted (pm_message p) (env_now sample_env)
        \<and> pm_deadline p = ack_deadline_new (env_now sample_env + int (si_ack_deadline (sa_info sample_posted))))
       [pulled_message_new (sample_message 1 (Some ''k'')) (AckId 1) (AckDeadline 10000000000) 1]"
  by (rule pull_conserves_messages [OF sample_reachable(2) sample_room(2) sample_pull])

text \<open>
  C15. Order per key: on a subscription with message ordering, a pulled message with an ordering key is
  the first live message of its key's queue, its key had no message out, it is the only message of
  its key in the batch, and the key's later messages stay queued behind it in their order.
\<close>

theorem pull_keeps_key_order:
  assumes "actor_reachable a" and "si_enable_message_ordering (sa_info a)"
    and "actor_pull_messages env mc mo a = (Inr result, a')"
    and "p \<in> set result" and "tm_ordering_key (pm_message p) = Some k"
  shows "k |\<notin>| sa_keys_in_flight a \<and> keyed k (held a) = {#}
    \<and> live_queue (env_now env) a k = pm_message p # key_queue a' k
    \<and> filter (\<lambda>q. tm_ordering_key (pm_message q) = Some k) result = [p]"
proof -
  let ?now = "env_now env"
  have inv: "routed a" "exclusive {#} a"
    using reachable_inv [OF assms(1)] assms(2) by (simp_all add: actor_inv_def)
  have "result \<noteq> []" using assms(4) by auto
  then obtain ks n b where spec:
    "sa_ordered_queues a' = sa_ordered_queues b"
    "map pm_message result = served ?now a ks
       @ filter (\<lambda>m. \<not> is_message_expired a m ?now) (take n (ml_list (sa_backlog a)))"
    "serves ?now a ks (b\<lparr>sa_backlog := sa_backlog a\<rparr>)" "distinct ks" "set ks \<subseteq> fset (pullable_keys a)"
    using actor_pull_spec [OF assms(3)] pull_active [OF assms(3)] by metis
  have "keyed k (mset (filter (\<lambda>m. \<not> is_message_expired a m ?now) (take n (ml_list (sa_backlog a))))) = {#}"
    using inv(1) assms(2) by (intro keyed_none) (auto simp: routed_def dest: in_set_takeD)
  then have "keyed k (mset (map pm_message result)) = keyed k (mset (served ?now a ks))"
    unfolding spec(2) by simp
  then have keyed: "keyed k (mset (map pm_message result))
      = (if k \<in> set ks then mset (take 1 (live_queue ?now a k)) else {#})"
    using served_keyed [OF inv(1) spec(4)] by simp
  have p: "pm_message p \<in># keyed k (mset (map pm_message result))"
    using assms(4,5) by (auto simp: keyed_def)
  then have k: "k \<in> set ks" and "pm_message p \<in># mset (take 1 (live_queue ?now a k))"
    using keyed by (auto split: if_splits)
  then have live: "live_queue ?now a k = pm_message p # drop 1 (live_queue ?now a k)"
    by (cases "live_queue ?now a k") auto
  have "key_queue a' k = drop 1 (live_queue ?now a k)"
    using spec(1,3) k by (simp add: serves_def key_queue_def)
  moreover have pullable: "k |\<notin>| sa_keys_in_flight a"
    using k spec(5) by (auto simp: pullable_keys_iff)
  moreover from this have "keyed k (held a) = {#}"
    using inv(2) by (auto simp: exclusive_def)
  moreover have "filter (\<lambda>q. tm_ordering_key (pm_message q) = Some k) result = [p]"
  proof -
    have "length (filter (\<lambda>q. tm_ordering_key (pm_message q) = Some k) result)
        = size (keyed k (mset (map pm_message result)))"
      by (simp add: keyed_def filter_mset_image_mset flip: size_mset mset_filter)
    also have "\<dots> = 1" using keyed k live by (metis One_nat_def length_Cons list.size(3) size_mset
          take0 take_Suc_Cons)
    finally obtain q where q: "filter (\<lambda>q. tm_ordering_key (pm_message q) = Some k) result = [q]"
      by (metis One_nat_def length_0_conv length_Suc_conv)
    moreover have "p \<in> set (filter (\<lambda>q. tm_ordering_key (pm_message q) = Some k) result)"
      using assms(4,5) by simp
    ultimately show ?thesis by simp
  qed
  ultimately show ?thesis using live by simp
qed

theorem pull_keeps_key_order_witness:
  "''k'' |\<notin>| sa_keys_in_flight sample_posted \<and> keyed ''k'' (held sample_posted) = {#}
    \<and> live_queue (env_now sample_env) sample_posted ''k''
        = pm_message (pulled_message_new (sample_message 1 (Some ''k'')) (AckId 1) (AckDeadline 10000000000) 1)
          # key_queue sample_pulled ''k''
    \<and> filter (\<lambda>q. tm_ordering_key (pm_message q) = Some ''k'')
        [pulled_message_new (sample_message 1 (Some ''k'')) (AckId 1) (AckDeadline 10000000000) 1]
      = [pulled_message_new (sample_message 1 (Some ''k'')) (AckId 1) (AckDeadline 10000000000) 1]"
  by (rule pull_keeps_key_order [OF sample_reachable(2) _ sample_pull]; code_simp)

text \<open>
  C28. Progress: an uncapped pull of at least one message by an attached subscription returns a
  non-empty batch whenever some backlog message, or some message of a key that is not in flight,
  is within its retention.
\<close>

theorem pull_makes_progress:
  assumes "\<not> sa_deleted a" and "\<not> si_detached (sa_info a)" and "0 < mc"
    and "(\<exists>m \<in> set (ml_list (sa_backlog a)). \<not> is_message_expired a m (env_now env))
      \<or> (\<exists>k. k |\<notin>| sa_keys_in_flight a \<and> live_queue (env_now env) a k \<noteq> [])"
  shows "\<exists>p ps. fst (actor_pull_messages env mc 0 a) = Inr (p # ps)"
proof (rule ccontr)
  assume none: "\<not> ?thesis"
  let ?now = "env_now env"
  have "0 < unat mc" using assms(3) by (simp add: word_less_nat_alt)
  then have cap: "0 < pull_capacity mc 0 a" by (simp add: pull_capacity_unfold Let_def)
  obtain r a' where pull: "actor_pull_messages env mc 0 a = (r, a')" by fastforce
  then obtain result where r: "r = Inr result"
    using assms(1,2) cap by (auto simp: actor_pull_messages_def Let_def split: prod.splits)
  then have empty: "result = []" using none pull by (cases result) auto
  obtain ks n where spec:
    "map pm_message result = served ?now a ks
       @ filter (\<lambda>m. \<not> is_message_expired a m ?now) (take n (ml_list (sa_backlog a)))"
    "ml_list (sa_backlog a') = drop n (ml_list (sa_backlog a))"
    "ml_list (sa_backlog a') \<noteq> [] \<Longrightarrow> length result = pull_capacity mc 0 a"
    "length result < pull_capacity mc 0 a \<Longrightarrow> set ks = fset (pullable_keys a)"
    using actor_pull_spec [OF pull [unfolded r] assms(1)] cap by (metis less_numeral_extra(3))
  have "length (ml_list (sa_backlog a)) \<le> n"
    using spec(2,3) empty cap by auto
  then have "\<forall>m \<in> set (ml_list (sa_backlog a)). is_message_expired a m ?now"
    using spec(1) empty by (auto simp: filter_empty_conv)
  with assms(4) obtain k where k: "k |\<notin>| sa_keys_in_flight a" "live_queue ?now a k \<noteq> []" by blast
  then have "key_queue a k \<noteq> []" by auto
  with k(1) have "k \<in> set ks"
    using spec(4) empty cap by (simp add: pullable_keys_iff)
  moreover have "served ?now a ks = []" using spec(1) empty by simp
  ultimately show False
    using k(2) by (auto simp: served_def)
qed

theorem pull_makes_progress_witness:
  "\<exists>p ps. fst (actor_pull_messages sample_env 10 0 sample_posted) = Inr (p # ps)"
  by (rule pull_makes_progress) (code_simp, code_simp, code_simp,
      intro disjI2 exI [of _ "''k''"], code_simp)

end
