(* ===== verification/Actor_Acknowledge.thy ===== *)
theory Actor_Acknowledge
  imports Actor_Properties
begin

text \<open>
  Acknowledgements and deadline changes: which ids are accepted, what they remove, and that an
  acknowledged ordering key becomes pullable again.
\<close>

section \<open>Acknowledge\<close>

lemma release_acked_keys:
  "release_acked ps freed a = (freed', a') \<Longrightarrow> si_enable_message_ordering (sa_info a) \<Longrightarrow>
   fset (sa_keys_in_flight a')
     = fset (sa_keys_in_flight a) - {k. \<exists>p \<in> set ps. tm_ordering_key (pm_message p) = Some k}
   \<and> (freed \<noteq> [] \<or> (\<exists>p \<in> set ps. \<exists>k. tm_ordering_key (pm_message p) = Some k \<and> k |\<in>| sa_keys_in_flight a)
      \<longrightarrow> freed' \<noteq> [])"
proof (induction ps arbitrary: freed a)
  case (Cons p ps)
  let ?a1 = "forget_attempts (pm_message p) a"
  show ?case
  proof (cases "tm_ordering_key (pm_message p)")
    case None
    then have "release_acked ps freed ?a1 = (freed', a')" using Cons.prems(1) by (simp add: Let_def)
    from Cons.IH [OF this] Cons.prems(2) None show ?thesis by auto
  next
    case (Some k)
    let ?a2 = "?a1\<lparr>sa_keys_in_flight := sa_keys_in_flight ?a1 |-| {|k|}\<rparr>"
    let ?f = "if k |\<in>| sa_keys_in_flight a then freed @ [k] else freed"
    have "release_acked ps ?f ?a2 = (freed', a')"
      using Cons.prems Some by (simp add: Let_def)
    from Cons.IH [OF this] Cons.prems(2) Some show ?thesis by (auto split: if_splits)
  qed
qed auto

lemma acknowledge_unfold:
  assumes "\<not> sa_deleted a"
    and "tracker_remove (filter (\<lambda>i. tracker_contains i (sa_outstanding a)) ids) (sa_outstanding a)
      = (acked, t)"
    and "release_acked acked [] (a\<lparr>sa_outstanding := t\<rparr>) = (freed, b)"
    and "actor_acknowledge_messages ids a = (r, a')"
  shows "r = Inr (ack_split ids (sa_outstanding a))" "sa_outstanding a' = sa_outstanding b"
    "stored a' = stored b" "sa_keys_in_flight a' = sa_keys_in_flight b"
    "sa_ordered_queues a' = sa_ordered_queues b" "sa_deleted a' = sa_deleted b"
    "sa_effects a' = sa_effects b @ (if acked \<noteq> [] then [NotifyOutstandingFreed] else [])
       @ (if freed \<noteq> [] then [NotifyNewMessagesAvailable] else [])"
  using assms by (cases "acked = []"; cases "freed = []";
      auto simp: actor_acknowledge_messages_def ack_split_def Let_def)+

lemma release_acked_deleted:
  "release_acked ps freed a = (freed', a') \<Longrightarrow> sa_deleted a' = sa_deleted a"
  by (induction ps freed a rule: release_acked.induct) (auto simp: Let_def split: option.splits if_splits)

text \<open>The messages whose ack id is listed.\<close>

definition acked_by :: "ack_id list \<Rightarrow> subscription_actor \<Rightarrow> pulled_message multiset" where
  "acked_by ids a = filter_mset (\<lambda>p. pm_ack_id p \<in> set ids) (tracker_vals (sa_outstanding a))"

lemma tracker_remove_exact:
  assumes inv: "tracker_inv t" and rem: "tracker_remove ids t = (vs, t')"
  shows "mset vs = filter_mset (\<lambda>p. pm_ack_id p \<in> set ids) (tracker_vals t)"
proof -
  note spec = tracker_remove_spec [OF inv rem]
  have "filter_mset (\<lambda>p. pm_ack_id p \<in> set ids) (mset vs) = mset vs"
    using spec(3) by (auto simp: filter_mset_eq_conv)
  moreover have "filter_mset (\<lambda>p. pm_ack_id p \<in> set ids) (tracker_vals t') = {#}"
  proof -
    have "pm_ack_id p \<notin> set ids" if p: "p \<in># tracker_vals t'" for p
    proof -
      obtain i where i: "fmlookup (om_messages t') i = Some p"
        using p by (auto simp: in_fmvals_iff)
      then have "pm_ack_id p = i" by (rule tracker_inv_ack_id [OF spec(1)])
      then show ?thesis using i spec(4) [of i] by (auto split: if_splits)
    qed
    then show ?thesis by (auto simp: filter_mset_eq_conv)
  qed
  ultimately show ?thesis using spec(2) by simp
qed

lemma acknowledge_facts:
  assumes inv: "actor_inv {#} a" and active: "\<not> sa_deleted a"
    and ack: "actor_acknowledge_messages ids a = (r, a')"
  shows "r = Inr (ack_split ids (sa_outstanding a))"
    "\<And>i. fmlookup (om_messages (sa_outstanding a')) i
      = (if i \<in> set ids then None else fmlookup (om_messages (sa_outstanding a)) i)"
    "stored a = stored a' + image_mset pm_message (acked_by ids a)"
    "sa_deleted a' = sa_deleted a" "sa_ordered_queues a' = sa_ordered_queues a"
    "si_enable_message_ordering (sa_info a) \<Longrightarrow> p \<in># acked_by ids a \<Longrightarrow>
       tm_ordering_key (pm_message p) = Some k \<Longrightarrow> k |\<in>| sa_keys_in_flight a \<Longrightarrow>
       k |\<notin>| sa_keys_in_flight a'
       \<and> sa_effects a' = sa_effects a @ [NotifyOutstandingFreed, NotifyNewMessagesAvailable]"
proof -
  let ?known = "filter (\<lambda>i. tracker_contains i (sa_outstanding a)) ids"
  obtain acked t where rem: "tracker_remove ?known (sa_outstanding a) = (acked, t)" by fastforce
  obtain freed b where rel: "release_acked acked [] (a\<lparr>sa_outstanding := t\<rparr>) = (freed, b)" by fastforce
  note unfold = acknowledge_unfold [OF active rem rel ack]
  have ti: "tracker_inv (sa_outstanding a)" using inv by (simp add: actor_inv_def)
  note spec = tracker_remove_spec [OF ti rem]
  have lookup: "fmlookup (om_messages t) i
      = (if i \<in> set ids then None else fmlookup (om_messages (sa_outstanding a)) i)" for i
    using spec(4) [of i] by (auto simp: tracker_contains_def hm_contains_def)
  have acked: "mset acked = acked_by ids a"
  proof -
    have "filter_mset (\<lambda>p. pm_ack_id p \<in> set ?known) (tracker_vals (sa_outstanding a))
        = filter_mset (\<lambda>p. pm_ack_id p \<in> set ids) (tracker_vals (sa_outstanding a))"
    proof (rule filter_mset_cong)
      fix p assume "p \<in># tracker_vals (sa_outstanding a)"
      then have "tracker_contains (pm_ack_id p) (sa_outstanding a)"
        using tracker_inv_ack_id [OF ti] by (auto simp: in_fmvals_iff tracker_contains_def hm_contains_def)
      then show "(pm_ack_id p \<in> set ?known) = (pm_ack_id p \<in> set ids)" by auto
    qed simp
    then show ?thesis using tracker_remove_exact [OF ti rem] by (simp add: acked_by_def)
  qed
  have dom: "\<exists>m'. fmlookup (om_messages (sa_outstanding a)) i = Some m'"
    if "fmlookup (om_messages t) i = Some m" for i m
    using that by (simp add: lookup split: if_splits)
  have vals: "payloads (sa_outstanding a) = image_mset pm_message (mset acked) + payloads t"
    using spec(2) by simp
  note take = actor_inv_take [OF inv spec(1) vals dom]
  have "actor_inv (mset (map pm_message acked)) (a\<lparr>sa_outstanding := t\<rparr>)" using take(1) by simp
  note rel_inv = release_acked_inv [OF this rel]
  show "fmlookup (om_messages (sa_outstanding a')) i
      = (if i \<in> set ids then None else fmlookup (om_messages (sa_outstanding a)) i)" for i
    using lookup unfold(2) rel_inv by simp
  show "stored a = stored a' + image_mset pm_message (acked_by ids a)"
    using take(2) acked unfold(3) rel_inv by simp
  show "sa_deleted a' = sa_deleted a" using release_acked_deleted [OF rel] unfold(6) by simp
  show "r = Inr (ack_split ids (sa_outstanding a))" "sa_ordered_queues a' = sa_ordered_queues a"
    using unfold rel_inv by simp_all
  show "k |\<notin>| sa_keys_in_flight a'
      \<and> sa_effects a' = sa_effects a @ [NotifyOutstandingFreed, NotifyNewMessagesAvailable]"
    if "si_enable_message_ordering (sa_info a)" "p \<in># acked_by ids a"
      "tm_ordering_key (pm_message p) = Some k" "k |\<in>| sa_keys_in_flight a"
  proof -
    have p: "p \<in> set acked" using that(2) acked by (metis set_mset_mset)
    with that release_acked_keys [OF rel] have "freed \<noteq> []" "k |\<notin>| sa_keys_in_flight b" by auto
    moreover have "acked \<noteq> []" using p by auto
    ultimately show ?thesis using unfold(4,7) rel_inv by simp
  qed
qed

lemma acknowledge_stored:
  assumes "actor_inv {#} a" and "actor_acknowledge_messages ids a = (r, a')"
  shows "\<exists>x. stored a = stored a' + x"
proof (cases "sa_deleted a")
  case True
  then show ?thesis using assms(2) by (auto simp: actor_acknowledge_messages_def)
next
  case False
  from acknowledge_facts(3) [OF assms(1) False assms(2)] show ?thesis by blast
qed

text \<open>
  C16. Acknowledging splits the ids into the outstanding ones and the others in their given order,
  removes exactly the messages with a listed id, leaves every other outstanding message alone, and a
  second acknowledgement of the same ids finds them all invalid.
\<close>

theorem acknowledge_exact:
  assumes "actor_reachable a" and "\<not> sa_deleted a"
    and "actor_acknowledge_messages ids a = (r, a')"
  shows "r = Inr \<lparr>ao_valid = filter (\<lambda>i. tracker_contains i (sa_outstanding a)) ids,
                  ao_invalid = filter (\<lambda>i. \<not> tracker_contains i (sa_outstanding a)) ids\<rparr>
    \<and> (\<forall>i. fmlookup (om_messages (sa_outstanding a')) i
         = (if i \<in> set ids then None else fmlookup (om_messages (sa_outstanding a)) i))
    \<and> stored a = stored a' + image_mset pm_message (acked_by ids a)
    \<and> fst (actor_acknowledge_messages ids a') = Inr \<lparr>ao_valid = [], ao_invalid = ids\<rparr>"
proof -
  note facts = acknowledge_facts(1-4) [OF reachable_inv [OF assms(1)] assms(2,3)]
  have "fst (actor_acknowledge_messages ids a') = Inr (ack_split ids (sa_outstanding a'))"
    using assms(2) facts(4) by (simp add: actor_acknowledge_messages_def Let_def split_def)
  also have "ack_split ids (sa_outstanding a') = \<lparr>ao_valid = [], ao_invalid = ids\<rparr>"
    using facts(2) by (auto simp: ack_split_def tracker_contains_def hm_contains_def
        filter_empty_conv intro!: filter_True)
  finally show ?thesis using facts(1-3) by (simp add: ack_split_def)
qed

theorem acknowledge_exact_witness:
  "Inr \<lparr>ao_valid = [AckId 1], ao_invalid = [AckId 7]\<rparr>
      = (Inr \<lparr>ao_valid = filter (\<lambda>i. tracker_contains i (sa_outstanding sample_pulled)) [AckId 1, AckId 7],
           ao_invalid = filter (\<lambda>i. \<not> tracker_contains i (sa_outstanding sample_pulled)) [AckId 1, AckId 7]\<rparr>
         :: acknowledge_messages_error + ack_outcome)
    \<and> (\<forall>i. fmlookup (om_messages (sa_outstanding (snd (actor_acknowledge_messages [AckId 1, AckId 7] sample_pulled)))) i
         = (if i \<in> set [AckId 1, AckId 7] then None else fmlookup (om_messages (sa_outstanding sample_pulled)) i))
    \<and> stored sample_pulled = stored (snd (actor_acknowledge_messages [AckId 1, AckId 7] sample_pulled))
        + image_mset pm_message (acked_by [AckId 1, AckId 7] sample_pulled)
    \<and> fst (actor_acknowledge_messages [AckId 1, AckId 7]
        (snd (actor_acknowledge_messages [AckId 1, AckId 7] sample_pulled)))
        = Inr \<lparr>ao_valid = [], ao_invalid = [AckId 1, AckId 7]\<rparr>"
  by (rule acknowledge_exact [OF sample_reachable(3)]) (code_simp, simp add: prod_eq_iff, code_simp)

text \<open>
  Acknowledging the message of an ordering key releases the key: it is no longer in flight, it is
  pullable exactly when more messages of the key are queued, and waiting pulls are woken.
\<close>

theorem acknowledge_releases_key:
  assumes "actor_reachable a" and "\<not> sa_deleted a" and "si_enable_message_ordering (sa_info a)"
    and "fmlookup (om_messages (sa_outstanding a)) i = Some p" and "i \<in> set ids"
    and "tm_ordering_key (pm_message p) = Some k"
    and "actor_acknowledge_messages ids a = (r, a')"
  shows "k |\<notin>| sa_keys_in_flight a'
    \<and> (k |\<in>| pullable_keys a' \<longleftrightarrow> key_queue a k \<noteq> [])
    \<and> sa_effects a' = sa_effects a @ [NotifyOutstandingFreed, NotifyNewMessagesAvailable]"
proof -
  note facts = acknowledge_facts(5,6) [OF reachable_inv [OF assms(1)] assms(2,7)]
  have inv: "tracker_inv (sa_outstanding a)" "exclusive {#} a"
    using reachable_inv [OF assms(1)] assms(3) by (simp_all add: actor_inv_def)
  have p: "p \<in># acked_by ids a"
    using assms(4,5) tracker_inv_ack_id [OF inv(1) assms(4)] by (auto simp: acked_by_def in_fmvals_iff)
  have "p \<in># tracker_vals (sa_outstanding a)" using assms(4) by (auto simp: in_fmvals_iff)
  then have "pm_message p \<in># keyed k (held a)"
    using assms(6) by (auto simp: keyed_def held_def)
  then have "keyed k (held a) \<noteq> {#}" by auto
  then have "k |\<in>| sa_keys_in_flight a"
    using inv(2) by (auto simp: exclusive_def)
  note released = facts(2) [OF assms(3) p assms(6) this]
  then have "k |\<in>| pullable_keys a' \<longleftrightarrow> key_queue a k \<noteq> []"
    using facts(1) by (simp add: pullable_keys_iff key_queue_def)
  with released show ?thesis by simp
qed

theorem acknowledge_releases_key_witness:
  "''k'' |\<notin>| sa_keys_in_flight (snd (actor_acknowledge_messages [AckId 1] sample_pulled))
    \<and> (''k'' |\<in>| pullable_keys (snd (actor_acknowledge_messages [AckId 1] sample_pulled))
         \<longleftrightarrow> key_queue sample_pulled ''k'' \<noteq> [])
    \<and> sa_effects (snd (actor_acknowledge_messages [AckId 1] sample_pulled))
        = sa_effects sample_pulled @ [NotifyOutstandingFreed, NotifyNewMessagesAvailable]"
  by (rule acknowledge_releases_key [OF sample_reachable(3) _ _ _ _ _ prod.collapse [symmetric],
        where i = "AckId 1" and p = "pulled_message_new (sample_message 1 (Some ''k'')) (AckId 1)
          (AckDeadline 10000000000) 1"]; code_simp)

end
