(* ===== verification/Actor_Redelivery.thy ===== *)
theory Actor_Redelivery
  imports Actor_Acknowledge
begin

text \<open>
  Redelivery: what a deadline change or a nack does to each outstanding message, when a message goes
  to the dead letter topic, when it waits for its backoff, and two places where an ordered
  subscription is not woken or not released.
\<close>

definition dead_letter_info :: subscription_info where
  "dead_letter_info =
     sample_info\<lparr>si_dead_letter_policy :=
       Some \<lparr>dlp_dead_letter_topic = topic_name_new ''p'' ''dead'', dlp_max_delivery_attempts = 1\<rparr>\<rparr>"

definition dead_letter_pulled :: subscription_actor where
  "dead_letter_pulled =
     snd (actor_pull_messages sample_env 10 0
       (actor_post_messages [sample_message 1 (Some ''k''), sample_message 2 (Some ''k'')]
         (actor_start 1 dead_letter_info True)))"

definition retry_info :: subscription_info where
  "retry_info =
     sample_info\<lparr>si_retry_policy :=
       Some \<lparr>rp_minimum_backoff = from_secs 1, rp_maximum_backoff = from_secs 60\<rparr>\<rparr>"

definition retry_posted :: subscription_actor where
  "retry_posted = actor_post_messages [sample_message 1 (Some ''k'')] (actor_start 1 retry_info True)"

definition retry_pulled :: subscription_actor where
  "retry_pulled = snd (actor_pull_messages sample_env 10 0 retry_posted)"

section \<open>Modifying deadlines\<close>

lemma modify_facts:
  assumes reach: "actor_reachable a" and room: "counters_have_room a" and active: "\<not> sa_deleted a"
    and modify: "actor_modify_deadline env mods a = (r, a')"
  shows "r = Inr (ack_split (map dm_ack_id mods) (sa_outstanding a))"
    "\<And>i. fmlookup (om_messages (sa_outstanding a')) i
      = fold (modify_entry i) mods (fmlookup (om_messages (sa_outstanding a)) i)"
    "\<exists>x. stored a = stored a' + x"
    "si_dead_letter_policy (sa_info a) = None \<Longrightarrow> stored a' = stored a"
proof -
  have inv: "actor_inv {#} a" by (rule reachable_inv [OF reach])
  show "\<exists>x. stored a = stored a' + x"
    "si_dead_letter_policy (sa_info a) = None \<Longrightarrow> stored a' = stored a"
    using actor_modify_inv [OF inv room modify] by blast+
  obtain nacks t where mod: "tracker_modify mods (sa_outstanding a) = (nacks, t)" by fastforce
  let ?b = "a\<lparr>sa_outstanding := t, sa_counters := (sa_counters a)
    \<lparr>ct_nacked := ct_nacked (sa_counters a) + of_nat (length nacks)\<rparr>\<rparr>"
  have a': "r = Inr (ack_split (map dm_ack_id mods) (sa_outstanding a))" "a' = requeue_messages env nacks ?b"
    using modify active mod by (auto simp: actor_modify_deadline_def Let_def)
  then show "r = Inr (ack_split (map dm_ack_id mods) (sa_outstanding a))" by simp
  have "tracker_inv (sa_outstanding a)" using inv by (simp add: actor_inv_def)
  note spec = tracker_modify_spec [OF this mod] and dom = tracker_modify_dom [OF this mod]
  have take: "actor_inv (mset (map pm_message nacks)) ?b"
    using actor_inv_take(1) [OF inv spec(1) spec(2) dom] by simp
  have "length nacks \<le> tracker_len (sa_outstanding a)"
    using arg_cong [OF spec(2), of size] by (simp add: tracker_len_payloads)
  then have "unat (rq_next_seq (sa_retry_queue ?b)) + length nacks < 2 ^ 64"
    using room by (simp add: counters_have_room_def)
  from requeue_messages_inv(4) [OF take this] have "sa_outstanding a' = t" by (simp add: a'(2))
  then show "fmlookup (om_messages (sa_outstanding a')) i
      = fold (modify_entry i) mods (fmlookup (om_messages (sa_outstanding a)) i)" for i
    using spec(3) by simp
qed

text \<open>
  C29. Modifying deadlines acts on each ack id separately, in the order of the modifications: a new
  deadline replaces the old one, a nack removes the message from the outstanding ones, unknown ids
  are reported as invalid and change nothing. Messages are never lost unless a dead letter policy is
  configured, and never duplicated.
\<close>

theorem modify_deadline_exact:
  assumes "actor_reachable a" and "counters_have_room a" and "\<not> sa_deleted a"
    and "actor_modify_deadline env mods a = (r, a')"
  shows "r = Inr \<lparr>ao_valid = filter (\<lambda>i. tracker_contains i (sa_outstanding a)) (map dm_ack_id mods),
                  ao_invalid = filter (\<lambda>i. \<not> tracker_contains i (sa_outstanding a)) (map dm_ack_id mods)\<rparr>
    \<and> (\<forall>i. fmlookup (om_messages (sa_outstanding a')) i
         = fold (modify_entry i) mods (fmlookup (om_messages (sa_outstanding a)) i))
    \<and> (\<exists>x. stored a = stored a' + x)
    \<and> (si_dead_letter_policy (sa_info a) = None \<longrightarrow> stored a' = stored a)"
  using modify_facts [OF assms] by (simp add: ack_split_def)

theorem modify_deadline_exact_witness:
  "fst (actor_modify_deadline sample_env [deadline_modification_nack (AckId 1)] sample_pulled)
     = Inr \<lparr>ao_valid = filter (\<lambda>i. tracker_contains i (sa_outstanding sample_pulled))
                (map dm_ack_id [deadline_modification_nack (AckId 1)]),
             ao_invalid = filter (\<lambda>i. \<not> tracker_contains i (sa_outstanding sample_pulled))
                (map dm_ack_id [deadline_modification_nack (AckId 1)])\<rparr>
    \<and> (\<forall>i. fmlookup (om_messages (sa_outstanding
            (snd (actor_modify_deadline sample_env [deadline_modification_nack (AckId 1)] sample_pulled)))) i
         = fold (modify_entry i) [deadline_modification_nack (AckId 1)]
             (fmlookup (om_messages (sa_outstanding sample_pulled)) i))
    \<and> (\<exists>x. stored sample_pulled
         = stored (snd (actor_modify_deadline sample_env [deadline_modification_nack (AckId 1)] sample_pulled)) + x)
    \<and> stored (snd (actor_modify_deadline sample_env [deadline_modification_nack (AckId 1)] sample_pulled))
        = stored sample_pulled"
proof -
  have "\<not> sa_deleted sample_pulled" "si_dead_letter_policy (sa_info sample_pulled) = None"
    by code_simp+
  then show ?thesis
    using modify_deadline_exact [OF sample_reachable(3) sample_room(3) _ prod.collapse [symmetric]]
    by simp
qed

section \<open>Dead letters\<close>

text \<open>The number of the delivery that a message is on: the first unless it was requeued.\<close>

definition attempt_of :: "subscription_actor \<Rightarrow> topic_message \<Rightarrow> u16" where
  "attempt_of a m = (case fmlookup (sa_delivery_attempts a) (tm_id m) of None \<Rightarrow> 1 | Some n \<Rightarrow> n)"

lemma bump_attempt_eq:
  assumes "unat (attempt_of a m) < 65535"
  shows "bump_attempt m a = (attempt_of a m + 1,
    a\<lparr>sa_delivery_attempts := fmupd (tm_id m) (attempt_of a m + 1) (sa_delivery_attempts a)\<rparr>)"
  using assms by (auto simp: bump_attempt_def attempt_of_def saturating_add_def Let_def
      split: option.splits)

lemma unat_attempt_Suc: "unat (n :: u16) < 65535 \<Longrightarrow> unat (n + 1) = unat n + 1"
  by (simp add: unat_word_ariths)

lemma exceeds_attempts_eq:
  assumes "si_dead_letter_policy (sa_info a) = Some dlp" and "unat (n :: u16) < 65535"
  shows "exceeds_attempts (a\<lparr>sa_delivery_attempts := x\<rparr>) (n + 1)
    \<longleftrightarrow> dlp_max_delivery_attempts dlp \<le> int (unat n)"
  using assms unat_attempt_Suc [OF assms(2)] by (auto simp: exceeds_attempts_def)

lemma requeue_one_attempts [simp]:
  "sa_delivery_attempts (requeue_one m a) = sa_delivery_attempts a"
  "sa_counters (requeue_one m a) = sa_counters a"
  by (auto simp: requeue_one_def Let_def set_key_queue_def split: option.splits bool.splits)


definition sample_delivery :: pulled_message where
  "sample_delivery =
     pulled_message_new (sample_message 1 (Some ''k'')) (AckId 1) (AckDeadline 10000000000) 1"



text \<open>
  When a message with an ordering key is nacked without a retry policy it returns to the head of
  its queue and its key becomes pullable, but no wake-up is sent: the handler only looks at the
  backlog of messages without a key.
\<close>

theorem ordered_nack_sends_no_wakeup:
  "(let a = snd (actor_modify_deadline sample_env [deadline_modification_nack (AckId 1)] sample_pulled)
    in key_queue a ''k'' = [sample_message 1 (Some ''k''), sample_message 2 (Some ''k'')]
       \<and> ''k'' |\<in>| pullable_keys a
       \<and> sa_effects a = sa_effects sample_pulled)"
  by code_simp

section \<open>Retry backoff\<close>

lemma tracker_modify_nack:
  assumes "fmlookup (om_messages t) i = Some p"
  shows "fst (tracker_modify [deadline_modification_nack i] t) = [p]"
  using assms by (simp add: tracker_modify_def tracker_modify_one_def deadline_modification_nack_def
      Let_def split_def)

lemma requeue_retry:
  assumes "si_dead_letter_policy (sa_info a) = None" and "si_retry_policy (sa_info a) = Some policy"
    and "unat (attempt_of a (pm_message p)) < 65535"
  shows "sa_retry_queue (requeue_messages env [p] a)
    = retry_add (pm_message p)
        (ack_deadline_new (env_now env
           + int (calculate_backoff policy (attempt_of a (pm_message p) + 1)))) (sa_retry_queue a)"
  using assms bump_attempt_eq [OF assms(3)]
  by (simp add: requeue_messages_def requeue_step_def exceeds_attempts_def Let_def)

text \<open>
  C30. With a retry policy (and no dead letter policy) a nacked message waits for its backoff: it is in
  the retry queue under the deadline computed from its next attempt number; before that deadline no
  wake-up of the retry queue takes it, and from then on every wake-up does.
\<close>

theorem nack_waits_for_backoff:
  assumes "actor_reachable a" and "counters_have_room a" and "\<not> sa_deleted a"
    and "si_dead_letter_policy (sa_info a) = None" and "si_retry_policy (sa_info a) = Some policy"
    and "fmlookup (om_messages (sa_outstanding a)) i = Some p"
    and "unat (attempt_of a (pm_message p)) < 65535"
    and "actor_modify_deadline env [deadline_modification_nack i] a = (r, a')"
    and "d = ack_deadline_new (env_now env
      + int (calculate_backoff policy (attempt_of a (pm_message p) + 1)))"
  shows "retry_contents (sa_retry_queue a') = add_mset (d, pm_message p) (retry_contents (sa_retry_queue a))
    \<and> (if at < deadline_time d
        then (d, pm_message p) \<in># retry_contents (snd (take_ready at (sa_retry_queue a')))
        else pm_message p \<in> set (fst (take_ready at (sa_retry_queue a'))))"
proof -
  obtain t where mod: "tracker_modify [deadline_modification_nack i] (sa_outstanding a) = ([p], t)"
    using tracker_modify_nack [OF assms(6)]
    by (cases "tracker_modify [deadline_modification_nack i] (sa_outstanding a)") auto
  let ?b = "a\<lparr>sa_outstanding := t, sa_counters := (sa_counters a)
    \<lparr>ct_nacked := ct_nacked (sa_counters a) + of_nat (length [p])\<rparr>\<rparr>"
  have a': "a' = requeue_messages env [p] ?b"
    using assms(3,8) mod by (auto simp: actor_modify_deadline_def Let_def)
  have "attempt_of ?b (pm_message p) = attempt_of a (pm_message p)" by (simp add: attempt_of_def)
  then have q: "sa_retry_queue a' = retry_add (pm_message p) d (sa_retry_queue a)"
    unfolding a' using requeue_retry [of ?b policy p env] assms(4,5,7,9) by simp
  have inv: "actor_inv {#} a" by (rule reachable_inv [OF assms(1)])
  then have ri: "retry_inv (sa_retry_queue a)" by (simp add: actor_inv_def)
  have ri': "retry_inv (sa_retry_queue a')"
    using actor_modify_inv [OF inv assms(2,8)] by (simp add: actor_inv_def)
  have cont: "retry_contents (sa_retry_queue a')
      = add_mset (d, pm_message p) (retry_contents (sa_retry_queue a))"
    unfolding q by (rule retry_add_contents [OF ri])
  obtain vs q' where take: "take_ready at (sa_retry_queue a') = (vs, q')" by fastforce
  note spec = take_ready_spec [OF ri' take]
  have "pm_message p \<in># mset vs" if "\<not> at < deadline_time d"
    unfolding spec(3) cont using that by simp
  then show ?thesis
    using cont spec(2) take by auto
qed

lemma retry_sample:
  "actor_reachable retry_pulled" "counters_have_room retry_pulled"
proof -
  have room: "counters_have_room (actor_start 1 retry_info True)" "counters_have_room retry_posted"
    and run: "\<not> stopped (actor_start 1 retry_info True)" "\<not> stopped retry_posted"
    by code_simp+
  have "actor_step (actor_start 1 retry_info True)
      (Request sample_env (PostMessages [sample_message 1 (Some ''k'')])) retry_posted"
    by (rule actor_step.step) (simp_all add: room run retry_posted_def)
  then have "actor_reachable retry_posted"
    by (rule actor_reachable.next_step [OF actor_reachable.start])
  moreover have "actor_step retry_posted (Request sample_env (PullMessages 10 0)) retry_pulled"
    by (rule actor_step.step) (simp_all add: room run retry_pulled_def)
  ultimately show "actor_reachable retry_pulled" by (rule actor_reachable.next_step)
  show "counters_have_room retry_pulled" by code_simp
qed

theorem nack_waits_for_backoff_witness:
  "pm_message sample_delivery \<in> set (fst (take_ready 5000000000 (sa_retry_queue
     (snd (actor_modify_deadline sample_env [deadline_modification_nack (AckId 1)] retry_pulled)))))"
proof -
  let ?policy = "\<lparr>rp_minimum_backoff = from_secs 1, rp_maximum_backoff = from_secs 60\<rparr>"
  have facts: "\<not> sa_deleted retry_pulled" "si_dead_letter_policy (sa_info retry_pulled) = None"
    "si_retry_policy (sa_info retry_pulled) = Some ?policy"
    "fmlookup (om_messages (sa_outstanding retry_pulled)) (AckId 1) = Some sample_delivery"
    "unat (attempt_of retry_pulled (pm_message sample_delivery)) < 65535"
    "deadline_time (ack_deadline_new (env_now sample_env + int (calculate_backoff ?policy
       (attempt_of retry_pulled (pm_message sample_delivery) + 1)))) = 2000000000"
    by code_simp+
  from nack_waits_for_backoff [OF retry_sample facts(1-5) prod.collapse [symmetric] refl,
      of sample_env 5000000000] facts(6)
  show ?thesis by simp
qed

end
