(* ===== verification/Actor_Lifecycle.thy ===== *)
theory Actor_Lifecycle
  imports Actor_Redelivery
begin

text \<open>
  Posting, expiry, seeking, detaching, deleting and statistics of a subscription, and the accounting
  over whole runs of the select loop.
\<close>

section \<open>Posting\<close>

lemma post_loop_order:
  "post_loop ms had a = (had', a') \<Longrightarrow>
   sa_info a' = sa_info a \<and> sa_compiled_filter a' = sa_compiled_filter a
   \<and> sa_effects a' = sa_effects a \<and> sa_outstanding a' = sa_outstanding a
   \<and> sa_retry_queue a' = sa_retry_queue a \<and> sa_keys_in_flight a' = sa_keys_in_flight a
   \<and> (if si_enable_message_ordering (sa_info a)
      then (\<forall>k. key_queue a' k = key_queue a k
               @ filter (\<lambda>m. tm_ordering_key m = Some k) (filter (filter_accepts a) ms))
           \<and> ml_list (sa_backlog a') = ml_list (sa_backlog a)
               @ filter (\<lambda>m. tm_ordering_key m = None) (filter (filter_accepts a) ms)
      else sa_ordered_queues a' = sa_ordered_queues a
           \<and> ml_list (sa_backlog a') = ml_list (sa_backlog a) @ filter (filter_accepts a) ms)
   \<and> (had' \<longleftrightarrow> had \<or> filter (filter_accepts a) ms \<noteq> [])"
proof (induction ms arbitrary: had a)
  case (Cons m ms)
  show ?case
  proof (cases "filter_accepts a m")
    case False
    then show ?thesis using Cons.IH [of had a] Cons.prems by simp
  next
    case True
    have one: "sa_info (post_one m a) = sa_info a" "filter_accepts (post_one m a) = filter_accepts a"
      "sa_compiled_filter (post_one m a) = sa_compiled_filter a"
      "sa_effects (post_one m a) = sa_effects a" "sa_outstanding (post_one m a) = sa_outstanding a"
      "sa_retry_queue (post_one m a) = sa_retry_queue a"
      "sa_keys_in_flight (post_one m a) = sa_keys_in_flight a"
      "\<And>k. key_queue (post_one m a) k = (if si_enable_message_ordering (sa_info a)
         \<and> tm_ordering_key m = Some k then key_queue a k @ [m] else key_queue a k)"
      "\<not> si_enable_message_ordering (sa_info a) \<Longrightarrow>
         sa_ordered_queues (post_one m a) = sa_ordered_queues a"
      "ml_list (sa_backlog (post_one m a)) = (if si_enable_message_ordering (sa_info a)
         \<and> tm_ordering_key m \<noteq> None then ml_list (sa_backlog a) else ml_list (sa_backlog a) @ [m])"
      by (auto simp: post_one_def filter_accepts_def messages_append_def fun_eq_iff
          split: option.splits bool.splits)
    have "post_loop ms True (post_one m a) = (had', a')" using Cons.prems True by simp
    from Cons.IH [OF this] one True show ?thesis by (auto split: if_splits)
  qed
qed auto

text \<open>
  Posting appends exactly the messages the filter accepts, in their order: with message ordering
  a keyed message goes to the end of its key's queue and the others to the end of the backlog,
  without it all of them go to the backlog. Waiting pulls are woken exactly when something was added,
  and a deleted subscription ignores the post.
\<close>

theorem post_appends_in_order:
  "if sa_deleted a then actor_post_messages ms a = a
   else (let a' = actor_post_messages ms a; new = filter (filter_accepts a) ms
         in (if si_enable_message_ordering (sa_info a)
             then (\<forall>k. key_queue a' k = key_queue a k @ filter (\<lambda>m. tm_ordering_key m = Some k) new)
                  \<and> ml_list (sa_backlog a') = ml_list (sa_backlog a)
                      @ filter (\<lambda>m. tm_ordering_key m = None) new
             else sa_ordered_queues a' = sa_ordered_queues a
                  \<and> ml_list (sa_backlog a') = ml_list (sa_backlog a) @ new)
            \<and> sa_effects a' = sa_effects a @ (if new \<noteq> [] then [NotifyNewMessagesAvailable] else [])
            \<and> held a' = held a)"
proof (cases "sa_deleted a")
  case True
  then show ?thesis by (simp add: actor_post_messages_def)
next
  case False
  obtain had b where loop: "post_loop ms False a = (had, b)" by fastforce
  have post: "actor_post_messages ms a = (if had then emit NotifyNewMessagesAvailable b else b)"
    using False loop by (simp add: actor_post_messages_def)
  note order = post_loop_order [OF loop]
  have "key_queue (if had then emit NotifyNewMessagesAvailable b else b) k = key_queue b k"
    "held (if had then emit NotifyNewMessagesAvailable b else b) = held b" for k
    by (simp_all add: key_queue_def held_def)
  moreover have "held b = held a" using order by (simp add: held_def)
  ultimately show ?thesis
    using False order unfolding post Let_def by (cases had) auto
qed

section \<open>Expiry\<close>

text \<open>
  C31. When the expiry timer fires, exactly the outstanding messages whose deadline has passed stop
  being outstanding; without a dead letter policy every one of them is kept for redelivery, and the
  other messages are not touched.
\<close>

theorem expiry_exact:
  assumes "actor_reachable a" and "counters_have_room a"
    and "handle_event (Expiry at env) a = Some a'"
  shows "tracker_vals (sa_outstanding a')
      = filter_mset (\<lambda>p. at < deadline_time (pm_deadline p)) (tracker_vals (sa_outstanding a))
    \<and> (\<exists>x. stored a = stored a' + x)
    \<and> (si_dead_letter_policy (sa_info a) = None \<longrightarrow> stored a' = stored a)"
proof -
  have inv: "actor_inv {#} a" by (rule reachable_inv [OF assms(1)])
  then have ti: "tracker_inv (sa_outstanding a)" by (simp add: actor_inv_def)
  obtain expired t where taken: "take_expired at (sa_outstanding a) = Some (expired, t)"
    using assms(3) by (auto split: option.splits)
  note spec = take_expired_split [OF ti taken]
  have rest: "tracker_vals t
      = filter_mset (\<lambda>p. at < deadline_time (pm_deadline p)) (tracker_vals (sa_outstanding a))"
    using spec(3) by (simp add: not_le)
  note facts = expired_requeue [OF inv assms(2) taken]
  show ?thesis
  proof (cases "expired = []")
    case True
    then have "a' = a\<lparr>sa_outstanding := t\<rparr>" using assms(3) taken by simp
    moreover have "tracker_vals t = tracker_vals (sa_outstanding a)"
      using spec(2,3) True by (metis add_0 mset.simps(1) multiset_partition)
    ultimately show ?thesis
      using rest by (auto simp: stored_def held_def)
  next
    case False
    then have "a' = handle_expired_messages env expired (a\<lparr>sa_outstanding := t\<rparr>)"
      using assms(3) taken by auto
    then show ?thesis using facts [of env] rest by auto
  qed
qed

theorem expiry_exact_witness:
  "(\<exists>a'. handle_event (Expiry 20000000000 sample_env) sample_pulled = Some a'
     \<and> tracker_vals (sa_outstanding a')
         = filter_mset (\<lambda>p. 20000000000 < deadline_time (pm_deadline p))
             (tracker_vals (sa_outstanding sample_pulled))
     \<and> stored a' = stored sample_pulled)"
proof -
  obtain a' where a': "handle_event (Expiry 20000000000 sample_env) sample_pulled = Some a'"
    using handle_event_total [OF reachable_inv [OF sample_reachable(3)]] by blast
  moreover have "si_dead_letter_policy (sa_info sample_pulled) = None" by code_simp
  ultimately show ?thesis
    using expiry_exact [OF sample_reachable(3) sample_room(3) a'] by blast
qed

section \<open>Seeking\<close>

text \<open>
  C32. Seeking to a time keeps exactly the messages published after it, all of them pullable: nothing
  is outstanding or waiting any more, no key is in flight, no attempt is remembered, and both kinds
  of waiters are woken.
\<close>

theorem seek_exact:
  assumes "actor_reachable a" and "\<not> sa_deleted a"
    and "enumerates (env_drained_outstanding env) (om_messages (sa_outstanding a))"
    and "enumerates (env_drained_retry env) (rq_messages (sa_retry_queue a))"
  shows "stored (actor_seek_to_time env t a) = filter_mset (\<lambda>m. t < tm_published_at m) (stored a)
    \<and> held (actor_seek_to_time env t a) = {#}
    \<and> sa_keys_in_flight (actor_seek_to_time env t a) = {||}
    \<and> sa_delivery_attempts (actor_seek_to_time env t a) = fmempty
    \<and> sa_effects (actor_seek_to_time env t a)
        = sa_effects a @ [NotifyOutstandingFreed, NotifyNewMessagesAvailable]"
proof -
  let ?f = "\<lambda>m b. if t < tm_published_at m then requeue_one m b else b"
  have one: "sa_effects (requeue_one m b) = sa_effects b"
    "sa_delivery_attempts (requeue_one m b) = sa_delivery_attempts b"
    "sa_keys_in_flight b = {||} \<Longrightarrow> sa_keys_in_flight (requeue_one m b) = {||}" for m b
    by (auto simp: requeue_one_def Let_def split: option.splits bool.splits)
  have "sa_effects (fold ?f ms b) = sa_effects b
      \<and> sa_delivery_attempts (fold ?f ms b) = sa_delivery_attempts b
      \<and> (sa_keys_in_flight b = {||} \<longrightarrow> sa_keys_in_flight (fold ?f ms b) = {||})" for ms b
    by (induction ms arbitrary: b) (simp_all add: one)
  then have "sa_effects (actor_seek_to_time env t a)
        = sa_effects a @ [NotifyOutstandingFreed, NotifyNewMessagesAvailable]
      \<and> sa_delivery_attempts (actor_seek_to_time env t a) = fmempty
      \<and> sa_keys_in_flight (actor_seek_to_time env t a) = {||}"
    using assms(2) by (simp add: actor_seek_to_time_def Let_def split_def)
  with actor_seek_inv [OF reachable_inv [OF assms(1)] assms(2-4)] show ?thesis by simp
qed

theorem seek_exact_witness:
  "stored (actor_seek_to_time sample_env 1 sample_posted)
      = filter_mset (\<lambda>m. 1 < tm_published_at m) (stored sample_posted)
    \<and> held (actor_seek_to_time sample_env 1 sample_posted) = {#}"
proof -
  have "om_messages (sa_outstanding sample_posted) = fmempty"
    "rq_messages (sa_retry_queue sample_posted) = fmempty" "\<not> sa_deleted sample_posted"
    by code_simp+
  then show ?thesis
    using seek_exact [OF sample_reachable(2), of sample_env 1]
    by (simp add: enumerates_def sample_env_def)
qed

section \<open>Detaching and deleting\<close>

text \<open>
  Detaching an attached subscription drops every message it holds and makes every later pull of
  a live subscription fail with the detached error; a second detach changes nothing.
\<close>

theorem detach_drops_messages:
  assumes "\<not> si_detached (sa_info a)" and "\<not> sa_deleted a"
  shows "stored (snd (actor_detach a)) = {#}
    \<and> fst (actor_pull_messages env mc mo (snd (actor_detach a))) = Inl PullMessages_Detached
    \<and> actor_detach (snd (actor_detach a)) = (Inr (), snd (actor_detach a))"
proof -
  have "stored (snd (actor_detach a)) = {#}" using assms by (simp add: actor_detach_def)
  moreover have "si_detached (sa_info (snd (actor_detach a)))" "\<not> sa_deleted (snd (actor_detach a))"
    using assms by (simp_all add: actor_detach_def)
  ultimately show ?thesis by (simp add: actor_pull_messages_def actor_detach_def [of "snd (actor_detach a)"])
qed

theorem detach_drops_messages_witness:
  "stored (snd (actor_detach sample_pulled)) = {#}
    \<and> fst (actor_pull_messages sample_env 1 0 (snd (actor_detach sample_pulled))) = Inl PullMessages_Detached
    \<and> actor_detach (snd (actor_detach sample_pulled)) = (Inr (), snd (actor_detach sample_pulled))"
  by (rule detach_drops_messages; code_simp)

text \<open>
  Deleting a live subscription: when the topic is gone or answers, the subscription drops every
  message, leaves the topic, the manager and the push registry, stops its loop and answers all later
  pulls and acknowledgements with empty results. When the topic's mailbox is closed the delete fails,
  but the subscription stays marked as deleted, so that a second delete reports success without having
  unregistered anything.
\<close>

theorem delete_unregisters:
  assumes "\<not> sa_deleted a"
  shows "(let (r, a') = actor_delete env a; name = si_name (sa_info a)
     in sa_deleted a'
        \<and> (if env_topic env = None \<or> env_topic_responds env
           then r = Inr () \<and> stored a' = {#} \<and> stopped a'
             \<and> sa_effects a' = sa_effects a
                 @ (if env_topic env = None then [] else [TopicRemoveSubscription name])
                 @ [DelegateDelete name, NotifyDeleted, PushRegistrySet name None]
             \<and> fst (actor_pull_messages env mc mo a') = Inr []
             \<and> fst (actor_acknowledge_messages ids a') = Inr ack_outcome_default
           else r = Inl Delete_Closed \<and> sa_effects a' = sa_effects a
             \<and> actor_delete env' a' = (Inr (), a')))"
  using assms
  by (cases "env_topic env")
    (auto simp: actor_delete_def Let_def stopped_def actor_pull_messages_def
      actor_acknowledge_messages_def)

theorem delete_unregisters_witness:
  "sa_deleted (snd (actor_delete sample_env sample_pulled))
    \<and> stored (snd (actor_delete sample_env sample_pulled)) = {#}"
proof -
  have "\<not> sa_deleted sample_pulled" by code_simp
  from delete_unregisters [OF this, of sample_env] show ?thesis
    by (simp add: split_def Let_def sample_env_def)
qed

section \<open>Statistics\<close>

lemma sum_list_sorted_fset:
  "sum_list (map f (sorted_list_of_fset s)) = (\<Sum>k \<in> fset s. f k)" for f :: "string \<Rightarrow> nat"
  by (metis sorted_keys(1,2) sum.distinct_set_conv_list)

lemma size_sum_mset:
  "finite K \<Longrightarrow> size (\<Sum>k \<in> K. f k) = (\<Sum>k \<in> K. size (f k))" for f :: "string \<Rightarrow> topic_message multiset"
  by (induction K rule: finite_induct) simp_all

text \<open>
  The counts reported by the statistics add up to the messages the subscription holds: the
  outstanding ones, the pullable ones (backlog and per-key queues together) and the ones waiting for
  their backoff.
\<close>

theorem stats_count_stored:
  "\<exists>s. actor_get_stats env a = Inr s
    \<and> ss_outstanding_messages_count s + ss_backlog_messages_count s + ss_retry_messages_count s
      = size (stored a)"
proof -
  have "ordered_pending a = size (queued a)"
    by (simp add: ordered_pending_def queued_def sum_list_sorted_fset size_sum_mset)
  then show ?thesis
    by (simp add: actor_get_stats_def subscription_stats_new_def Let_def stored_def held_def
        tracker_len_def retry_len_def messages_len_def size_fmvals)
qed

section \<open>Runs of the select loop\<close>

fun posted :: "actor_event \<Rightarrow> topic_message list" where
  "posted (Request env (PostMessages ms)) = ms"
| "posted _ = []"

inductive actor_run :: "subscription_actor \<Rightarrow> actor_event list \<Rightarrow> subscription_actor \<Rightarrow> bool" where
  run_nil: "actor_run a [] a"
| run_snoc: "\<lbrakk> actor_run a es b; actor_step b e c \<rbrakk> \<Longrightarrow> actor_run a (es @ [e]) c"

lemma receive_stored:
  assumes inv: "actor_inv {#} a" and room: "counters_have_room a" and ok: "event_ok (Request env r) a"
  shows "stored (snd (receive env r a)) \<subseteq># stored a + mset (posted (Request env r))"
proof (cases r)
  case (PostMessages ms)
  obtain had b where loop: "post_loop ms False a = (had, b)" by fastforce
  have "stored b = stored a + mset (filter (filter_accepts a) ms)"
    using post_loop_inv [OF inv loop] by simp
  then show ?thesis
    using PostMessages loop by (auto simp: actor_post_messages_def)
next
  case (PullMessages c cap)
  then show ?thesis
    using actor_pull_inv [OF inv room, of env c cap] by (auto simp: prod_eq_iff)
next
  case (AcknowledgeMessages ids)
  then show ?thesis
    using acknowledge_stored [OF inv, of ids] by (auto simp: prod_eq_iff)
next
  case (ModifyDeadline ms)
  then show ?thesis
    using actor_modify_inv [OF inv room, of env ms] by (auto simp: prod_eq_iff)
next
  case (Seek t)
  show ?thesis
  proof (cases "sa_deleted a")
    case False
    then show ?thesis using actor_seek_inv(3) [OF inv False] ok Seek by simp
  qed (use Seek in \<open>simp add: actor_seek_to_time_def\<close>)
next
  case Detach
  then show ?thesis by (simp add: actor_detach_def)
next
  case Delete
  then show ?thesis by (simp add: actor_delete_def Let_def split: option.splits)
qed (simp_all add: actor_update_info_def actor_modify_push_config_def Let_def stored_def held_def
    queued_def key_queue_def)

lemma event_stored:
  assumes inv: "actor_inv {#} a" and room: "counters_have_room a" and ok: "event_ok e a"
    and event: "handle_event e a = Some a'"
  shows "stored a' \<subseteq># stored a + mset (posted e)"
proof (cases e)
  case (Request env r)
  then show ?thesis using receive_stored [OF inv room] ok event by auto
next
  case (Expiry at env)
  then obtain expired t where taken: "take_expired at (sa_outstanding a) = Some (expired, t)"
    using event by (auto split: option.splits)
  have ti: "tracker_inv (sa_outstanding a)" using inv by (simp add: actor_inv_def)
  have "tracker_vals t \<subseteq># tracker_vals (sa_outstanding a)"
    using take_expired_split(3) [OF ti taken] by simp
  then have "stored (a\<lparr>sa_outstanding := t\<rparr>) \<subseteq># stored a"
    by (simp add: stored_def held_def image_mset_subseteq_mono)
  then show ?thesis
    using expired_requeue(2) [OF inv room taken, of env] Expiry event taken
    by (auto split: if_splits)
next
  case (RetryDue at env)
  obtain ready q where taken: "take_ready at (sa_retry_queue a) = (ready, q)" by fastforce
  have "a' = handle_retry_ready env ready (a\<lparr>sa_retry_queue := q\<rparr>)"
    using RetryDue event taken by (auto simp: handle_retry_ready_def split: if_splits)
  then show ?thesis using handle_retry_inv [OF inv taken, of env] RetryDue by auto
qed

lemma run_reachable: "actor_run a es b \<Longrightarrow> actor_reachable a \<Longrightarrow> actor_reachable b"
  by (induction rule: actor_run.induct) (auto intro: actor_reachable.next_step)

text \<open>
  C17. Over any run of the select loop, a subscription never invents or duplicates a message: what it
  holds at the end is contained, with multiplicities, in what it held at the start and what was
  posted to it.
\<close>

theorem run_invents_no_message:
  assumes "actor_run a es b" and "actor_reachable a"
  shows "stored b \<subseteq># stored a + mset (concat (map posted es))"
  using assms
proof (induction rule: actor_run.induct)
  case (run_snoc a es b e c)
  have inv: "actor_inv {#} b"
    by (rule reachable_inv [OF run_reachable [OF run_snoc.hyps(1) run_snoc.prems]])
  have "stored c \<subseteq># stored b + mset (posted e)"
    using run_snoc.hyps(2) by (elim actor_stepE) (rule event_stored [OF inv])
  moreover have "stored b + mset (posted e) \<subseteq># stored a + mset (concat (map posted es)) + mset (posted e)"
    using run_snoc.IH [OF run_snoc.prems] by simp
  ultimately have "stored c \<subseteq># stored a + mset (concat (map posted es)) + mset (posted e)"
    by (rule subset_mset.order_trans)
  then show ?case by (simp add: ac_simps)
qed simp

theorem run_invents_no_message_witness:
  "stored sample_pulled \<subseteq># stored sample_posted
     + mset (concat (map posted [Request sample_env (PullMessages 10 0)]))"
proof -
  have "actor_step sample_posted (Request sample_env (PullMessages 10 0)) sample_pulled"
    by (rule actor_step.step) (simp_all add: sample_room sample_running sample_pulled_def)
  then have "actor_run sample_posted ([] @ [Request sample_env (PullMessages 10 0)]) sample_pulled"
    by (rule actor_run.run_snoc [OF actor_run.run_nil])
  from run_invents_no_message [OF this sample_reachable(2)] show ?thesis by simp
qed

end
