(* ===== verification/Api_Properties.thy ===== *)
theory Api_Properties
  imports Streaming_Pull Actor_Lifecycle
begin

text \<open>
  Properties of the services: a created subscription is visible and can be created only once, the
  confirmations of a streaming acknowledgement are complete, and what the push registry keeps.
\<close>

section \<open>The broker under calls\<close>

lemma set_subscription_actor_idle:
  "fmlookup (bk_subscription_actors b) i = Some a \<Longrightarrow> set_subscription_actor i a b = b"
  by (simp add: set_subscription_actor_def fmupd_lookup_idle)

lemma set_topic_actor_idle:
  "fmlookup (bk_topic_actors b) i = Some a \<Longrightarrow> set_topic_actor i a b = b"
  by (simp add: set_topic_actor_def fmupd_lookup_idle)

text \<open>Reading the information of a subscription that answers changes nothing.\<close>

lemma subscription_get_info_running:
  assumes "fmlookup (bk_subscription_actors b) (sub_internal_id s) = Some a" and "\<not> stopped a"
  shows "subscription_get_info env s b = (Inr (sa_info a), b)"
  using assms by (simp add: subscription_get_info_def subscription_call_def actor_get_info_def
      set_subscription_actor_idle)

lemma attach_call:
  "topic_attach_subscription env t s b =
     (case fmlookup (bk_topic_actors b) (topic_internal_id t) of
        None \<Rightarrow> (Inl AttachSubscription_Closed, b)
      | Some ta \<Rightarrow> (Inr (), set_topic_actor (topic_internal_id t) (snd (attach_subscription s ta)) b))"
  by (auto simp: topic_attach_subscription_def topic_call_def attach_subscription_def split: option.split)

section \<open>Creating subscriptions\<close>

lemma start_effects:
  "fold (apply_actor_effect t) (sa_effects (actor_start i info tm)) b
   = (case si_push_config info of
        None \<Rightarrow> b
      | Some c \<Rightarrow> b\<lparr>bk_push := push_registry_set (si_name info) (Some c) (bk_push b)\<rparr>)"
  by (auto simp: actor_start_def split: option.split)

lemma start_running: "\<not> stopped (actor_start i info tm)"
  by (simp add: stopped_def actor_start_def)

text \<open>What a successful creation leaves behind.\<close>

lemma manager_create_facts:
  assumes "manager_create_subscription env info t b = (Inr s, b')"
  shows "fmlookup (sm_subscriptions (bk_subscriptions b)) (si_name info) = None"
    and "fmlookup (sm_subscriptions (bk_subscriptions b')) (si_name info) = Some s"
    and "\<exists>tm. fmlookup (bk_subscription_actors b') (sub_internal_id s)
           = Some (actor_start (sub_internal_id s) info tm)"
    and "sub_name s = si_name info" and "bk_topics b' = bk_topics b"
    and "topic_is_in_project (topic_handle_name t) (sn_project_id (si_name info))"
    and "\<exists>tm. check_dead_letter_topic info b = Inr tm"
proof -
  from assms show project: "topic_is_in_project (topic_handle_name t) (sn_project_id (si_name info))"
    by (auto simp: manager_create_subscription_def split: if_splits)
  from assms project obtain tm where tm: "check_dead_letter_topic info b = Inr tm"
    by (auto simp: manager_create_subscription_def split: sum.splits)
  then show "\<exists>tm. check_dead_letter_topic info b = Inr tm" by blast
  from assms project tm show vacant: "fmlookup (sm_subscriptions (bk_subscriptions b)) (si_name info) = None"
    by (auto simp: manager_create_subscription_def state_create_subscription_def split: if_splits)
  let ?s = "subscription_new info (sm_next_id (bk_subscriptions b) + 1) t"
  have state: "state_create_subscription (info, t) (bk_subscriptions b)
      = (Inr ?s, bk_subscriptions b\<lparr>sm_subscriptions := fmupd (si_name info) ?s
            (sm_subscriptions (bk_subscriptions b)), sm_next_id := sm_next_id (bk_subscriptions b) + 1\<rparr>)"
    using vacant by (simp add: state_create_subscription_def Let_def)
  note facts = assms [unfolded manager_create_subscription_def] project tm state
  from facts have s: "s = ?s" and b': "bk_subscriptions b' = bk_subscriptions b\<lparr>sm_subscriptions :=
        fmupd (si_name info) ?s (sm_subscriptions (bk_subscriptions b)),
        sm_next_id := sm_next_id (bk_subscriptions b) + 1\<rparr>"
      "bk_topics b' = bk_topics b"
      "bk_subscription_actors b' = fmupd (sub_internal_id ?s) (actor_start (sub_internal_id ?s) info tm)
         (bk_subscription_actors b)"
    by (auto simp: start_effects attach_call set_subscription_actor_def set_topic_actor_def Let_def
        split: option.splits)
  show "fmlookup (sm_subscriptions (bk_subscriptions b')) (si_name info) = Some s"
    "\<exists>tm. fmlookup (bk_subscription_actors b') (sub_internal_id s)
       = Some (actor_start (sub_internal_id s) info tm)"
    "sub_name s = si_name info" "bk_topics b' = bk_topics b"
    by (auto simp: s b' subscription_new_def)
qed

lemma with_result_Inr:
  "with_result r to_status f = (Inr y, b') \<longleftrightarrow> (\<exists>x b. r = (Inr x, b) \<and> f x b = (Inr y, b'))"
  by (auto simp: with_result_def split: sum.splits prod.splits)

lemma with_parsed_Inr:
  "with_parsed r b f = (Inr y, b') \<longleftrightarrow> (\<exists>x. r = Inr x \<and> f x = (Inr y, b'))"
  by (auto simp: with_parsed_def split: sum.splits)

lemma create_request_info_Inr:
  assumes "create_request_info ext request b = (Inr (tn, info), b')"
  shows "b' = b" and "parse_topic_name (ps_topic request) = Inr tn"
    and "parse_subscription_name (ps_name request) = Inr (si_name info)"
    and "create_request_info ext request c = (Inr (tn, info), c)"
  using assms by (auto simp: create_request_info_def with_parsed_Inr subscription_info_new_def)

text \<open>
  C22. A subscription that was created is there: reading it by the name of the request returns the very
  resource that the creation returned and changes nothing, and creating it again is refused as already
  existing.
\<close>

theorem create_subscription_visible:
  assumes "rpc_create_subscription ext env request b = (Inr resource, b')"
  shows "rpc_get_subscription env' (ps_name request) b' = (Inr resource, b')
    \<and> (\<exists>text. rpc_create_subscription ext env' request b' = (Inl (Status AlreadyExists text), b'))"
proof -
  from assms obtain tn info b0 t s b2 where
      req: "create_request_info ext request b = (Inr (tn, info), b0)"
      and topic: "manager_get_topic tn b0 = Inr t"
      and made: "manager_create_subscription env info t b0 = (Inr s, b2)"
      and last: "with_result (subscription_get_info env s b2) (\<lambda>_. conflict)
        (\<lambda>info' b3. (Inr (map_to_subscription_resource s info' b3), b3)) = (Inr resource, b')"
    unfolding rpc_create_subscription_def
    by (auto simp: with_result_Inr with_parsed_Inr split: prod.splits)
  note facts = manager_create_facts [OF made]
  from facts(3) obtain tm where actor: "fmlookup (bk_subscription_actors b2) (sub_internal_id s)
      = Some (actor_start (sub_internal_id s) info tm)" by blast
  note info = subscription_get_info_running [OF actor start_running]
  from last have res: "b' = b2" "resource = map_to_subscription_resource s info b2"
    by (auto simp: info with_result_def actor_start_def)
  have "rpc_get_subscription env' (ps_name request) b' = (Inr resource, b')"
    using create_request_info_Inr(3) [OF req] facts(2)
    by (simp add: rpc_get_subscription_def with_parsed_def with_result_def res info actor_start_def
        manager_get_subscription_def state_get_subscription_def)
  moreover have "manager_get_topic tn b2 = Inr t"
    using topic facts(5) by (simp add: manager_get_topic_def)
  moreover have "check_dead_letter_topic info b2 = check_dead_letter_topic info b0"
    using facts(5) by (simp add: check_dead_letter_topic_def manager_get_topic_def split: option.split)
  then have "manager_create_subscription env' info t b2 = (Inl CreateSubscription_AlreadyExists, b2)"
    using facts(2,6,7) by (auto simp: manager_create_subscription_def state_create_subscription_def)
  ultimately show ?thesis
    using create_request_info_Inr(4) [OF req, of b2]
    by (simp add: rpc_create_subscription_def with_result_def res)
qed

text \<open>A broker with the topic \<^verbatim>\<open>projects/p/topics/t\<close> and a subscription to it.\<close>

definition sample_externals :: externals where
  "sample_externals =
     \<lparr>ex_base64_encode = (\<lambda>_. []), ex_base64_decode = (\<lambda>_. None),
      ex_timestamp_from = (\<lambda>t. \<lparr>pts_seconds = t div 1000000000, pts_nanos = t mod 1000000000\<rparr>),
      ex_timestamp_try_into = (\<lambda>ts. Some (pts_seconds ts * 1000000000 + pts_nanos ts)),
      ex_filter_error_text = (\<lambda>_. [])\<rparr>"

definition sample_broker_env :: broker_env where
  "sample_broker_env =
     \<lparr>be_now = 0, be_wall = 0, be_topic_order = [], be_subscription_order = [],
      be_loop_ended = (\<lambda>_. True), be_posted_before_abort = (\<lambda>_. False),
      be_drained_outstanding = [], be_drained_retry = []\<rparr>"

definition sample_proto_subscription :: proto_subscription where
  "sample_proto_subscription =
     \<lparr>ps_name = ''projects/pp/subscriptions/s'', ps_topic = ''projects/pp/topics/t'',
      ps_push_config = None, ps_ack_deadline_seconds = 10, ps_message_retention_duration = None,
      ps_enable_message_ordering = False, ps_filter = [], ps_dead_letter_policy = None,
      ps_retry_policy = None, ps_detached = False, ps_enable_exactly_once_delivery = True\<rparr>"

definition sample_broker_with_topic :: broker where
  "sample_broker_with_topic =
     snd (rpc_create_topic sample_broker_env
       \<lparr>pt_name = ''projects/pp/topics/t'', pt_labels = fmempty, pt_message_retention_duration = None\<rparr>
       broker_new)"

definition sample_broker :: broker where
  "sample_broker =
     snd (rpc_create_subscription sample_externals sample_broker_env sample_proto_subscription
       sample_broker_with_topic)"

theorem create_subscription_visible_witness:
  "\<exists>resource. rpc_get_subscription sample_broker_env ''projects/pp/subscriptions/s'' sample_broker
     = (Inr resource, sample_broker)"
proof -
  let ?r = "rpc_create_subscription sample_externals sample_broker_env sample_proto_subscription
       sample_broker_with_topic"
  have "\<not> isl (fst ?r)" by code_simp
  then have "?r = (Inr (projr (fst ?r)), sample_broker)"
    by (simp add: prod_eq_iff sample_broker_def)
  from create_subscription_visible [OF this, of sample_broker_env] show ?thesis
    by (auto simp: sample_proto_subscription_def)
qed

section \<open>Confirmations\<close>

text \<open>
  C25. With exactly-once delivery the confirmation of a streaming acknowledgement accounts for every id
  the client sent, once each and in the client's spelling: the confirmed ones are those that denote an
  outstanding message, all others are reported as invalid.
\<close>

theorem stream_ack_confirmation:
  assumes "fmlookup (bk_subscription_actors b) (sub_internal_id s) = Some a" and "\<not> sa_deleted a"
    and "stream_acknowledge env s True raws b = (Inr (Some c), b')"
  shows "mset (ac_ack_ids c) + mset (ac_invalid_ack_ids c) = mset raws
    \<and> ac_ack_ids c = filter (\<lambda>raw. case parse_ack_id raw of
          Inl _ \<Rightarrow> False | Inr i \<Rightarrow> tracker_contains i (sa_outstanding a)) raws"
proof -
  let ?ids = "map snd (ack_ids_ok raws)"
  have some: "subscription_acknowledge_messages env s ?ids b
      = (fst (actor_acknowledge_messages ?ids a),
         snd (subscription_acknowledge_messages env s ?ids b))"
    if "\<not> (stopped a \<and> be_loop_ended env s)"
    using assms(1) that
    by (cases "actor_acknowledge_messages ?ids a")
      (auto simp: subscription_acknowledge_messages_def subscription_call_def)
  have outcome: "fst (actor_acknowledge_messages ?ids a) = Inr (ack_split ?ids (sa_outstanding a))"
    using assms(2) by (simp add: actor_acknowledge_messages_def Let_def split: prod.split)
  have "\<not> (stopped a \<and> be_loop_ended env s)"
    using assms(1,3) by (auto simp: stream_acknowledge_def subscription_acknowledge_messages_def
        subscription_call_def with_result_def split: if_splits)
  from some [OF this] have c: "c = confirm_acks raws (ack_split ?ids (sa_outstanding a))"
    using assms(3) outcome
    by (cases "subscription_acknowledge_messages env s ?ids b")
      (auto simp: stream_acknowledge_def with_result_def split: if_splits)
  have all: "mset (ac_ack_ids c) + mset (ac_invalid_ack_ids c) = mset raws"
    unfolding c by (rule confirm_acks_partition) (force simp: ack_split_def)
  have valid: "map fst (filter (\<lambda>(_, i). i \<in> set (filter (\<lambda>i. tracker_contains i t) ids)) (ack_ids_ok raws))
      = filter (\<lambda>raw. case parse_ack_id raw of Inl _ \<Rightarrow> False | Inr i \<Rightarrow> tracker_contains i t) raws"
    if "set (map snd (ack_ids_ok raws)) \<subseteq> set ids" for t ids
    using that by (induction raws) (auto simp: ack_ids_ok_def map_filter_simps split: sum.split)
  from valid [of ?ids "sa_outstanding a"]
  have "ac_ack_ids c = filter (\<lambda>raw. case parse_ack_id raw of
      Inl _ \<Rightarrow> False | Inr i \<Rightarrow> tracker_contains i (sa_outstanding a)) raws"
    by (simp add: c confirm_acks_def ack_split_def)
  with all show ?thesis by blast
qed

theorem stream_ack_confirmation_witness:
  "\<exists>c. fst (stream_acknowledge sample_broker_env
        (subscription_new (subscription_info_new_with_defaults (subscription_name_new ''pp'' ''s'')) 2
          \<lparr>topic_handle_name = topic_name_new ''pp'' ''t'', topic_internal_id = 2\<rparr>)
        True [''7'', ''x''] sample_broker) = Inr (Some c)
     \<and> mset (ac_ack_ids c) + mset (ac_invalid_ack_ids c) = mset [''7'', ''x'']"
proof -
  let ?s = "subscription_new (subscription_info_new_with_defaults (subscription_name_new ''pp'' ''s'')) 2
          \<lparr>topic_handle_name = topic_name_new ''pp'' ''t'', topic_internal_id = 2\<rparr>"
  let ?r = "stream_acknowledge sample_broker_env ?s True [''7'', ''x''] sample_broker"
  have "\<not> isl (fst ?r)" "projr (fst ?r) \<noteq> None" by code_simp+
  then have r: "?r = (Inr (Some (the (projr (fst ?r)))), snd ?r)"
    by (simp add: prod_eq_iff)
  have "fmlookup (bk_subscription_actors sample_broker) (sub_internal_id ?s) \<noteq> None"
    "\<not> sa_deleted (the (fmlookup (bk_subscription_actors sample_broker) (sub_internal_id ?s)))"
    by code_simp+
  with stream_ack_confirmation [OF _ _ r] r show ?thesis by (metis fst_conv option.exhaust_sel)
qed

section \<open>Push registry\<close>

text \<open>
  The registry keeps the first configuration of a subscription: setting a configuration for a name
  that has one leaves the old one in place, so a changed push endpoint takes effect only after the
  subscription was switched to pull mode in between.
\<close>

theorem push_registry_keeps_first:
  "fmlookup (push_registry_set name (Some c) reg) name
     = Some (case fmlookup reg name of None \<Rightarrow> c | Some old \<Rightarrow> old)
   \<and> fmlookup (push_registry_set name (Some c) (push_registry_set name None reg)) name = Some c
   \<and> fmlookup (push_registry_set name None reg) name = None"
  by (simp add: push_registry_set_def split: option.split)

end
