(* ===== verification/Simulation.thy ===== *)
theory Simulation
  imports Main
begin

text \<open>
  The contract between a program and its specification when both are step relations: every step of the
  program from a reachable state is a step of the specification. What it gives: the abstraction of a
  reachable state is reached by the specification, and an invariant of the specification holds of it.
\<close>

locale simulation =
  fixes start :: 's and step :: "'s \<Rightarrow> 's \<Rightarrow> bool" and reach :: "'s \<Rightarrow> bool"
    and spec_step :: "'a \<Rightarrow> 'a \<Rightarrow> bool" and abs :: "'s \<Rightarrow> 'a"
  assumes reach_induct: "reach s \<Longrightarrow> P start \<Longrightarrow> (\<And>s s'. reach s \<Longrightarrow> P s \<Longrightarrow> step s s' \<Longrightarrow> P s') \<Longrightarrow> P s"
    and simulates: "reach s \<Longrightarrow> step s s' \<Longrightarrow> spec_step (abs s) (abs s')"
begin

lemma reached_by_spec: "reach s \<Longrightarrow> spec_step\<^sup>*\<^sup>* (abs start) (abs s)"
  by (erule reach_induct) (auto intro: rtranclp.rtrancl_into_rtrancl simulates)

lemma transfers:
  assumes "reach s" and "I (abs start)" and "\<And>p q. spec_step p q \<Longrightarrow> I p \<Longrightarrow> I q"
  shows "I (abs s)"
  using assms(1) by (rule reach_induct) (use assms(2,3) simulates in blast)+

end

end
