(* ===== verification/Actor_Frame.thy ===== *)
theory Actor_Frame
  imports Subscription_Actor
begin

text \<open>
  What a handler of the subscription actor leaves alone: the identity of the subscription (its id and
  name), whether it keeps the order, that it is detached once it is, and, apart from the deletion, its place in the broker: it emits wake-ups, registers its own push
  configuration or hands messages to the dead letter topic, but leaves the managers and its topic alone.
\<close>

section \<open>Quiet steps\<close>

fun quiet_effect :: "subscription_name \<Rightarrow> actor_effect \<Rightarrow> bool" where
  "quiet_effect n (PushRegistrySet m c) \<longleftrightarrow> m = n"
| "quiet_effect n NotifyNewMessagesAvailable \<longleftrightarrow> True"
| "quiet_effect n NotifyOutstandingFreed \<longleftrightarrow> True"
| "quiet_effect n (PublishDeadLettered t ms) \<longleftrightarrow> True"
| "quiet_effect n _ \<longleftrightarrow> False"

definition quiet :: "subscription_actor \<Rightarrow> subscription_actor \<Rightarrow> bool" where
  "quiet a b \<longleftrightarrow> sa_internal_id b = sa_internal_id a \<and> si_name (sa_info b) = si_name (sa_info a)
     \<and> si_enable_message_ordering (sa_info b) = si_enable_message_ordering (sa_info a)
     \<and> (si_detached (sa_info a) \<longrightarrow> si_detached (sa_info b))
     \<and> sa_deleted b = sa_deleted a \<and> sa_compiled_filter b = sa_compiled_filter a
     \<and> (\<exists>es. sa_effects b = sa_effects a @ es \<and> list_all (quiet_effect (si_name (sa_info a))) es)"

lemma quiet_refl [simp]: "quiet a a"
  by (simp add: quiet_def)

lemma quiet_trans [trans]: "quiet a b \<Longrightarrow> quiet b c \<Longrightarrow> quiet a c"
  unfolding quiet_def by auto

text \<open>Changing the queues, the timers, the attempts or the counters is quiet.\<close>

lemma quiet_update [simp]:
  "quiet a (b\<lparr>sa_backlog := ml\<rparr>) = quiet a b" "quiet a (b\<lparr>sa_outstanding := t\<rparr>) = quiet a b"
  "quiet a (b\<lparr>sa_next_ack_id := i\<rparr>) = quiet a b" "quiet a (b\<lparr>sa_delivery_attempts := d\<rparr>) = quiet a b"
  "quiet a (b\<lparr>sa_retry_queue := q\<rparr>) = quiet a b" "quiet a (b\<lparr>sa_ordered_queues := qs\<rparr>) = quiet a b"
  "quiet a (b\<lparr>sa_keys_in_flight := ks\<rparr>) = quiet a b" "quiet a (b\<lparr>sa_counters := c\<rparr>) = quiet a b"
  by (simp_all add: quiet_def)

lemma quiet_info [simp]:
  "\<lbrakk> si_name i = si_name (sa_info b); si_enable_message_ordering i = si_enable_message_ordering (sa_info b);
     si_detached i = si_detached (sa_info b) \<rbrakk> \<Longrightarrow> quiet a (b\<lparr>sa_info := i\<rparr>) = quiet a b"
  "quiet a (a\<lparr>sa_info := (sa_info a)\<lparr>si_detached := True\<rparr>\<rparr>)"
  by (simp_all add: quiet_def)

lemma quiet_emit [simp]:
  "quiet_effect (si_name (sa_info a)) e \<Longrightarrow> quiet a b \<Longrightarrow> quiet a (emit e b)"
  by (auto simp: quiet_def emit_def)

lemma quiet_name: "quiet a b \<Longrightarrow> si_name (sa_info b) = si_name (sa_info a)"
  by (simp add: quiet_def)

lemma quiet_small [simp]:
  "quiet a (set_key_queue k q b) = quiet a b" "quiet a (forget_attempts m b) = quiet a b"
  "quiet a (snd (deliver d m b)) = quiet a b" "quiet a (add_pulled n b) = quiet a b"
  "quiet a (forget_ids ids b) = quiet a b" "quiet a (clear_all b) = quiet a b"
  "quiet a (snd (bump_attempt m b)) = quiet a b"
  by (simp_all add: set_key_queue_def forget_attempts_def deliver_def add_pulled_def forget_ids_def
      clear_all_def bump_attempt_def Let_def)

lemma quiet_routing [simp]:
  "quiet a (post_one m b) = quiet a b" "quiet a (requeue_one m b) = quiet a b"
  by (auto simp: post_one_def requeue_one_def Let_def split: option.splits bool.splits)

section \<open>The loops\<close>

lemma quiet_post_loop: "quiet a b \<Longrightarrow> quiet a (snd (post_loop ms had_any b))"
  by (induction ms had_any b rule: post_loop.induct) auto

lemma quiet_pull_key: "quiet a b \<Longrightarrow> quiet a (snd (pull_key now d k rs b))"
proof (induction now d k rs b rule: pull_key.induct)
  case (1 now d k rs b)
  then show ?case
    by (subst pull_key.simps) (auto simp: Let_def split_beta split: list.split)
qed

lemma quiet_pull_keys: "quiet a b \<Longrightarrow> quiet a (snd (pull_keys cap now d ks rs b))"
  by (induction cap now d ks rs b rule: pull_keys.induct)
    (auto simp: split_beta quiet_pull_key)

lemma quiet_pull_backlog: "quiet a b \<Longrightarrow> quiet a (snd (pull_backlog cap now d rs b))"
proof (induction cap now d rs b rule: pull_backlog.induct)
  case (1 cap now d rs b)
  then show ?case
    by (subst pull_backlog.simps) (auto simp: Let_def split_beta split: option.split)
qed

lemma quiet_release_acked: "quiet a b \<Longrightarrow> quiet a (snd (release_acked ps fs b))"
  by (induction ps fs b rule: release_acked.induct) (auto simp: Let_def split: option.split)

lemma quiet_requeue_step:
  assumes "quiet a (snd (snd acc))"
  shows "quiet a (snd (snd (requeue_step env p acc)))"
proof -
  obtain dead ids b where acc: "acc = (dead, ids, b)" by (cases acc)
  obtain n b1 where bump: "bump_attempt (pm_message p) b = (n, b1)" by fastforce
  then have "quiet a b1" using assms quiet_small(7) [of a "pm_message p" b] by (simp add: acc)
  then show ?thesis by (auto simp: requeue_step_def acc bump Let_def split: option.split)
qed

lemma quiet_requeue_fold:
  "quiet a (snd (snd acc)) \<Longrightarrow> quiet a (snd (snd (fold (requeue_step env) ps acc)))"
  by (induction ps arbitrary: acc) (auto simp: quiet_requeue_step)

lemma quiet_requeue_messages: "quiet a b \<Longrightarrow> quiet a (requeue_messages env ps b)"
proof -
  assume "quiet a b"
  then have "quiet a (snd (snd (fold (requeue_step env) ps ([], [], b))))"
    by (simp add: quiet_requeue_fold)
  then show ?thesis
    by (auto simp: requeue_messages_def try_publish_dead_lettered_def Let_def split_beta
        split: option.split)
qed

lemma quiet_retry_ready_loop: "quiet a b \<Longrightarrow> quiet a (snd (retry_ready_loop now ms any b))"
  by (induction now ms any b rule: retry_ready_loop.induct) auto

lemma quiet_seek_fold:
  "quiet a b \<Longrightarrow> quiet a (fold (\<lambda>m b. if P m then requeue_one m b else b) ms b)"
  by (induction ms arbitrary: b) auto

section \<open>The handlers\<close>

lemma apply_update_frame [simp]:
  "si_name (apply_update u i) = si_name i" "si_detached (apply_update u i) = si_detached i"
  "si_enable_message_ordering (apply_update u i) = si_enable_message_ordering i"
  by (auto simp: apply_update_def Let_def split: option.splits)

lemma quiet_pull: "quiet a (snd (actor_pull_messages env mc mo a))"
  unfolding actor_pull_messages_def
  by (auto simp: Let_def split_beta quiet_pull_backlog quiet_pull_keys)

lemma quiet_acknowledge: "quiet a (snd (actor_acknowledge_messages ids a))"
  unfolding actor_acknowledge_messages_def
  by (auto simp: Let_def split_beta quiet_release_acked)

lemma quiet_post: "quiet a (actor_post_messages ms a)"
  by (auto simp: actor_post_messages_def split_beta quiet_post_loop)

lemma quiet_modify: "quiet a (snd (actor_modify_deadline env mods a))"
  by (auto simp: actor_modify_deadline_def Let_def split_beta quiet_requeue_messages)

lemma quiet_seek: "quiet a (actor_seek_to_time env t a)"
  by (auto simp: actor_seek_to_time_def Let_def split_beta quiet_seek_fold)

lemma receive_quiet: "r \<noteq> Delete \<Longrightarrow> quiet a (snd (receive env r a))"
  by (cases r) (auto simp: quiet_pull quiet_acknowledge quiet_post quiet_modify quiet_seek
      actor_update_info_def actor_detach_def actor_modify_push_config_def Let_def)

lemma handle_event_quiet:
  assumes "handle_event e a = Some a'" and "\<And>env. e \<noteq> Request env Delete"
  shows "quiet a a'"
proof (cases e)
  case (Request env r)
  then show ?thesis using assms receive_quiet by auto
next
  case (Expiry at env)
  then show ?thesis using assms(1)
    by (auto simp: handle_expired_messages_def quiet_requeue_messages split: option.splits if_splits)
next
  case (RetryDue at env)
  then show ?thesis using assms(1)
    by (auto simp: handle_retry_ready_def split_beta quiet_retry_ready_loop split: if_splits)
qed

text \<open>The deletion of a live subscription, while its topic answers.\<close>

lemma actor_delete_effects:
  assumes "env_topic_responds env" and "\<not> sa_deleted a"
  shows "sa_internal_id (snd (actor_delete env a)) = sa_internal_id a"
    and "sa_info (snd (actor_delete env a)) = sa_info a" and "sa_deleted (snd (actor_delete env a))"
    and "sa_effects (snd (actor_delete env a)) = sa_effects a
      @ (if env_topic env = None then [] else [TopicRemoveSubscription (si_name (sa_info a))])
      @ [DelegateDelete (si_name (sa_info a)), NotifyDeleted, PushRegistrySet (si_name (sa_info a)) None]"
  using assms by (auto simp: actor_delete_def clear_all_def emit_def Let_def split: option.split)

lemma actor_delete_again: "sa_deleted a \<Longrightarrow> actor_delete env a = (Inr (), a)"
  by (simp add: actor_delete_def)

end
