(* ===== verification/Broker_Invariant.thy ===== *)
theory Broker_Invariant
  imports Broker Actor_Frame Actor_Invariant Topic_Properties
begin

text \<open>
  The invariant of the running broker. The managers, the topic actors and the subscription actors are
  separate components that only exchange messages; \<open>broker_inv\<close> says that they agree: the registered
  topics and subscriptions are exactly the ones whose actor is not deleted, a topic's actor has attached
  exactly the registered subscriptions of that topic, every message retained by a topic has an id of its
  own, and every subscription actor that runs is in a state of \<open>actor_reachable\<close>, so that what is proved of
  one actor holds for all of them inside the broker. \<open>broker_step\<close> lists the calls that the services, the
  timers and the spawned tasks make.
\<close>

section \<open>The invariant\<close>

abbreviation registered_topic :: "broker \<Rightarrow> topic_name \<Rightarrow> topic option" where
  "registered_topic b n \<equiv> fmlookup (tm_topics (bk_topics b)) n"

abbreviation registered_subscription :: "broker \<Rightarrow> subscription_name \<Rightarrow> subscription option" where
  "registered_subscription b n \<equiv> fmlookup (sm_subscriptions (bk_subscriptions b)) n"

abbreviation topic_actor_of :: "broker \<Rightarrow> u32 \<Rightarrow> topic_actor option" where
  "topic_actor_of b i \<equiv> fmlookup (bk_topic_actors b) i"

abbreviation subscription_actor_of :: "broker \<Rightarrow> u32 \<Rightarrow> subscription_actor option" where
  "subscription_actor_of b i \<equiv> fmlookup (bk_subscription_actors b) i"

definition retained_ids_ok :: "u32 \<Rightarrow> topic_actor \<Rightarrow> bool" where
  "retained_ids_ok i ta \<longleftrightarrow> ta_topic_internal_id ta = i \<and> distinct (map tm_id (ta_messages ta))
     \<and> (\<forall>m \<in> set (ta_messages ta). \<exists>l. tm_id m = message_id_new i l \<and> l \<le> ta_next_message_id ta)"

definition topics_ok :: "broker \<Rightarrow> bool" where
  "topics_ok b \<longleftrightarrow> topic_registry.registry_inv (bk_topics b)
     \<and> (\<forall>n t. registered_topic b n = Some t \<longrightarrow>
          (\<exists>ta. topic_actor_of b (topic_internal_id t) = Some ta \<and> ti_name (ta_info ta) = n
             \<and> \<not> ta_deleted ta))
     \<and> (\<forall>i ta. topic_actor_of b i = Some ta \<longrightarrow> retained_ids_ok i ta \<and> i \<le> tm_next_id (bk_topics b)
          \<and> (\<not> ta_deleted ta \<longrightarrow> registered_topic b (ti_name (ta_info ta))
               = Some \<lparr>topic_handle_name = ti_name (ta_info ta), topic_internal_id = i\<rparr>))"

definition known_topic :: "broker \<Rightarrow> topic \<Rightarrow> bool" where
  "known_topic b t \<longleftrightarrow> (\<exists>ta. topic_actor_of b (topic_internal_id t) = Some ta
     \<and> ti_name (ta_info ta) = topic_handle_name t)"

definition subscription_actor_ok :: "broker \<Rightarrow> u32 \<Rightarrow> subscription_actor \<Rightarrow> bool" where
  "subscription_actor_ok b i a \<longleftrightarrow> sa_internal_id a = i \<and> i \<le> sm_next_id (bk_subscriptions b)
     \<and> stopped a = sa_deleted a \<and> (\<not> stopped a \<longrightarrow> actor_reachable a)
     \<and> (\<not> sa_deleted a \<longrightarrow>
          (\<exists>s. registered_subscription b (si_name (sa_info a)) = Some s \<and> sub_internal_id s = i))"

definition subscriptions_ok :: "broker \<Rightarrow> bool" where
  "subscriptions_ok b \<longleftrightarrow> subscription_registry.registry_inv (bk_subscriptions b)
     \<and> (\<forall>n s. registered_subscription b n = Some s \<longrightarrow> known_topic b (sub_topic s)
          \<and> (\<exists>a. subscription_actor_of b (sub_internal_id s) = Some a \<and> si_name (sa_info a) = n
               \<and> \<not> sa_deleted a))
     \<and> (\<forall>i a. subscription_actor_of b i = Some a \<longrightarrow> subscription_actor_ok b i a)"

definition attached_ok :: "broker \<Rightarrow> bool" where
  "attached_ok b \<longleftrightarrow>
     (\<forall>n t ta. registered_topic b n = Some t \<longrightarrow> topic_actor_of b (topic_internal_id t) = Some ta \<longrightarrow>
        (\<forall>m s. fmlookup (ta_subscriptions ta) m = Some s
           \<longleftrightarrow> registered_subscription b m = Some s \<and> sub_topic s = t))"

definition broker_inv :: "broker \<Rightarrow> bool" where
  "broker_inv b \<longleftrightarrow> topics_ok b \<and> subscriptions_ok b \<and> attached_ok b"

lemma broker_new_inv: "broker_inv broker_new"
  using topic_registry.inv_initial subscription_registry.inv_initial
  by (simp add: broker_inv_def topics_ok_def subscriptions_ok_def attached_ok_def broker_new_def
      topic_state_new_def subscription_state_new_def)

text \<open>Each part depends on some components only; the push registry and the spawned tasks are in none.\<close>

lemma topics_ok_cong:
  "bk_topics b' = bk_topics b \<Longrightarrow> bk_topic_actors b' = bk_topic_actors b \<Longrightarrow> topics_ok b' = topics_ok b"
  by (simp add: topics_ok_def)

lemma known_topic_cong: "bk_topic_actors b' = bk_topic_actors b \<Longrightarrow> known_topic b' t = known_topic b t"
  by (simp add: known_topic_def)

lemma attached_ok_cong:
  "bk_topics b' = bk_topics b \<Longrightarrow> bk_topic_actors b' = bk_topic_actors b
   \<Longrightarrow> bk_subscriptions b' = bk_subscriptions b \<Longrightarrow> attached_ok b' = attached_ok b"
  by (simp add: attached_ok_def)

lemma subscriptions_ok_cong:
  assumes "bk_subscriptions b' = bk_subscriptions b" "bk_subscription_actors b' = bk_subscription_actors b"
    and "\<And>t. known_topic b' t = known_topic b t"
  shows "subscriptions_ok b' = subscriptions_ok b"
  by (simp add: subscriptions_ok_def subscription_actor_ok_def assms)

lemma subscriptions_okI:
  assumes "subscription_registry.registry_inv (bk_subscriptions b)"
    and "\<And>n s. registered_subscription b n = Some s \<Longrightarrow> known_topic b (sub_topic s)"
    and "\<And>n s. registered_subscription b n = Some s \<Longrightarrow>
      \<exists>a. subscription_actor_of b (sub_internal_id s) = Some a \<and> si_name (sa_info a) = n \<and> \<not> sa_deleted a"
    and "\<And>i a. subscription_actor_of b i = Some a \<Longrightarrow> subscription_actor_ok b i a"
  shows "subscriptions_ok b"
  unfolding subscriptions_ok_def using assms by blast

lemma subscriptions_okD:
  assumes "subscriptions_ok b"
  shows "subscription_registry.registry_inv (bk_subscriptions b)"
    and "registered_subscription b n = Some s \<Longrightarrow> known_topic b (sub_topic s)"
    and "registered_subscription b n = Some s \<Longrightarrow>
      \<exists>a. subscription_actor_of b (sub_internal_id s) = Some a \<and> si_name (sa_info a) = n \<and> \<not> sa_deleted a"
    and "subscription_actor_of b i = Some a \<Longrightarrow> subscription_actor_ok b i a"
  using assms unfolding subscriptions_ok_def by blast+

lemma broker_inv_cong:
  assumes "bk_topics b' = bk_topics b" "bk_topic_actors b' = bk_topic_actors b"
    "bk_subscriptions b' = bk_subscriptions b" "bk_subscription_actors b' = bk_subscription_actors b"
  shows "broker_inv b' = broker_inv b"
  unfolding broker_inv_def topics_ok_cong [OF assms(1,2)] attached_ok_cong [OF assms(1-3)]
    subscriptions_ok_cong [OF assms(3,4) known_topic_cong [OF assms(2)]] ..

lemma broker_inv_frame [simp]:
  "broker_inv (b\<lparr>bk_push := p\<rparr>) = broker_inv b" "broker_inv (b\<lparr>bk_spawned := q\<rparr>) = broker_inv b"
  by (rule broker_inv_cong; simp)+

lemma set_subscription_actor_fields [simp]:
  "bk_topics (set_subscription_actor i a b) = bk_topics b"
  "bk_topic_actors (set_subscription_actor i a b) = bk_topic_actors b"
  "bk_subscriptions (set_subscription_actor i a b) = bk_subscriptions b"
  "bk_subscription_actors (set_subscription_actor i a b) = fmupd i a (bk_subscription_actors b)"
  by (simp_all add: set_subscription_actor_def)

lemma set_topic_actor_fields [simp]:
  "bk_topics (set_topic_actor i ta b) = bk_topics b"
  "bk_topic_actors (set_topic_actor i ta b) = fmupd i ta (bk_topic_actors b)"
  "bk_subscriptions (set_topic_actor i ta b) = bk_subscriptions b"
  "bk_subscription_actors (set_topic_actor i ta b) = bk_subscription_actors b"
  by (simp_all add: set_topic_actor_def)

text \<open>A registered topic is the handle of its own actor.\<close>

lemma registered_topic_handle:
  assumes "broker_inv b" and "registered_topic b n = Some t"
  obtains ta where "topic_actor_of b (topic_internal_id t) = Some ta" "\<not> ta_deleted ta"
    "ti_name (ta_info ta) = n" "topic_handle_name t = n"
proof -
  from assms obtain ta where ta: "topic_actor_of b (topic_internal_id t) = Some ta"
      "ti_name (ta_info ta) = n" "\<not> ta_deleted ta"
    unfolding broker_inv_def topics_ok_def by blast
  moreover from assms have "topic_handle_name t = n"
    unfolding broker_inv_def topics_ok_def topic_registry.registry_inv_def by blast
  ultimately show thesis using that by blast
qed

lemma registered_subscription_actor:
  assumes "broker_inv b" and "registered_subscription b n = Some s"
  obtains a where "subscription_actor_of b (sub_internal_id s) = Some a" "\<not> sa_deleted a"
    "si_name (sa_info a) = n" "sub_name s = n" "actor_reachable a" "\<not> stopped a"
proof -
  from assms obtain a where a: "subscription_actor_of b (sub_internal_id s) = Some a"
      "si_name (sa_info a) = n" "\<not> sa_deleted a"
    unfolding broker_inv_def subscriptions_ok_def by blast
  moreover from assms have "sub_name s = n"
    unfolding broker_inv_def subscriptions_ok_def subscription_registry.registry_inv_def by blast
  moreover from a assms have "actor_reachable a" "\<not> stopped a"
    unfolding broker_inv_def subscriptions_ok_def subscription_actor_ok_def by metis+
  ultimately show thesis using that by blast
qed

section \<open>Calls of subscriptions\<close>

lemma quiet_stopped: "quiet a a' \<Longrightarrow> stopped a' = stopped a"
proof -
  assume "quiet a a'"
  then obtain es where es: "sa_effects a' = sa_effects a @ es"
      "list_all (quiet_effect (si_name (sa_info a))) es"
    by (auto simp: quiet_def)
  then have "NotifyDeleted \<notin> set es" by (auto simp: list_all_iff)
  then show ?thesis using es by (simp add: stopped_def)
qed

lemma set_subscription_actor_inv:
  assumes "broker_inv b" and "subscription_actor_of b i = Some a" and "quiet a a'"
    and "\<not> stopped a \<Longrightarrow> actor_reachable a \<Longrightarrow> actor_reachable a'"
  shows "broker_inv (set_subscription_actor i a' b)"
proof -
  let ?b = "set_subscription_actor i a' b"
  have parts: "topics_ok b" "subscriptions_ok b" "attached_ok b"
    using assms(1) by (simp_all add: broker_inv_def)
  note old = subscriptions_okD [OF parts(2)]
  have a': "sa_internal_id a' = sa_internal_id a" "si_name (sa_info a') = si_name (sa_info a)"
    "sa_deleted a' = sa_deleted a" "stopped a' = stopped a"
    using assms(3) quiet_stopped by (simp_all add: quiet_def)
  have "subscriptions_ok ?b"
  proof (rule subscriptions_okI)
    show "subscription_registry.registry_inv (bk_subscriptions ?b)" using old(1) by simp
    show "known_topic ?b (sub_topic s)" if "registered_subscription ?b n = Some s" for n s
      using old(2) that by (simp add: known_topic_def)
    show "\<exists>c. subscription_actor_of ?b (sub_internal_id s) = Some c \<and> si_name (sa_info c) = n
        \<and> \<not> sa_deleted c" if "registered_subscription ?b n = Some s" for n s
      using old(3) [of n s] that assms(2) a' by auto
    show "subscription_actor_ok ?b j c" if "subscription_actor_of ?b j = Some c" for j c
      using old(4) [of j] that assms(2,4) a'
      by (cases "j = i") (auto simp: subscription_actor_ok_def)
  qed
  then show ?thesis
    using parts topics_ok_cong [of ?b b] attached_ok_cong [of ?b b] by (simp add: broker_inv_def)
qed

lemma quiet_effects_inv:
  "list_all (quiet_effect n) es \<Longrightarrow> broker_inv (fold (apply_actor_effect t) es b) = broker_inv b"
proof (induction es arbitrary: b)
  case (Cons e es)
  then have "broker_inv (apply_actor_effect t e b) = broker_inv b"
    by (cases e) (auto split: option.split)
  with Cons show ?case by simp
qed simp

text \<open>No counter is about to wrap around.\<close>

definition broker_room :: "broker \<Rightarrow> bool" where
  "broker_room b \<longleftrightarrow> (\<forall>i a. subscription_actor_of b i = Some a \<longrightarrow> counters_have_room a)
     \<and> unat (tm_next_id (bk_topics b)) + 1 < 2 ^ 32 \<and> unat (sm_next_id (bk_subscriptions b)) + 1 < 2 ^ 32"

text \<open>A handle of a subscription: it is the registered one, unless the subscription was deleted.\<close>

definition known_subscription :: "broker \<Rightarrow> subscription \<Rightarrow> bool" where
  "known_subscription b s \<longleftrightarrow> (\<exists>a. subscription_actor_of b (sub_internal_id s) = Some a
     \<and> (\<not> sa_deleted a \<longrightarrow> registered_subscription b (sub_name s) = Some s))"

text \<open>The requests of the services and of the push loop: posting is left to the topics.\<close>

definition subscription_request_ok ::
    "broker_env \<Rightarrow> subscription \<Rightarrow> subscription_request \<Rightarrow> broker \<Rightarrow> bool" where
  "subscription_request_ok env s r b \<longleftrightarrow> known_subscription b s \<and> (\<nexists>ms. r = PostMessages ms)
     \<and> (\<forall>a. subscription_actor_of b (sub_internal_id s) = Some a
          \<longrightarrow> event_ok (Request (actor_env_of env (sub_topic s) b) r) a)"

lemma quiet_new_effects:
  "quiet a a' \<Longrightarrow> list_all (quiet_effect (si_name (sa_info a))) (drop (length (sa_effects a)) (sa_effects a'))"
  by (auto simp: quiet_def)

text \<open>An event that is not the deletion keeps the invariant.\<close>

lemma quiet_event_inv:
  assumes inv: "broker_inv b" and room: "broker_room b" and a: "subscription_actor_of b i = Some a"
    and event: "handle_event e a = Some a'" "event_ok e a" "\<And>env. e \<noteq> Request env Delete"
  shows "broker_inv (fold (apply_actor_effect t) (drop (length (sa_effects a)) (sa_effects a'))
    (set_subscription_actor i a' b))"
proof -
  have quiet: "quiet a a'" by (rule handle_event_quiet [OF event(1,3)])
  have "actor_reachable a'" if "\<not> stopped a" "actor_reachable a"
  proof (rule actor_reachable.next_step [OF that(2)])
    show "actor_step a e a'"
      using that(1) room a event(1,2) by (intro actor_step.step) (auto simp: broker_room_def)
  qed
  then have "broker_inv (set_subscription_actor i a' b)"
    by (rule set_subscription_actor_inv [OF inv a quiet])
  then show ?thesis using quiet_effects_inv [OF quiet_new_effects [OF quiet]] by blast
qed

section \<open>Changing a topic actor\<close>

lemma topics_okI:
  assumes "topic_registry.registry_inv (bk_topics b)"
    and "\<And>n t. registered_topic b n = Some t \<Longrightarrow>
      \<exists>ta. topic_actor_of b (topic_internal_id t) = Some ta \<and> ti_name (ta_info ta) = n \<and> \<not> ta_deleted ta"
    and "\<And>i ta. topic_actor_of b i = Some ta \<Longrightarrow> retained_ids_ok i ta \<and> i \<le> tm_next_id (bk_topics b)"
    and "\<And>i ta. topic_actor_of b i = Some ta \<Longrightarrow> \<not> ta_deleted ta \<Longrightarrow>
      registered_topic b (ti_name (ta_info ta))
        = Some \<lparr>topic_handle_name = ti_name (ta_info ta), topic_internal_id = i\<rparr>"
  shows "topics_ok b"
  unfolding topics_ok_def using assms by blast

lemma topics_okD:
  assumes "topics_ok b"
  shows "topic_registry.registry_inv (bk_topics b)"
    and "registered_topic b n = Some t \<Longrightarrow>
      \<exists>ta. topic_actor_of b (topic_internal_id t) = Some ta \<and> ti_name (ta_info ta) = n \<and> \<not> ta_deleted ta"
    and "topic_actor_of b i = Some ta \<Longrightarrow> retained_ids_ok i ta \<and> i \<le> tm_next_id (bk_topics b)"
    and "topic_actor_of b i = Some ta \<Longrightarrow> \<not> ta_deleted ta \<Longrightarrow>
      registered_topic b (ti_name (ta_info ta))
        = Some \<lparr>topic_handle_name = ti_name (ta_info ta), topic_internal_id = i\<rparr>"
  using assms unfolding topics_ok_def by blast+

text \<open>A topic actor that stays alive and keeps its name can be replaced.\<close>

lemma set_topic_actor_topics_ok:
  assumes "topics_ok b" and "topic_actor_of b i = Some ta" and "retained_ids_ok i ta'"
    and "ti_name (ta_info ta') = ti_name (ta_info ta)" and "ta_deleted ta' = ta_deleted ta"
  shows "topics_ok (set_topic_actor i ta' b)"
proof -
  note old = topics_okD [OF assms(1)]
  show ?thesis
    using old(1) old(2) old(3) [OF assms(2)] old(3) old(4) [OF assms(2)] old(4) assms(2-5)
    by (intro topics_okI) (fastforce split: if_splits)+
qed

lemma set_topic_actor_known:
  assumes "topic_actor_of b i = Some ta" and "ti_name (ta_info ta') = ti_name (ta_info ta)"
  shows "known_topic (set_topic_actor i ta' b) t = known_topic b t"
  using assms by (auto simp: known_topic_def)

section \<open>Deleting a subscription\<close>

text \<open>What the deletion of a live subscription leaves: the topic actor, if the topic is still
  registered, has detached it.\<close>

definition detach_from_topic :: "subscription_name \<Rightarrow> topic \<Rightarrow> broker \<Rightarrow> broker" where
  "detach_from_topic n t b =
     (if upgrade_topic t b = None then b else apply_actor_effect t (TopicRemoveSubscription n) b)"

lemma delete_call:
  assumes a: "subscription_actor_of b (sub_internal_id s) = Some a" "\<not> sa_deleted a" "\<not> stopped a"
    and n: "si_name (sa_info a) = n"
    and a': "a' = snd (actor_delete (actor_env_of env (sub_topic s) b) a)"
  shows "snd (subscription_call env s Delete b)
    = (let b1 = detach_from_topic n (sub_topic s) (set_subscription_actor (sub_internal_id s) a' b)
       in b1\<lparr>bk_subscriptions := subscription_delegate_delete n (bk_subscriptions b1),
             bk_push := push_registry_set n None (bk_push b1)\<rparr>)"
proof -
  let ?env = "actor_env_of env (sub_topic s) b"
  have "env_topic_responds ?env" "env_topic ?env = upgrade_topic (sub_topic s) b"
    by (simp_all add: actor_env_of_def)
  note effects = actor_delete_effects(4) [OF this(1) a(2), unfolded this(2) n]
  have "upgrade_topic t (set_subscription_actor i c b) = upgrade_topic t b" for t i c
    by (simp add: upgrade_topic_def)
  then show ?thesis
    using a effects by (simp add: subscription_call_def a' split_beta detach_from_topic_def Let_def
        del: apply_actor_effect.simps(3))
qed

lemma detach_from_topic_fields:
  "bk_topics (detach_from_topic n t b) = bk_topics b"
  "bk_subscriptions (detach_from_topic n t b) = bk_subscriptions b"
  "bk_subscription_actors (detach_from_topic n t b) = bk_subscription_actors b"
  "topic_actor_of (detach_from_topic n t b) i
     = (if upgrade_topic t b \<noteq> None \<and> i = topic_internal_id t
        then map_option (\<lambda>ta. ta\<lparr>ta_subscriptions := fmdrop n (ta_subscriptions ta)\<rparr>) (topic_actor_of b i)
        else topic_actor_of b i)"
  by (auto simp: detach_from_topic_def remove_subscription_def split: option.split)

lemma detach_from_topic_ok:
  assumes "topics_ok b"
  shows "topics_ok (detach_from_topic n t b)" and "known_topic (detach_from_topic n t b) u = known_topic b u"
proof -
  show "known_topic (detach_from_topic n t b) u = known_topic b u"
    by (auto simp: known_topic_def detach_from_topic_fields)
  show "topics_ok (detach_from_topic n t b)"
  proof (cases "upgrade_topic t b = None \<or> topic_actor_of b (topic_internal_id t) = None")
    case True
    then show ?thesis using assms by (auto simp: detach_from_topic_def)
  next
    case False
    then obtain ta where ta: "topic_actor_of b (topic_internal_id t) = Some ta" by auto
    have "retained_ids_ok (topic_internal_id t) (ta\<lparr>ta_subscriptions := fmdrop n (ta_subscriptions ta)\<rparr>)"
      using topics_okD(3) [OF assms ta] by (simp add: retained_ids_ok_def)
    then show ?thesis
      using assms False ta set_topic_actor_topics_ok [OF assms ta]
      by (simp add: detach_from_topic_def remove_subscription_def)
  qed
qed

text \<open>Two live subscription actors with one name are the same.\<close>

lemma live_actor_unique:
  assumes "subscriptions_ok b" and "subscription_actor_of b i = Some a" "\<not> sa_deleted a"
    and "registered_subscription b (si_name (sa_info a)) = Some s"
  shows "sub_internal_id s = i"
  using subscriptions_okD(4) [OF assms(1,2)] assms(3,4) by (auto simp: subscription_actor_ok_def)

lemma unregister_subscriptions_ok:
  assumes ok: "subscriptions_ok b" and s: "registered_subscription b n = Some s"
    and a': "sa_deleted a'" "stopped a'" "sa_internal_id a' = sub_internal_id s"
    and b': "bk_subscriptions b' = subscription_delegate_delete n (bk_subscriptions b)"
      "bk_subscription_actors b' = fmupd (sub_internal_id s) a' (bk_subscription_actors b)"
      "\<And>t. known_topic b' t = known_topic b t"
  shows "subscriptions_ok b'"
proof (rule subscriptions_okI)
  note old = subscriptions_okD [OF ok]
  have reg: "registered_subscription b' m = (if m = n then None else registered_subscription b m)" for m
    by (simp add: b' subscription_delegate_delete_def)
  have next_id: "sm_next_id (bk_subscriptions b') = sm_next_id (bk_subscriptions b)"
    by (simp add: b' subscription_delegate_delete_def)
  obtain a where a: "subscription_actor_of b (sub_internal_id s) = Some a" "si_name (sa_info a) = n"
    using old(3) [OF s] by blast
  show "subscription_registry.registry_inv (bk_subscriptions b')"
    unfolding b'(1) by (rule subscription_registry.inv_remove [OF old(1)])
  show "known_topic b' (sub_topic x)" if "registered_subscription b' m = Some x" for m x
    using old(2) that by (auto simp: reg b'(3) split: if_splits)
  show "\<exists>c. subscription_actor_of b' (sub_internal_id x) = Some c \<and> si_name (sa_info c) = m
      \<and> \<not> sa_deleted c" if "registered_subscription b' m = Some x" for m x
  proof -
    have m: "m \<noteq> n" "registered_subscription b m = Some x" using that by (simp_all add: reg split: if_splits)
    then obtain c where c: "subscription_actor_of b (sub_internal_id x) = Some c" "si_name (sa_info c) = m"
      "\<not> sa_deleted c" using old(3) by blast
    with a m(1) have "sub_internal_id x \<noteq> sub_internal_id s" by auto
    with c show ?thesis by (simp add: b'(2))
  qed
  show "subscription_actor_ok b' i c" if "subscription_actor_of b' i = Some c" for i c
  proof (cases "i = sub_internal_id s")
    case True
    then have "c = a'" using that by (simp add: b'(2))
    then show ?thesis
      using a' True old(4) [OF a(1)] by (simp add: subscription_actor_ok_def next_id)
  next
    case False
    then have c: "subscription_actor_of b i = Some c" using that by (simp add: b'(2))
    have "si_name (sa_info c) \<noteq> n" if "\<not> sa_deleted c"
      using live_actor_unique [OF ok c that] s False by auto
    then show ?thesis using old(4) [OF c] by (auto simp: subscription_actor_ok_def reg next_id)
  qed
qed

lemma attached_subscriptions:
  assumes inv: "broker_inv b" and u: "registered_topic b m = Some u"
  obtains c where "topic_actor_of b (topic_internal_id u) = Some c" "ti_name (ta_info c) = m"
    "topic_handle_name u = m"
    "\<And>k x. fmlookup (ta_subscriptions c) k = Some x
       \<longleftrightarrow> registered_subscription b k = Some x \<and> sub_topic x = u"
proof -
  from registered_topic_handle [OF inv u] obtain c where
    c: "topic_actor_of b (topic_internal_id u) = Some c" "ti_name (ta_info c) = m" "topic_handle_name u = m"
    by metis
  moreover have "attached_ok b" using inv by (simp add: broker_inv_def)
  ultimately show thesis using u by (intro that [of c]) (auto simp: attached_ok_def)
qed

lemma detach_attached_ok:
  assumes inv: "broker_inv b" and s: "registered_subscription b (sub_name s) = Some s"
    and topics: "bk_topics b' = bk_topics b"
      "bk_topic_actors b' = bk_topic_actors (detach_from_topic (sub_name s) (sub_topic s) b)"
    and reg: "\<And>m. registered_subscription b' m
      = (if m = sub_name s then None else registered_subscription b m)"
  shows "attached_ok b'"
  unfolding attached_ok_def
proof (intro allI impI)
  fix n t ta m x
  assume t: "registered_topic b' n = Some t" and ta: "topic_actor_of b' (topic_internal_id t) = Some ta"
  have t_b: "registered_topic b n = Some t" using t by (simp add: topics)
  from attached_subscriptions [OF inv this] obtain ta0 where
    ta0: "topic_actor_of b (topic_internal_id t) = Some ta0" "ti_name (ta_info ta0) = n" "topic_handle_name t = n"
    and old: "\<And>k x. fmlookup (ta_subscriptions ta0) k = Some x
      \<longleftrightarrow> registered_subscription b k = Some x \<and> sub_topic x = t" by metis
  show "fmlookup (ta_subscriptions ta) m = Some x
      \<longleftrightarrow> registered_subscription b' m = Some x \<and> sub_topic x = t"
  proof (cases "topic_internal_id t = topic_internal_id (sub_topic s)")
    case True
    have "known_topic b (sub_topic s)"
      using inv subscriptions_okD(2) [OF _ s] by (simp add: broker_inv_def)
    then have "topic_handle_name (sub_topic s) = n" using ta0 True by (auto simp: known_topic_def)
    then have "upgrade_topic (sub_topic s) b \<noteq> None" using t_b True by (simp add: upgrade_topic_def)
    then have "ta = ta0\<lparr>ta_subscriptions := fmdrop (sub_name s) (ta_subscriptions ta0)\<rparr>"
      using ta ta0(1) True by (simp add: topics detach_from_topic_fields)
    then show ?thesis using old by (auto simp: reg)
  next
    case False
    then have "ta = ta0" using ta ta0(1) by (simp add: topics detach_from_topic_fields)
    moreover have "sub_topic s \<noteq> t" using False by auto
    ultimately show ?thesis using old s by (auto simp: reg)
  qed
qed

lemma delete_inv:
  assumes inv: "broker_inv b" and s: "registered_subscription b (sub_name s) = Some s"
  shows "broker_inv (snd (subscription_call env s Delete b))"
proof -
  have parts: "topics_ok b" "subscriptions_ok b" "attached_ok b"
    using inv by (simp_all add: broker_inv_def)
  let ?n = "sub_name s" and ?i = "sub_internal_id s" and ?t = "sub_topic s"
  obtain a where a: "subscription_actor_of b ?i = Some a" "\<not> sa_deleted a" "\<not> stopped a"
    "si_name (sa_info a) = ?n" using registered_subscription_actor [OF inv s] by metis
  define a' where "a' = snd (actor_delete (actor_env_of env ?t b) a)"
  define b1 where "b1 = detach_from_topic ?n ?t (set_subscription_actor ?i a' b)"
  define b' where "b' = snd (subscription_call env s Delete b)"
  have "env_topic_responds (actor_env_of env ?t b)" by (simp add: actor_env_of_def)
  note effects = actor_delete_effects [OF this a(2), folded a'_def]
  have b': "b' = b1\<lparr>bk_subscriptions := subscription_delegate_delete ?n (bk_subscriptions b1),
      bk_push := push_registry_set ?n None (bk_push b1)\<rparr>"
    unfolding b'_def delete_call [OF a a'_def] by (simp add: b1_def Let_def)
  have fields: "bk_topics b' = bk_topics b"
    "bk_subscriptions b' = subscription_delegate_delete ?n (bk_subscriptions b)"
    "bk_subscription_actors b' = fmupd ?i a' (bk_subscription_actors b)"
    "bk_topic_actors b' = bk_topic_actors (detach_from_topic ?n ?t b)"
    by (auto simp: b' b1_def detach_from_topic_fields detach_from_topic_def upgrade_topic_def
        split: option.split)
  have known: "known_topic b' u = known_topic b u" for u
    using known_topic_cong [OF fields(4)] detach_from_topic_ok(2) [OF parts(1)] by simp
  have "topics_ok b'"
    using topics_ok_cong [of b' "detach_from_topic ?n ?t b"] fields detach_from_topic_ok(1) [OF parts(1)]
    by (simp add: detach_from_topic_fields)
  moreover have "subscriptions_ok b'"
  proof (rule unregister_subscriptions_ok [OF parts(2) s _ _ _ fields(2,3) known])
    show "sa_deleted a'" "stopped a'" "sa_internal_id a' = ?i"
      using effects subscriptions_okD(4) [OF parts(2) a(1)]
      by (simp_all add: stopped_def subscription_actor_ok_def)
  qed
  moreover have "attached_ok b'"
    by (rule detach_attached_ok [OF inv s fields(1,4)]) (simp add: fields(2) subscription_delegate_delete_def)
  ultimately show ?thesis by (simp add: broker_inv_def b'_def)
qed

section \<open>Calls of topics\<close>

text \<open>The requests that the services send to a topic; attaching and removing a subscription are left to
  the manager and to the subscription's own deletion. The environment of a publish lists the attached
  subscriptions.\<close>

fun topic_request_ok :: "broker_env \<Rightarrow> topic_request \<Rightarrow> topic_actor \<Rightarrow> bool" where
  "topic_request_ok env (PublishMessages ms) ta \<longleftrightarrow>
     unat (ta_next_message_id ta) + length ms < 2 ^ 32
     \<and> enumerates (be_subscription_order env) (ta_subscriptions ta)"
| "topic_request_ok env (AttachSubscription s) ta \<longleftrightarrow> False"
| "topic_request_ok env (RemoveSubscription n) ta \<longleftrightarrow> False"
| "topic_request_ok env _ ta \<longleftrightarrow> True"

lemma post_room: "counters_have_room (actor_post_messages ms a) = counters_have_room a"
proof -
  have loop: "sa_next_ack_id b' = sa_next_ack_id b \<and> sa_retry_queue b' = sa_retry_queue b
      \<and> sa_outstanding b' = sa_outstanding b" if "post_loop ms h b = (h', b')" for ms h h' b b'
    using that by (induction ms h b arbitrary: h' b' rule: post_loop.induct)
      (auto simp: post_one_def set_key_queue_def split: if_splits option.splits bool.splits)
  then show ?thesis
    by (auto simp: actor_post_messages_def counters_have_room_def emit_def split: prod.split)
qed

lemma post_inv:
  assumes "broker_inv b" and "broker_room b"
  shows "broker_inv (apply_topic_effect (PostTo s ms) b) \<and> broker_room (apply_topic_effect (PostTo s ms) b)"
proof (cases "subscription_actor_of b (sub_internal_id s)")
  case (Some a)
  let ?i = "sub_internal_id s" and ?a = "actor_post_messages ms a"
  have "actor_reachable ?a" if "\<not> stopped a" "actor_reachable a"
  proof (rule actor_reachable.next_step [OF that(2)])
    show "actor_step a (Request env (PostMessages ms)) ?a" for env
      using that(1) assms(2) Some by (intro actor_step.step) (auto simp: broker_room_def)
  qed
  then have "broker_inv (set_subscription_actor ?i ?a b)"
    by (rule set_subscription_actor_inv [OF assms(1) Some quiet_post])
  moreover have "broker_room (set_subscription_actor ?i ?a b)"
    using assms(2) Some by (auto simp: broker_room_def post_room)
  ultimately show ?thesis using Some by simp
qed (use assms in simp)

lemma posts_inv:
  assumes "broker_inv b" and "broker_room b" and "list_all (\<lambda>e. \<exists>s ms. e = PostTo s ms) es"
  shows "broker_inv (fold apply_topic_effect es b) \<and> broker_room (fold apply_topic_effect es b)"
  using assms
proof (induction es arbitrary: b)
  case (Cons e es)
  then obtain s ms where "e = PostTo s ms" by auto
  with Cons post_inv [OF Cons.prems(1,2)] show ?case by simp
qed simp

lemma join_posts_effects:
  "list_all (\<lambda>e. \<exists>s ms. e = PostTo s ms) (snd (join_posts env ms ss))"
  by (induction ss) (auto simp: list_all_iff split: prod.splits)

text \<open>Replacing a topic actor by one with the same name, subscriptions and life.\<close>

lemma set_topic_actor_inv:
  assumes "broker_inv b" and ta: "topic_actor_of b i = Some ta" and "retained_ids_ok i ta'"
    and "ti_name (ta_info ta') = ti_name (ta_info ta)" and "ta_deleted ta' = ta_deleted ta"
    and "ta_subscriptions ta' = ta_subscriptions ta"
  shows "broker_inv (set_topic_actor i ta' b)"
proof -
  have parts: "topics_ok b" "subscriptions_ok b" "attached_ok b"
    using assms(1) by (simp_all add: broker_inv_def)
  have "topics_ok (set_topic_actor i ta' b)"
    by (rule set_topic_actor_topics_ok [OF parts(1) ta assms(3-5)])
  moreover have "subscriptions_ok (set_topic_actor i ta' b)"
    using parts(2) subscriptions_ok_cong [of "set_topic_actor i ta' b" b]
      set_topic_actor_known [OF ta assms(4)] by simp
  moreover have "attached_ok (set_topic_actor i ta' b)"
    using parts(3) ta assms(6) by (auto simp: attached_ok_def)
  ultimately show ?thesis by (simp add: broker_inv_def)
qed

lemma publish_fields:
  assumes "publish_messages env ms ta = (r, ta')"
  shows "ta_info ta' = ta_info ta" "ta_deleted ta' = ta_deleted ta"
    "ta_subscriptions ta' = ta_subscriptions ta" "ta_topic_internal_id ta' = ta_topic_internal_id ta"
    "ta_next_message_id ta' = ta_next_message_id ta + of_nat (length ms)"
    "\<exists>msgs. ta_messages ta' = ta_messages ta @ msgs
       \<and> map tm_id msgs = ids_after (ta_topic_internal_id ta) (ta_next_message_id ta) (length ms)
       \<and> ta_effects ta' = ta_effects ta @ snd (join_posts env msgs (te_join_order env))"
proof -
  let ?ids = "ids_after (ta_topic_internal_id ta) (ta_next_message_id ta) (length ms)"
  define msgs where "msgs = map2 (\<lambda>mid m. topic_message_publish mid (te_wall env) (te_now env) m) ?ids ms"
  have "map tm_id msgs = ?ids" unfolding msgs_def by (rule stamped_ids) simp
  moreover have "stamp_messages (te_wall env) (te_now env) (ta_topic_internal_id ta) ms (ta_next_message_id ta)
      = (?ids, msgs, ta_next_message_id ta + of_nat (length ms))"
    by (simp only: stamp_messages_spec msgs_def)
  ultimately show "ta_info ta' = ta_info ta" "ta_deleted ta' = ta_deleted ta"
    "ta_subscriptions ta' = ta_subscriptions ta" "ta_topic_internal_id ta' = ta_topic_internal_id ta"
    "ta_next_message_id ta' = ta_next_message_id ta + of_nat (length ms)"
    "\<exists>msgs. ta_messages ta' = ta_messages ta @ msgs \<and> map tm_id msgs = ?ids
       \<and> ta_effects ta' = ta_effects ta @ snd (join_posts env msgs (te_join_order env))"
    using assms by (auto simp: publish_messages_def topic_emit_def Let_def split: prod.splits sum.splits)
qed

lemma publish_retained:
  assumes ok: "retained_ids_ok i ta" and room: "unat (ta_next_message_id ta) + length ms < 2 ^ 32"
    and pub: "publish_messages env ms ta = (r, ta')"
  shows "retained_ids_ok i ta'"
proof -
  note fields = publish_fields [OF pub]
  let ?next = "ta_next_message_id ta"
  obtain msgs where msgs: "ta_messages ta' = ta_messages ta @ msgs"
      "map tm_id msgs = ids_after i ?next (length ms)"
    using fields(6) ok by (auto simp: retained_ids_ok_def)
  have later: "unat (?next + of_nat (length ms)) = unat ?next + length ms"
    using room by (simp add: unat_word_ariths unat_of_nat)
  then have grow: "?next \<le> ta_next_message_id ta'" by (simp add: fields(5) word_le_nat_alt)
  have new: "\<exists>l. tm_id m = message_id_new i l \<and> ?next < l \<and> l \<le> ta_next_message_id ta'"
    if "m \<in> set msgs" for m
  proof -
    have "tm_id m \<in> set (ids_after i ?next (length ms))" using that msgs(2) by (metis image_eqI list.set_map)
    from ids_after_range [OF room this] show ?thesis by (simp add: fields(5))
  qed
  have "distinct (map tm_id (ta_messages ta'))"
  proof -
    have "tm_id x \<noteq> tm_id m" if "x \<in> set (ta_messages ta)" "m \<in> set msgs" for x m
      using new [OF that(2)] ok that(1) unfolding retained_ids_ok_def
      by (metis message_id_new_inj leD)
    moreover have "distinct (map tm_id msgs)" unfolding msgs(2) by (rule ids_after_distinct [OF room])
    ultimately show ?thesis using ok msgs(1) by (auto simp: retained_ids_ok_def)
  qed
  moreover have "\<exists>l. tm_id m = message_id_new i l \<and> l \<le> ta_next_message_id ta'"
    if "m \<in> set (ta_messages ta')" for m
    using that new ok grow unfolding msgs(1) retained_ids_ok_def by (metis UnE order_trans set_append)
  ultimately show ?thesis using ok fields(4) by (auto simp: retained_ids_ok_def)
qed

text \<open>Deleting a registered topic.\<close>

lemma unregister_topic_inv:
  assumes inv: "broker_inv b" and ta: "topic_actor_of b i = Some ta" "\<not> ta_deleted ta"
    and ta': "ta_deleted ta'" "ta_info ta' = ta_info ta" "retained_ids_ok i ta'"
  shows "broker_inv ((set_topic_actor i ta' b)\<lparr>bk_topics :=
    topic_delegate_delete (ti_name (ta_info ta)) (bk_topics b)\<rparr>)" (is "broker_inv ?b")
proof -
  have parts: "topics_ok b" "subscriptions_ok b" "attached_ok b"
    using inv by (simp_all add: broker_inv_def)
  note old = topics_okD [OF parts(1)]
  let ?n = "ti_name (ta_info ta)"
  have reg: "registered_topic ?b m = (if m = ?n then None else registered_topic b m)" for m
    by (simp add: topic_delegate_delete_def)
  have other: "topic_internal_id t \<noteq> i" if "registered_topic b m = Some t" "m \<noteq> ?n" for m t
    using old(2) [OF that(1)] that(2) ta(1) by auto
  have own: "registered_topic b ?n = Some \<lparr>topic_handle_name = ?n, topic_internal_id = i\<rparr>"
    by (rule old(4) [OF ta])
  have "topics_ok ?b"
  proof (rule topics_okI)
    show "topic_registry.registry_inv (bk_topics ?b)"
      using topic_registry.inv_remove [OF old(1)] by simp
    show "\<exists>c. topic_actor_of ?b (topic_internal_id t) = Some c \<and> ti_name (ta_info c) = m \<and> \<not> ta_deleted c"
      if "registered_topic ?b m = Some t" for m t
      using that old(2) [of m t] other [of m t] unfolding reg by (auto split: if_splits)
    show "retained_ids_ok j c \<and> j \<le> tm_next_id (bk_topics ?b)" if "topic_actor_of ?b j = Some c" for j c
      using that old(3) [of j] old(3) [OF ta(1)] ta'(3)
      by (cases "j = i") (auto simp: topic_delegate_delete_def)
    show "registered_topic ?b (ti_name (ta_info c))
        = Some \<lparr>topic_handle_name = ti_name (ta_info c), topic_internal_id = j\<rparr>"
      if c: "topic_actor_of ?b j = Some c" "\<not> ta_deleted c" for j c
    proof -
      have "j \<noteq> i" using c ta'(1) by auto
      then have "registered_topic b (ti_name (ta_info c))
          = Some \<lparr>topic_handle_name = ti_name (ta_info c), topic_internal_id = j\<rparr>"
        using c old(4) by auto
      then show ?thesis unfolding reg using own \<open>j \<noteq> i\<close> by auto
    qed
  qed
  moreover have "known_topic ?b t = known_topic b t" for t
    using ta(1) ta'(2) by (auto simp: known_topic_def)
  then have "subscriptions_ok ?b" using parts(2) subscriptions_ok_cong [of ?b b] by simp
  moreover have "attached_ok ?b"
    unfolding attached_ok_def
  proof (intro allI impI)
    fix m t c k x
    assume t: "registered_topic ?b m = Some t" and c: "topic_actor_of ?b (topic_internal_id t) = Some c"
    from t have "registered_topic b m = Some t" "m \<noteq> ?n" by (simp_all only: reg split: if_splits) auto
    moreover from this have "topic_internal_id t \<noteq> i" by (rule other)
    then have "topic_actor_of b (topic_internal_id t) = Some c" using c by simp
    ultimately show "fmlookup (ta_subscriptions c) k = Some x
        \<longleftrightarrow> registered_subscription ?b k = Some x \<and> sub_topic x = t"
      using parts(3) by (simp add: attached_ok_def)
  qed
  ultimately show ?thesis by (simp add: broker_inv_def)
qed

lemma topic_call_inv:
  assumes inv: "broker_inv b" and room: "broker_room b"
    and ta: "topic_actor_of b (topic_internal_id t) = Some ta" and ok: "topic_request_ok env r ta"
  shows "broker_inv (snd (topic_call env t r b))"
proof -
  let ?i = "topic_internal_id t"
  have "topics_ok b" using inv by (simp add: broker_inv_def)
  note retained = topics_okD(3) [OF this ta, THEN conjunct1]
  have same: "broker_inv (set_topic_actor ?i ta b)"
    by (rule set_topic_actor_inv [OF inv ta retained]) simp_all
  show ?thesis
  proof (cases r)
    case (PublishMessages ms)
    obtain res ta' where pub: "publish_messages (topic_env_of env b) ms ta = (res, ta')" by fastforce
    note fields = publish_fields [OF pub]
    have "retained_ids_ok ?i ta'"
      using publish_retained [OF retained _ pub] ok PublishMessages by simp
    then have "broker_inv (set_topic_actor ?i ta' b)"
      by (rule set_topic_actor_inv [OF inv ta]) (simp_all add: fields)
    moreover have "broker_room (set_topic_actor ?i ta' b)" using room by (simp add: broker_room_def)
    moreover have "list_all (\<lambda>e. \<exists>s ms. e = PostTo s ms) (drop (length (ta_effects ta)) (ta_effects ta'))"
      using fields(6) join_posts_effects by auto
    ultimately show ?thesis
      using posts_inv PublishMessages ta pub by (simp add: topic_call_def)
  next
    case DeleteTopic
    show ?thesis
    proof (cases "ta_deleted ta")
      case True
      then show ?thesis using DeleteTopic ta same by (simp add: topic_call_def topic_delete_def)
    next
      case False
      let ?ta' = "snd (topic_delete ta)"
      have fields: "ta_deleted ?ta'" "ta_info ?ta' = ta_info ta" "retained_ids_ok ?i ?ta'"
        "ta_effects ?ta' = ta_effects ta @ [TopicDelegateDelete (ti_name (ta_info ta))]"
        using False retained by (simp_all add: topic_delete_def topic_emit_def retained_ids_ok_def)
      show ?thesis
        using unregister_topic_inv [OF inv ta False fields(1-3)] DeleteTopic ta fields(4)
        by (simp add: topic_call_def split_beta)
    qed
  next
    case (UpdateTopicInfo u)
    let ?ta' = "snd (topic_update_info u ta)"
    have "ti_name (ta_info ?ta') = ti_name (ta_info ta)"
      by (auto simp: topic_update_info_def topic_apply_update_def Let_def split: option.split)
    moreover have "retained_ids_ok ?i ?ta'"
      using retained by (simp add: topic_update_info_def retained_ids_ok_def Let_def)
    ultimately have "broker_inv (set_topic_actor ?i ?ta' b)"
      by (intro set_topic_actor_inv [OF inv ta]) (simp_all add: topic_update_info_def Let_def)
    moreover have "ta_effects ?ta' = ta_effects ta" by (simp add: topic_update_info_def Let_def)
    ultimately show ?thesis using UpdateTopicInfo ta by (simp add: topic_call_def split_beta)
  qed (use ok ta same in \<open>simp_all add: topic_call_def\<close>)
qed

section \<open>Creating topics and subscriptions\<close>

lemma word_next_le: "unat (n :: u32) + 1 < 2 ^ 32 \<Longrightarrow> n \<le> n + 1 \<and> \<not> n + 1 \<le> n"
  by (simp add: word_le_nat_alt unat_word_ariths)

lemma new_topic_attached_ok:
  assumes inv: "broker_inv b" and fresh: "topic_actor_of b (topic_internal_id t') = None"
    and topics: "\<And>m. registered_topic b' m = (if m = n then Some t' else registered_topic b m)"
      "\<And>j. topic_actor_of b' j = (if j = topic_internal_id t' then Some ta else topic_actor_of b j)"
    and ta: "ta_subscriptions ta = fmempty"
    and subscriptions: "bk_subscriptions b' = bk_subscriptions b"
  shows "attached_ok b'"
  unfolding attached_ok_def
proof (intro allI impI)
  fix m t c k x
  assume t: "registered_topic b' m = Some t" and c: "topic_actor_of b' (topic_internal_id t) = Some c"
  show "fmlookup (ta_subscriptions c) k = Some x
      \<longleftrightarrow> registered_subscription b' k = Some x \<and> sub_topic x = t"
  proof (cases "m = n")
    case True
    have "known_topic b (sub_topic x)" if "registered_subscription b k = Some x"
      using inv subscriptions_okD(2) [OF _ that] by (simp add: broker_inv_def)
    then show ?thesis
      using True t c fresh ta by (auto simp: topics subscriptions known_topic_def)
  next
    case False
    then have "registered_topic b m = Some t" using t by (simp add: topics)
    from attached_subscriptions [OF inv this] show ?thesis
      using c fresh by (auto simp: topics subscriptions split: if_splits)
  qed
qed

lemma create_topic_inv:
  assumes inv: "broker_inv b" and room: "broker_room b"
  shows "broker_inv (snd (manager_create_topic info b))"
proof (cases "registered_topic b (ti_name info)")
  case (Some t)
  then have "snd (manager_create_topic info b) = b\<lparr>bk_topics := bk_topics b\<rparr>"
    by (simp add: manager_create_topic_def create_topic_def)
  then show ?thesis using inv by simp
next
  case None
  let ?n = "ti_name info" and ?i = "tm_next_id (bk_topics b) + 1"
  let ?t = "\<lparr>topic_handle_name = ?n, topic_internal_id = ?i\<rparr>"
  define b' where "b' = snd (manager_create_topic info b)"
  have parts: "topics_ok b" "subscriptions_ok b" "attached_ok b"
    using inv by (simp_all add: broker_inv_def)
  note old = topics_okD [OF parts(1)]
  have create: "create_topic info (bk_topics b)
      = (Inr ?t, (bk_topics b)\<lparr>tm_topics := fmupd ?n ?t (tm_topics (bk_topics b)), tm_next_id := ?i\<rparr>)"
    using None by (simp add: create_topic_def topic_new_def Let_def)
  have fields: "registered_topic b' m = (if m = ?n then Some ?t else registered_topic b m)"
    "tm_next_id (bk_topics b') = ?i"
    "topic_actor_of b' j = (if j = ?i then Some (topic_actor_start info ?i) else topic_actor_of b j)"
    "bk_subscriptions b' = bk_subscriptions b" "bk_subscription_actors b' = bk_subscription_actors b" for m j
    by (auto simp: b'_def manager_create_topic_def create)
  have state: "bk_topics b' = snd (create_topic info (bk_topics b))"
    by (simp add: b'_def manager_create_topic_def create)
  have nowrap: "tm_next_id (bk_topics b) \<le> ?i" "\<not> ?i \<le> tm_next_id (bk_topics b)"
    using room word_next_le by (auto simp: broker_room_def)
  have fresh: "topic_actor_of b ?i = None"
    using old(3) nowrap(2) by (metis option.exhaust)
  have known: "known_topic b' u" if "known_topic b u" for u
    using that fresh by (auto simp: known_topic_def fields)
  have start: "retained_ids_ok ?i (topic_actor_start info ?i)" "\<not> ta_deleted (topic_actor_start info ?i)"
    "ta_info (topic_actor_start info ?i) = info" "ta_subscriptions (topic_actor_start info ?i) = fmempty"
    by (simp_all add: topic_actor_start_def retained_ids_ok_def)
  have "topics_ok b'"
  proof (rule topics_okI)
    show "topic_registry.registry_inv (bk_topics b')"
      unfolding state using room by (intro topic_registry.inv_create old(1)) (simp add: broker_room_def)
    show "\<exists>c. topic_actor_of b' (topic_internal_id t) = Some c \<and> ti_name (ta_info c) = m \<and> \<not> ta_deleted c"
      if "registered_topic b' m = Some t" for m t
      using that old(2) [of m t] fresh start by (auto simp: fields split: if_splits)
    show "retained_ids_ok j c \<and> j \<le> tm_next_id (bk_topics b')" if "topic_actor_of b' j = Some c" for j c
      using that old(3) [of j c] start nowrap(1) by (auto simp: fields split: if_splits)
    show "registered_topic b' (ti_name (ta_info c))
        = Some \<lparr>topic_handle_name = ti_name (ta_info c), topic_internal_id = j\<rparr>"
      if "topic_actor_of b' j = Some c" "\<not> ta_deleted c" for j c
      using that old(4) [of j c] start None by (auto simp: fields split: if_splits)
  qed
  moreover have "subscriptions_ok b'"
    using subscriptions_okD [OF parts(2)] known
    by (intro subscriptions_okI) (auto simp: fields subscription_actor_ok_def)
  moreover have "attached_ok b'"
    by (rule new_topic_attached_ok [OF inv, of ?t b' ?n "topic_actor_start info ?i"])
      (simp_all add: fields start fresh)
  ultimately show ?thesis by (simp add: broker_inv_def b'_def)
qed

text \<open>The effects of a started actor register its push configuration only.\<close>

lemma start_effects_fields:
  "bk_topics (fold (apply_actor_effect t) (sa_effects (actor_start i info tm)) b) = bk_topics b"
  "bk_topic_actors (fold (apply_actor_effect t) (sa_effects (actor_start i info tm)) b) = bk_topic_actors b"
  "bk_subscriptions (fold (apply_actor_effect t) (sa_effects (actor_start i info tm)) b) = bk_subscriptions b"
  "bk_subscription_actors (fold (apply_actor_effect t) (sa_effects (actor_start i info tm)) b)
     = bk_subscription_actors b"
  by (simp_all add: actor_start_def)

lemma create_subscription_result:
  assumes ta: "topic_actor_of b (topic_internal_id t) = Some ta"
  obtains (refused) "snd (manager_create_subscription env info t b) = b"
  | (created) i s tm where "i = sm_next_id (bk_subscriptions b) + 1" "s = subscription_new info i t"
      "registered_subscription b (si_name info) = None"
      "bk_topics (snd (manager_create_subscription env info t b)) = bk_topics b"
      "bk_subscriptions (snd (manager_create_subscription env info t b))
         = snd (state_create_subscription (info, t) (bk_subscriptions b))"
      "bk_subscription_actors (snd (manager_create_subscription env info t b))
         = fmupd i (actor_start i info tm) (bk_subscription_actors b)"
      "bk_topic_actors (snd (manager_create_subscription env info t b))
         = fmupd (topic_internal_id t) (snd (attach_subscription s ta)) (bk_topic_actors b)"
proof (cases "topic_is_in_project (topic_handle_name t) (sn_project_id (si_name info))
    \<and> (\<exists>tm. check_dead_letter_topic info b = Inr tm) \<and> registered_subscription b (si_name info) = None")
  case False
  then show ?thesis
    by (intro refused) (auto simp: manager_create_subscription_def state_create_subscription_def
        split: sum.splits)
next
  case True
  then obtain tm where tm: "check_dead_letter_topic info b = Inr tm" by blast
  define i where "i = sm_next_id (bk_subscriptions b) + 1"
  define s where "s = subscription_new info i t"
  have s: "sub_internal_id s = i" by (simp add: s_def subscription_new_def)
  obtain st where st: "state_create_subscription (info, t) (bk_subscriptions b) = (Inr s, st)"
    using True by (simp add: state_create_subscription_def Let_def i_def s_def)
  have attach: "topic_attach_subscription env t s c
      = (Inr (), set_topic_actor (topic_internal_id t) (snd (attach_subscription s ta)) c)"
    if "bk_topic_actors c = bk_topic_actors b" for c
    using ta that by (simp add: topic_attach_subscription_def topic_call_def attach_subscription_def)
  show ?thesis
    by (rule created [OF i_def s_def, of tm])
      (use True in \<open>simp_all add: manager_create_subscription_def tm st s Let_def attach start_effects_fields\<close>)
qed

lemma attach_attached_ok:
  assumes inv: "broker_inv b"
    and ta: "topic_actor_of b (topic_internal_id t) = Some ta" "ti_name (ta_info ta) = topic_handle_name t"
    and vacant: "registered_subscription b (sub_name s) = None" and s: "sub_topic s = t"
    and topics: "bk_topics b' = bk_topics b"
      "bk_topic_actors b' = fmupd (topic_internal_id t) (snd (attach_subscription s ta)) (bk_topic_actors b)"
    and reg: "\<And>m. registered_subscription b' m
      = (if m = sub_name s then Some s else registered_subscription b m)"
  shows "attached_ok b'"
  unfolding attached_ok_def
proof (intro allI impI)
  fix m u c k x
  assume u: "registered_topic b' m = Some u" and c: "topic_actor_of b' (topic_internal_id u) = Some c"
  have "registered_topic b m = Some u" using u by (simp add: topics)
  from attached_subscriptions [OF inv this] obtain uc where
    uc: "topic_actor_of b (topic_internal_id u) = Some uc" "ti_name (ta_info uc) = m" "topic_handle_name u = m"
    and before: "\<And>k x. fmlookup (ta_subscriptions uc) k = Some x
      \<longleftrightarrow> registered_subscription b k = Some x \<and> sub_topic x = u" by metis
  have none: "fmlookup (ta_subscriptions uc) (sub_name s) = None"
    using before vacant by (metis option.distinct(1) option.exhaust)
  show "fmlookup (ta_subscriptions c) k = Some x
      \<longleftrightarrow> registered_subscription b' k = Some x \<and> sub_topic x = u"
  proof (cases "topic_internal_id u = topic_internal_id t")
    case True
    then have "u = t" "uc = ta" using uc ta by (simp_all add: topic.equality)
    moreover have "c = snd (attach_subscription s ta)" using True c by (simp add: topics)
    ultimately show ?thesis
      using before [of k x] none s by (auto simp: attach_subscription_def reg)
  next
    case False
    then have "c = uc" "u \<noteq> t" using c uc(1) by (auto simp: topics)
    then show ?thesis using before [of k x] vacant s by (auto simp: reg)
  qed
qed

lemma create_subscription_inv:
  assumes inv: "broker_inv b" and room: "broker_room b" and t: "known_topic b t"
  shows "broker_inv (snd (manager_create_subscription env info t b))"
proof -
  obtain ta where ta: "topic_actor_of b (topic_internal_id t) = Some ta"
    "ti_name (ta_info ta) = topic_handle_name t" using t by (auto simp: known_topic_def)
  define b' where "b' = snd (manager_create_subscription env info t b)"
  from ta(1) show ?thesis
  proof (cases rule: create_subscription_result [of b t ta env info])
    case refused
    then show ?thesis using inv by simp
  next
    case (created i s tm)
    note new = created(4-7) [folded b'_def]
    let ?n = "si_name info" and ?ta' = "snd (attach_subscription s ta)"
    have parts: "topics_ok b" "subscriptions_ok b" "attached_ok b"
      using inv by (simp_all add: broker_inv_def)
    note old = subscriptions_okD [OF parts(2)]
    have s: "sub_name s = ?n" "sub_topic s = t" "sub_internal_id s = i"
      by (simp_all add: created(2) subscription_new_def)
    have reg: "registered_subscription b' m = (if m = ?n then Some s else registered_subscription b m)"
      "sm_next_id (bk_subscriptions b') = i" for m
      using created(1-3) by (auto simp: new(2) state_create_subscription_def Let_def)
    have nowrap: "sm_next_id (bk_subscriptions b) \<le> i" "\<not> i \<le> sm_next_id (bk_subscriptions b)"
      using room word_next_le by (auto simp: broker_room_def created(1))
    have fresh: "subscription_actor_of b i = None"
      using old(4) nowrap(2) by (metis option.exhaust subscription_actor_ok_def)
    have actors: "subscription_actor_of b' j
        = (if j = i then Some (actor_start i info tm) else subscription_actor_of b j)" for j
      by (simp add: new(3))
    have start: "subscription_actor_ok b' i (actor_start i info tm)" "\<not> sa_deleted (actor_start i info tm)"
      "sa_info (actor_start i info tm) = info"
      using actor_reachable.start [of i info tm] s
      by (simp_all add: subscription_actor_ok_def reg stopped_def actor_start_def)
    have ta': "ta_info ?ta' = ta_info ta" "ta_deleted ?ta' = ta_deleted ta"
      "retained_ids_ok j ?ta' = retained_ids_ok j ta" for j
      by (simp_all add: attach_subscription_def retained_ids_ok_def)
    have known: "known_topic b' u = known_topic b u" for u
      using ta(1) ta' by (auto simp: known_topic_def new(4))
    have "topics_ok b'"
    proof -
      have "topics_ok (set_topic_actor (topic_internal_id t) ?ta' b)"
        using set_topic_actor_topics_ok [OF parts(1) ta(1)] topics_okD(3) [OF parts(1) ta(1)] ta' by simp
      then show ?thesis
        using topics_ok_cong [of b' "set_topic_actor (topic_internal_id t) ?ta' b"] by (simp add: new)
    qed
    moreover have "subscriptions_ok b'"
    proof (rule subscriptions_okI)
      show "subscription_registry.registry_inv (bk_subscriptions b')"
        unfolding new(2) using room
        by (intro subscription_registry.inv_create old(1)) (simp add: broker_room_def)
      show "known_topic b' (sub_topic x)" if "registered_subscription b' m = Some x" for m x
        using that old(2) [of m x] t s(2) by (cases "m = ?n") (simp_all add: reg known)
      show "\<exists>c. subscription_actor_of b' (sub_internal_id x) = Some c \<and> si_name (sa_info c) = m
          \<and> \<not> sa_deleted c" if "registered_subscription b' m = Some x" for m x
        using that old(3) [of m x] fresh start s(3) by (cases "m = ?n") (auto simp: reg actors)
      show "subscription_actor_ok b' j c" if "subscription_actor_of b' j = Some c" for j c
        using that old(4) [of j c] start(1) nowrap(1) created(3)
        by (cases "j = i") (auto simp: actors subscription_actor_ok_def reg)
    qed
    moreover have "attached_ok b'"
      by (rule attach_attached_ok [OF inv ta _ s(2) new(1,4)]) (simp_all add: s(1) created(3) reg)
    ultimately show ?thesis by (simp add: broker_inv_def b'_def)
  qed
qed

section \<open>The steps of the broker\<close>

inductive broker_step :: "broker \<Rightarrow> broker \<Rightarrow> bool" where
  topic_created: "broker_room b \<Longrightarrow> broker_step b (snd (manager_create_topic info b))"
| topic_called: "broker_room b \<Longrightarrow> topic_actor_of b (topic_internal_id t) = Some ta \<Longrightarrow>
    topic_request_ok env r ta \<Longrightarrow> broker_step b (snd (topic_call env t r b))"
| subscription_created: "broker_room b \<Longrightarrow> known_topic b t \<Longrightarrow>
    broker_step b (snd (manager_create_subscription env info t b))"
| subscription_called: "broker_room b \<Longrightarrow> subscription_request_ok env s r b \<Longrightarrow>
    broker_step b (snd (subscription_call env s r b))"
| timer_fired: "broker_room b \<Longrightarrow> event = Expiry at \<or> event = RetryDue at \<Longrightarrow>
    subscription_timer env s event b = Some b' \<Longrightarrow> broker_step b b'"
| task_run: "broker_room b \<Longrightarrow> i < length (bk_spawned b) \<Longrightarrow> bk_spawned b ! i = (t, ms) \<Longrightarrow>
    topic_actor_of b (topic_internal_id t) = Some ta \<Longrightarrow> topic_request_ok env (PublishMessages ms) ta \<Longrightarrow>
    broker_step b (run_spawned env i b)"

inductive broker_reachable :: "broker \<Rightarrow> bool" where
  new: "broker_reachable broker_new"
| step: "broker_reachable b \<Longrightarrow> broker_step b b' \<Longrightarrow> broker_reachable b'"

lemma subscription_call_inv:
  assumes inv: "broker_inv b" and room: "broker_room b" and ok: "subscription_request_ok env s r b"
  shows "broker_inv (snd (subscription_call env s r b))"
proof -
  obtain a where a: "subscription_actor_of b (sub_internal_id s) = Some a"
    and handle: "\<not> sa_deleted a \<Longrightarrow> registered_subscription b (sub_name s) = Some s"
    using ok by (auto simp: subscription_request_ok_def known_subscription_def)
  let ?env = "actor_env_of env (sub_topic s) b"
  show ?thesis
  proof (cases "r = Delete")
    case False
    have "event_ok (Request ?env r) a" using ok a by (simp add: subscription_request_ok_def)
    with quiet_event_inv [OF inv room a, of "Request ?env r" "snd (receive ?env r a)"] False
    show ?thesis using inv a by (simp add: subscription_call_def split_beta)
  next
    case True
    show ?thesis
    proof (cases "sa_deleted a")
      case True
      have "broker_inv (set_subscription_actor (sub_internal_id s) a b)"
        by (rule set_subscription_actor_inv [OF inv a quiet_refl])
      then show ?thesis
        using inv a True \<open>r = Delete\<close> by (simp add: subscription_call_def actor_delete_again)
    next
      case False
      then show ?thesis using delete_inv [OF inv handle] \<open>r = Delete\<close> by simp
    qed
  qed
qed

lemma topic_publish_call: "snd (topic_publish_messages env t ms b) = snd (topic_call env t (PublishMessages ms) b)"
  by (auto simp: topic_publish_messages_def split: option.split prod.split topic_response.split)

text \<open>A timer of a subscription that exists.\<close>

lemma timer_result:
  assumes "event = Expiry at \<or> event = RetryDue at" and "subscription_timer env s event b = Some b'"
  obtains (gone) "b' = b"
  | (handled) a a' e where "subscription_actor_of b (sub_internal_id s) = Some a" "handle_event e a = Some a'"
      "event_ok e a" "\<And>env' r. e \<noteq> Request env' r"
      "b' = fold (apply_actor_effect (sub_topic s)) (drop (length (sa_effects a)) (sa_effects a'))
         (set_subscription_actor (sub_internal_id s) a' b)"
proof (cases "subscription_actor_of b (sub_internal_id s)")
  case None
  then show ?thesis using assms(2) gone by (simp add: subscription_timer_def)
next
  case (Some a)
  let ?e = "event (actor_env_of env (sub_topic s) b)"
  obtain a' where a': "handle_event ?e a = Some a'"
    "b' = fold (apply_actor_effect (sub_topic s)) (drop (length (sa_effects a)) (sa_effects a'))
       (set_subscription_actor (sub_internal_id s) a' b)"
    using assms(2) Some by (auto simp: subscription_timer_def)
  moreover have "event_ok ?e a" "\<And>env' r. ?e \<noteq> Request env' r" using assms(1) by auto
  ultimately show ?thesis using handled Some by blast
qed

lemma broker_step_inv: "broker_step b b' \<Longrightarrow> broker_inv b \<Longrightarrow> broker_inv b'"
proof (induction rule: broker_step.induct)
  case (timer_fired b event at env s b')
  from timer_fired(2,3) show ?case
  proof (cases rule: timer_result)
    case gone
    then show ?thesis using timer_fired(4) by simp
  next
    case (handled a a' e)
    then show ?thesis using quiet_event_inv [OF timer_fired(4,1)] by blast
  qed
next
  case (task_run b i t ms ta env)
  let ?b = "b\<lparr>bk_spawned := take i (bk_spawned b) @ drop (Suc i) (bk_spawned b)\<rparr>"
  have "broker_inv (snd (topic_call env t (PublishMessages ms) ?b))"
    by (rule topic_call_inv [where ta = ta]) (use task_run in \<open>simp_all add: broker_room_def\<close>)
  then show ?case using task_run by (simp add: run_spawned_def topic_publish_call)
qed (auto intro: create_topic_inv topic_call_inv create_subscription_inv subscription_call_inv)

lemma broker_reachable_inv: "broker_reachable b \<Longrightarrow> broker_inv b"
proof (induction rule: broker_reachable.induct)
  case new
  show ?case by (rule broker_new_inv)
qed (rule broker_step_inv)

end
