(* ===== verification/Broker_Handles.thy ===== *)
theory Broker_Handles
  imports Broker_Invariant
begin

text \<open>
  Handles stay valid: a subscription that a client or a topic holds is, as long as it is not deleted, the
  one registered under its name. The relation \<open>extends\<close> says what a step may do to the subscriptions
  (actors are kept, a deletion is final, an entry of the registry is old or belongs to a new actor), and
  every step of the broker satisfies it; so a handle that was known stays known, and the subscriptions
  attached to a topic, also to a deleted one, are known.
\<close>

section \<open>What a step keeps\<close>

definition extends :: "broker \<Rightarrow> broker \<Rightarrow> bool" where
  "extends b b' \<longleftrightarrow>
     (\<forall>i a. subscription_actor_of b i = Some a \<longrightarrow>
        (\<exists>a'. subscription_actor_of b' i = Some a' \<and> (sa_deleted a \<longrightarrow> sa_deleted a')))
     \<and> (\<forall>n s. registered_subscription b' n = Some s \<longrightarrow>
        registered_subscription b n = Some s \<or> subscription_actor_of b (sub_internal_id s) = None)"

lemma extends_same:
  "bk_subscriptions b' = bk_subscriptions b \<Longrightarrow> bk_subscription_actors b' = bk_subscription_actors b
   \<Longrightarrow> extends b b'"
  by (simp add: extends_def)

lemma extends_trans_same:
  assumes "extends b b'" and "bk_subscriptions b'' = bk_subscriptions b'"
    and "bk_subscription_actors b'' = bk_subscription_actors b'"
  shows "extends b b''"
  using assms by (simp add: extends_def)

lemma extends_quiet:
  assumes "subscription_actor_of b i = Some a" and "quiet a a'"
  shows "extends b (set_subscription_actor i a' b)"
  using assms by (auto simp: extends_def quiet_def)

lemma quiet_effects_fields:
  assumes "list_all (quiet_effect n) es"
  shows "bk_subscriptions (fold (apply_actor_effect t) es b) = bk_subscriptions b"
    and "bk_subscription_actors (fold (apply_actor_effect t) es b) = bk_subscription_actors b"
    and "bk_topics (fold (apply_actor_effect t) es b) = bk_topics b"
    and "bk_topic_actors (fold (apply_actor_effect t) es b) = bk_topic_actors b"
proof -
  have "bk_subscriptions (fold (apply_actor_effect t) es b) = bk_subscriptions b
      \<and> bk_subscription_actors (fold (apply_actor_effect t) es b) = bk_subscription_actors b
      \<and> bk_topics (fold (apply_actor_effect t) es b) = bk_topics b
      \<and> bk_topic_actors (fold (apply_actor_effect t) es b) = bk_topic_actors b"
    using assms
  proof (induction es arbitrary: b)
    case (Cons e es)
    have "bk_subscriptions (apply_actor_effect t e b) = bk_subscriptions b
        \<and> bk_subscription_actors (apply_actor_effect t e b) = bk_subscription_actors b
        \<and> bk_topics (apply_actor_effect t e b) = bk_topics b
        \<and> bk_topic_actors (apply_actor_effect t e b) = bk_topic_actors b"
      using Cons.prems by (cases e) (auto split: option.split)
    with Cons show ?case by simp
  qed simp
  then show "bk_subscriptions (fold (apply_actor_effect t) es b) = bk_subscriptions b"
    "bk_subscription_actors (fold (apply_actor_effect t) es b) = bk_subscription_actors b"
    "bk_topics (fold (apply_actor_effect t) es b) = bk_topics b"
    "bk_topic_actors (fold (apply_actor_effect t) es b) = bk_topic_actors b" by simp_all
qed

lemma event_fields:
  assumes "handle_event e a = Some a'" and "\<And>env. e \<noteq> Request env Delete"
    and b': "b' = fold (apply_actor_effect t) (drop (length (sa_effects a)) (sa_effects a'))
    (set_subscription_actor i a' b)"
  shows "bk_subscriptions b' = bk_subscriptions b" "bk_topics b' = bk_topics b"
    "bk_topic_actors b' = bk_topic_actors b"
    "bk_subscription_actors b' = fmupd i a' (bk_subscription_actors b)"
  unfolding b'
  by (simp_all add: quiet_effects_fields [OF quiet_new_effects [OF handle_event_quiet [OF assms(1,2)]]])

text \<open>The posts of a publish, on the actors of the subscriptions.\<close>

lemma posts_fields:
  "bk_subscriptions (fold (\<lambda>s. apply_topic_effect (PostTo s ms)) ss b) = bk_subscriptions b"
  "bk_topics (fold (\<lambda>s. apply_topic_effect (PostTo s ms)) ss b) = bk_topics b"
  "bk_topic_actors (fold (\<lambda>s. apply_topic_effect (PostTo s ms)) ss b) = bk_topic_actors b"
  "subscription_actor_of (fold (\<lambda>s. apply_topic_effect (PostTo s ms)) ss b) i
     = map_option (actor_post_messages ms ^^ count_list (map sub_internal_id ss) i) (subscription_actor_of b i)"
proof -
  show "bk_subscriptions (fold (\<lambda>s. apply_topic_effect (PostTo s ms)) ss b) = bk_subscriptions b"
    by (induction ss arbitrary: b) (auto split: option.split)
  show "bk_topics (fold (\<lambda>s. apply_topic_effect (PostTo s ms)) ss b) = bk_topics b"
    by (induction ss arbitrary: b) (auto split: option.split)
  show "bk_topic_actors (fold (\<lambda>s. apply_topic_effect (PostTo s ms)) ss b) = bk_topic_actors b"
    by (induction ss arbitrary: b) (auto split: option.split)
  show "subscription_actor_of (fold (\<lambda>s. apply_topic_effect (PostTo s ms)) ss b) i
     = map_option (actor_post_messages ms ^^ count_list (map sub_internal_id ss) i) (subscription_actor_of b i)"
    by (induction ss arbitrary: b) (auto simp: option.map_id option.map_comp comp_def funpow_swap1 split: option.split)
qed

lemma quiet_posts: "quiet a ((actor_post_messages ms ^^ k) a)"
  by (induction k) (auto intro: quiet_trans quiet_post)

text \<open>The posts of a publish are posts to a sublist of the attached subscriptions, all of them when every
  one accepts.\<close>

lemma join_posts_targets:
  obtains ts where "snd (join_posts env ms ss) = map (\<lambda>s. PostTo s ms) ts" "set ts \<subseteq> set ss"
    "\<And>i. count_list (map sub_internal_id ts) i \<le> count_list (map sub_internal_id ss) i"
    "list_all (te_accepts env) ss \<Longrightarrow> ts = ss"
proof -
  have filter_count: "count_list (map sub_internal_id (filter P xs)) i \<le> count_list (map sub_internal_id xs) i"
    for P i xs
    by (induction xs) auto
  have "\<exists>ts. snd (join_posts env ms ss) = map (\<lambda>s. PostTo s ms) ts \<and> set ts \<subseteq> set ss
      \<and> (\<forall>i. count_list (map sub_internal_id ts) i \<le> count_list (map sub_internal_id ss) i)
      \<and> (list_all (te_accepts env) ss \<longrightarrow> ts = ss)"
  proof (induction ss)
    case (Cons s ss)
    then obtain ts where ts: "snd (join_posts env ms ss) = map (\<lambda>s. PostTo s ms) ts" "set ts \<subseteq> set ss"
      "\<forall>i. count_list (map sub_internal_id ts) i \<le> count_list (map sub_internal_id ss) i"
      "list_all (te_accepts env) ss \<longrightarrow> ts = ss" by blast
    show ?case
    proof (cases "te_accepts env s")
      case True
      with ts show ?thesis by (intro exI [of _ "s # ts"]) (auto split: prod.split)
    next
      case False
      then show ?thesis
        by (intro exI [of _ "filter (te_posted_before_abort env) ss"]) (auto simp: le_SucI filter_count)
    qed
  qed simp
  then show thesis using that by blast
qed

text \<open>The messages of a publish as the topic stamps them.\<close>

definition published_batch :: "broker_env \<Rightarrow> topic_message list \<Rightarrow> topic_actor \<Rightarrow> topic_message list" where
  "published_batch env ms ta = fst (snd (stamp_messages (be_wall env) (be_now env)
     (ta_topic_internal_id ta) ms (ta_next_message_id ta)))"

lemma published_batch_ids:
  "map tm_id (published_batch env ms ta)
     = ids_after (ta_topic_internal_id ta) (ta_next_message_id ta) (length ms)"
  unfolding published_batch_def stamp_messages_spec fst_conv snd_conv by (rule stamped_ids) simp

lemma publish_call:
  assumes ta: "topic_actor_of b (topic_internal_id t) = Some ta" and batch: "msgs = published_batch env ms ta"
  obtains ta' ts where
    "snd (topic_call env t (PublishMessages ms) b)
       = fold (\<lambda>s. apply_topic_effect (PostTo s msgs)) ts (set_topic_actor (topic_internal_id t) ta' b)"
    "ta_info ta' = ta_info ta" "ta_deleted ta' = ta_deleted ta" "ta_subscriptions ta' = ta_subscriptions ta"
    "ta_topic_internal_id ta' = ta_topic_internal_id ta"
    "ta_next_message_id ta' = ta_next_message_id ta + of_nat (length ms)"
    "set ts \<subseteq> set (be_subscription_order env)"
    "\<And>i. count_list (map sub_internal_id ts) i \<le> count_list (map sub_internal_id (be_subscription_order env)) i"
    "list_all (subscription_open env b) (be_subscription_order env) \<Longrightarrow> ts = be_subscription_order env
       \<and> fst (topic_call env t (PublishMessages ms) b) = Some (PublishResponse (Inr (map tm_id msgs)))"
proof -
  obtain r ta' where pub: "publish_messages (topic_env_of env b) ms ta = (r, ta')" by fastforce
  note fields = publish_fields [OF pub]
  have env: "te_join_order (topic_env_of env b) = be_subscription_order env"
    "te_accepts (topic_env_of env b) = subscription_open env b"
    "te_wall (topic_env_of env b) = be_wall env" "te_now (topic_env_of env b) = be_now env"
    by (simp_all add: topic_env_of_def)
  have effects: "ta_effects ta' = ta_effects ta
      @ snd (join_posts (topic_env_of env b) msgs (be_subscription_order env))"
    using pub by (auto simp: publish_messages_def topic_emit_def batch published_batch_def env Let_def
        split: prod.splits sum.splits)
  have response: "r = Inr (map tm_id msgs)" if "list_all (subscription_open env b) (be_subscription_order env)"
    using pub that batch published_batch_ids [of env ms ta]
    by (auto simp: publish_messages_def stamp_messages_spec published_batch_def env join_posts_all
        split: prod.splits sum.splits)
  obtain ts where ts: "snd (join_posts (topic_env_of env b) msgs (be_subscription_order env))
        = map (\<lambda>s. PostTo s msgs) ts" "set ts \<subseteq> set (be_subscription_order env)"
      "\<And>i. count_list (map sub_internal_id ts) i
        \<le> count_list (map sub_internal_id (be_subscription_order env)) i"
      "list_all (subscription_open env b) (be_subscription_order env) \<Longrightarrow> ts = be_subscription_order env"
    by (rule join_posts_targets [of "topic_env_of env b" msgs "be_subscription_order env", unfolded env]) blast
  show thesis
  proof (rule that [OF _ fields(1-5) ts(2,3)])
    show "snd (topic_call env t (PublishMessages ms) b)
       = fold (\<lambda>s. apply_topic_effect (PostTo s msgs)) ts (set_topic_actor (topic_internal_id t) ta' b)"
      using ta pub effects ts(1) by (simp add: topic_call_def fold_map comp_def)
    show "ts = be_subscription_order env
        \<and> fst (topic_call env t (PublishMessages ms) b) = Some (PublishResponse (Inr (map tm_id msgs)))"
      if "list_all (subscription_open env b) (be_subscription_order env)"
      using ts(4) response ta pub that by (simp add: topic_call_def)
  qed
qed

text \<open>The other calls of a topic leave the subscriptions alone.\<close>

lemma topic_call_fields:
  assumes "topic_actor_of b (topic_internal_id t) = Some ta" and "topic_request_ok env r ta"
    and "\<And>ms. r \<noteq> PublishMessages ms"
  shows "bk_subscriptions (snd (topic_call env t r b)) = bk_subscriptions b"
    and "bk_subscription_actors (snd (topic_call env t r b)) = bk_subscription_actors b"
  using assms by (cases r; auto simp: topic_call_def topic_delete_def topic_update_info_def topic_emit_def Let_def)+

lemma topic_call_extends:
  assumes "topic_actor_of b (topic_internal_id t) = Some ta" and "topic_request_ok env r ta"
  shows "extends b (snd (topic_call env t r b))"
proof (cases "\<exists>ms. r = PublishMessages ms")
  case True
  then obtain ms where ms: "r = PublishMessages ms" by blast
  obtain ta' ts where call: "snd (topic_call env t r b) = fold (\<lambda>s. apply_topic_effect (PostTo s (published_batch env ms ta))) ts
      (set_topic_actor (topic_internal_id t) ta' b)"
    unfolding ms by (rule publish_call [OF assms(1) refl, of env ms])
  have "sa_deleted ((actor_post_messages xs ^^ k) a) = sa_deleted a" for xs k a
    using quiet_posts by (simp add: quiet_def)
  then show ?thesis unfolding call extends_def by (auto simp: posts_fields)
next
  case False
  then show ?thesis using topic_call_fields [OF assms] by (intro extends_same) auto
qed

lemma subscription_call_fields:
  assumes "subscription_actor_of b (sub_internal_id s) = Some a" and "r \<noteq> Delete"
    and "\<not> (stopped a \<and> be_loop_ended env s)"
  shows "bk_subscriptions (snd (subscription_call env s r b)) = bk_subscriptions b"
    and "bk_topics (snd (subscription_call env s r b)) = bk_topics b"
    and "bk_topic_actors (snd (subscription_call env s r b)) = bk_topic_actors b"
    and "bk_subscription_actors (snd (subscription_call env s r b))
      = fmupd (sub_internal_id s) (snd (receive (actor_env_of env (sub_topic s) b) r a)) (bk_subscription_actors b)"
proof -
  let ?env = "actor_env_of env (sub_topic s) b"
  have "snd (subscription_call env s r b) = fold (apply_actor_effect (sub_topic s))
      (drop (length (sa_effects a)) (sa_effects (snd (receive ?env r a))))
      (set_subscription_actor (sub_internal_id s) (snd (receive ?env r a)) b)"
    using assms(1,3) by (auto simp: subscription_call_def split_beta)
  note fields = event_fields [OF _ _ this, of "Request ?env r"]
  show "bk_subscriptions (snd (subscription_call env s r b)) = bk_subscriptions b"
    "bk_topics (snd (subscription_call env s r b)) = bk_topics b"
    "bk_topic_actors (snd (subscription_call env s r b)) = bk_topic_actors b"
    "bk_subscription_actors (snd (subscription_call env s r b))
      = fmupd (sub_internal_id s) (snd (receive ?env r a)) (bk_subscription_actors b)"
    using fields assms(2) by simp_all
qed

text \<open>A call of a known subscription: its actor is gone, the request is handled, or the subscription is
  deleted.\<close>

lemma subscription_call_result:
  assumes inv: "broker_inv b" and ok: "known_subscription b s" and c: "c = snd (subscription_call env s r b)"
  obtains (same) "bk_topics c = bk_topics b" "bk_topic_actors c = bk_topic_actors b"
      "bk_subscriptions c = bk_subscriptions b" "bk_subscription_actors c = bk_subscription_actors b"
  | (handled) a where "subscription_actor_of b (sub_internal_id s) = Some a" "r \<noteq> Delete"
      "bk_topics c = bk_topics b" "bk_topic_actors c = bk_topic_actors b"
      "bk_subscriptions c = bk_subscriptions b"
      "bk_subscription_actors c = fmupd (sub_internal_id s)
         (snd (receive (actor_env_of env (sub_topic s) b) r a)) (bk_subscription_actors b)"
  | (deleted) a where "subscription_actor_of b (sub_internal_id s) = Some a" "\<not> sa_deleted a" "r = Delete"
      "registered_subscription b (sub_name s) = Some s"
      "bk_topics c = bk_topics b"
      "bk_topic_actors c = bk_topic_actors (detach_from_topic (sub_name s) (sub_topic s) b)"
      "bk_subscriptions c = subscription_delegate_delete (sub_name s) (bk_subscriptions b)"
      "bk_subscription_actors c = fmupd (sub_internal_id s)
         (snd (actor_delete (actor_env_of env (sub_topic s) b) a)) (bk_subscription_actors b)"
proof -
  obtain a where a: "subscription_actor_of b (sub_internal_id s) = Some a"
    and handle: "\<not> sa_deleted a \<Longrightarrow> registered_subscription b (sub_name s) = Some s"
    using ok by (auto simp: known_subscription_def)
  consider "stopped a \<and> be_loop_ended env s" | "\<not> (stopped a \<and> be_loop_ended env s)" "r \<noteq> Delete"
    | "\<not> (stopped a \<and> be_loop_ended env s)" "r = Delete" "sa_deleted a" | "r = Delete" "\<not> sa_deleted a"
    by blast
  then show thesis
  proof cases
    case 1
    then show thesis using a by (intro same) (simp_all add: c subscription_call_def)
  next
    case 2
    from subscription_call_fields [OF a 2(2,1), folded c] show thesis by (intro handled [OF a 2(2)])
  next
    case 3
    then show thesis
      using a by (intro same) (simp_all add: c subscription_call_def actor_delete_again fmupd_lookup_idle)
  next
    case 4
    then have live: "\<not> stopped a" "si_name (sa_info a) = sub_name s"
      using registered_subscription_actor [OF inv handle] a by (metis option.inject)+
    note call = delete_call [OF a 4(2) live refl, where env = env]
    have "bk_topic_actors (detach_from_topic n t (set_subscription_actor i x b))
        = bk_topic_actors (detach_from_topic n t b)" for n t i x
      by (auto simp: detach_from_topic_def upgrade_topic_def split: option.split)
    then show thesis
      using a 4 handle by (intro deleted [of a]) (simp_all add: c call Let_def detach_from_topic_fields)
  qed
qed

lemma subscription_call_extends:
  assumes "broker_inv b" and "known_subscription b s"
  shows "extends b (snd (subscription_call env s r b))"
  using assms refl
proof (cases rule: subscription_call_result [of b s "snd (subscription_call env s r b)" env r])
  case same
  then show ?thesis by (intro extends_same)
next
  case (handled a)
  have "extends b (set_subscription_actor (sub_internal_id s)
      (snd (receive (actor_env_of env (sub_topic s) b) r a)) b)"
    by (rule extends_quiet [OF handled(1) receive_quiet [OF handled(2)]])
  then show ?thesis by (rule extends_trans_same) (simp_all add: handled)
next
  case (deleted a)
  then show ?thesis by (auto simp: extends_def subscription_delegate_delete_def split: if_splits)
qed

lemma broker_step_extends: "broker_step b b' \<Longrightarrow> broker_inv b \<Longrightarrow> extends b b'"
proof (induction rule: broker_step.induct)
  case (topic_created b info)
  then show ?case
    by (intro extends_same) (auto simp: manager_create_topic_def split: prod.split sum.split)
next
  case (subscription_created b t env info)
  then obtain ta where "topic_actor_of b (topic_internal_id t) = Some ta" by (auto simp: known_topic_def)
  then show ?case
  proof (cases rule: create_subscription_result [of b t ta env info])
    case refused
    then show ?thesis by (simp add: extends_def)
  next
    case (created i s tm)
    have "subscription_actor_of b i = None"
    proof (rule ccontr)
      assume "subscription_actor_of b i \<noteq> None"
      then obtain a where "subscription_actor_of b i = Some a" by blast
      then have "i \<le> sm_next_id (bk_subscriptions b)"
        using subscriptions_okD(4) [of b i a] subscription_created(3)
        by (simp add: broker_inv_def subscription_actor_ok_def)
      then show False using word_next_le subscription_created(1) created(1) by (auto simp: broker_room_def)
    qed
    moreover have "registered_subscription (snd (manager_create_subscription env info t b)) n
        = (if n = si_name info then Some s else registered_subscription b n)" for n
      using created(1-3) by (simp add: created(5) state_create_subscription_def Let_def)
    moreover have "sub_internal_id s = i" by (simp add: created(2) subscription_new_def)
    ultimately show ?thesis unfolding extends_def by (auto simp: created(6))
  qed
next
  case (timer_fired b event at env s b')
  from timer_fired(2,3) show ?case
  proof (cases rule: timer_result)
    case gone
    then show ?thesis by (simp add: extends_def)
  next
    case (handled a a' e)
    note fields = event_fields [OF handled(2,4,5)]
    have "extends b (set_subscription_actor (sub_internal_id s) a' b)"
      by (rule extends_quiet [OF handled(1) handle_event_quiet [OF handled(2,4)]])
    then show ?thesis by (rule extends_trans_same) (simp_all add: fields)
  qed
next
  case (task_run b i t ms ta env)
  let ?b = "b\<lparr>bk_spawned := take i (bk_spawned b) @ drop (Suc i) (bk_spawned b)\<rparr>"
  have "extends ?b (snd (topic_call env t (PublishMessages ms) ?b))"
    by (rule topic_call_extends [where ta = ta]) (use task_run in simp_all)
  then show ?case using task_run by (simp add: run_spawned_def topic_publish_call extends_def)
qed (auto intro: topic_call_extends subscription_call_extends simp: subscription_request_ok_def)

section \<open>Known handles\<close>

lemma registered_known:
  assumes "broker_inv b" and "registered_subscription b n = Some s"
  shows "known_subscription b s"
proof -
  obtain a where "subscription_actor_of b (sub_internal_id s) = Some a" "sub_name s = n"
    by (rule registered_subscription_actor [OF assms])
  then show ?thesis using assms(2) by (auto simp: known_subscription_def)
qed

lemma known_subscription_extends:
  assumes inv: "broker_inv b" and inv': "broker_inv b'" and ext: "extends b b'" and s: "known_subscription b s"
  shows "known_subscription b' s"
proof -
  obtain a where a: "subscription_actor_of b (sub_internal_id s) = Some a"
    "\<not> sa_deleted a \<Longrightarrow> registered_subscription b (sub_name s) = Some s"
    using s by (auto simp: known_subscription_def)
  obtain a' where a': "subscription_actor_of b' (sub_internal_id s) = Some a'" "sa_deleted a \<longrightarrow> sa_deleted a'"
    using ext a(1) unfolding extends_def by blast
  have "registered_subscription b' (sub_name s) = Some s" if live: "\<not> sa_deleted a'"
  proof -
    have old: "registered_subscription b (sub_name s) = Some s" using a(2) a'(2) live by blast
    obtain s' where s': "registered_subscription b' (si_name (sa_info a')) = Some s'"
      "sub_internal_id s' = sub_internal_id s"
      using inv' a'(1) live unfolding broker_inv_def subscriptions_ok_def subscription_actor_ok_def by metis
    have "registered_subscription b (si_name (sa_info a')) = Some s'"
      using ext a(1) s' unfolding extends_def by (metis option.distinct(1))
    moreover from this have "si_name (sa_info a') = sub_name s"
      using inv old s'(2) unfolding broker_inv_def subscriptions_ok_def subscription_registry.registry_inv_def
      by blast
    ultimately show ?thesis using old s'(1) by simp
  qed
  with a'(1) show ?thesis by (auto simp: known_subscription_def)
qed

section \<open>Attached subscriptions\<close>

text \<open>Every subscription attached to a topic actor, also of a deleted topic, is a subscription of that topic
  and a known handle.\<close>

definition attached_known :: "broker \<Rightarrow> bool" where
  "attached_known b \<longleftrightarrow> (\<forall>i ta n s. topic_actor_of b i = Some ta \<longrightarrow> fmlookup (ta_subscriptions ta) n = Some s
     \<longrightarrow> topic_internal_id (sub_topic s) = i \<and> sub_name s = n \<and> known_subscription b s)"

text \<open>An attachment is old or belongs to a subscription that was registered in the step.\<close>

definition attaches :: "broker \<Rightarrow> broker \<Rightarrow> bool" where
  "attaches b b' \<longleftrightarrow> (\<forall>i ta n s. topic_actor_of b' i = Some ta \<longrightarrow> fmlookup (ta_subscriptions ta) n = Some s
     \<longrightarrow> (\<exists>tb. topic_actor_of b i = Some tb \<and> fmlookup (ta_subscriptions tb) n = Some s)
       \<or> topic_internal_id (sub_topic s) = i \<and> sub_name s = n \<and> registered_subscription b' n = Some s)"

lemma attaches_same: "bk_topic_actors b' = bk_topic_actors b \<Longrightarrow> attaches b b'"
  by (simp add: attaches_def)

lemma topic_call_attaches:
  assumes "topic_actor_of b (topic_internal_id t) = Some ta" and "topic_request_ok env r ta"
  shows "attaches b (snd (topic_call env t r b))"
proof (cases "\<exists>ms. r = PublishMessages ms")
  case True
  then obtain ms where ms: "r = PublishMessages ms" by blast
  obtain ta' ts where call: "snd (topic_call env t r b) = fold (\<lambda>s. apply_topic_effect (PostTo s (published_batch env ms ta))) ts
      (set_topic_actor (topic_internal_id t) ta' b)"
    and same: "ta_subscriptions ta' = ta_subscriptions ta"
    unfolding ms by (rule publish_call [OF assms(1) refl, of env ms])
  show ?thesis unfolding call attaches_def using assms(1) same by (auto simp: posts_fields)
next
  case False
  then have "\<exists>ta'. bk_topic_actors (snd (topic_call env t r b))
      = fmupd (topic_internal_id t) ta' (bk_topic_actors b)
      \<and> (ta_subscriptions ta' = ta_subscriptions ta \<or> ta_subscriptions ta' = fmempty)"
    using assms
    by (cases r) (auto simp: topic_call_def topic_delete_def topic_update_info_def topic_emit_def Let_def)
  then show ?thesis using assms(1) by (auto simp: attaches_def split: if_splits)
qed

lemma subscription_call_attaches:
  assumes "broker_inv b" and "known_subscription b s"
  shows "attaches b (snd (subscription_call env s r b))"
  using assms refl
proof (cases rule: subscription_call_result [of b s "snd (subscription_call env s r b)" env r])
  case (deleted a)
  show ?thesis unfolding attaches_def deleted(6)
    by (auto simp: detach_from_topic_fields split: if_splits)
qed (auto intro: attaches_same)

lemma broker_step_attaches: "broker_step b b' \<Longrightarrow> broker_inv b \<Longrightarrow> attaches b b'"
proof (induction rule: broker_step.induct)
  case (topic_created b info)
  then show ?case
    by (auto simp: attaches_def manager_create_topic_def create_topic_def topic_actor_start_def Let_def
        split: if_splits option.splits)
next
  case (subscription_created b t env info)
  then obtain ta where ta: "topic_actor_of b (topic_internal_id t) = Some ta" by (auto simp: known_topic_def)
  then show ?case
  proof (cases rule: create_subscription_result [of b t ta env info])
    case refused
    then show ?thesis by (simp add: attaches_def)
  next
    case (created i s tm)
    have s: "sub_name s = si_name info" "sub_topic s = t" by (simp_all add: created(2) subscription_new_def)
    have "registered_subscription (snd (manager_create_subscription env info t b)) (si_name info) = Some s"
      using created(1-3) by (simp add: created(5) state_create_subscription_def Let_def)
    then show ?thesis
      using ta s by (auto simp: attaches_def created(7) attach_subscription_def split: if_splits)
  qed
next
  case (timer_fired b event at env s b')
  from timer_fired(2,3) show ?case
  proof (cases rule: timer_result)
    case gone
    then show ?thesis by (simp add: attaches_def)
  next
    case (handled a a' e)
    show ?thesis by (rule attaches_same [OF event_fields(3) [OF handled(2,4,5)]])
  qed
next
  case (task_run b i t ms ta env)
  let ?b = "b\<lparr>bk_spawned := take i (bk_spawned b) @ drop (Suc i) (bk_spawned b)\<rparr>"
  have "attaches ?b (snd (topic_call env t (PublishMessages ms) ?b))"
    by (rule topic_call_attaches [where ta = ta]) (use task_run in simp_all)
  then show ?case using task_run by (simp add: run_spawned_def topic_publish_call attaches_def)
qed (auto intro: topic_call_attaches subscription_call_attaches simp: subscription_request_ok_def)

lemma attached_known_step:
  assumes inv: "broker_inv b" and known: "attached_known b" and step: "broker_step b b'"
  shows "attached_known b'"
proof -
  have inv': "broker_inv b'" by (rule broker_step_inv [OF step inv])
  have new: "known_subscription b' s" if "registered_subscription b' n = Some s" for n s
    by (rule registered_known [OF inv' that])
  have old: "known_subscription b' s" if "known_subscription b s" for s
    by (rule known_subscription_extends [OF inv inv' broker_step_extends [OF step inv] that])
  show ?thesis
    unfolding attached_known_def
  proof (intro allI impI)
    fix i ta n s
    assume "topic_actor_of b' i = Some ta" "fmlookup (ta_subscriptions ta) n = Some s"
    with broker_step_attaches [OF step inv] consider
      tb where "topic_actor_of b i = Some tb" "fmlookup (ta_subscriptions tb) n = Some s"
      | "topic_internal_id (sub_topic s) = i" "sub_name s = n" "registered_subscription b' n = Some s"
      unfolding attaches_def by blast
    then show "topic_internal_id (sub_topic s) = i \<and> sub_name s = n \<and> known_subscription b' s"
      using known new old unfolding attached_known_def by cases blast+
  qed
qed

lemma broker_reachable_attached: "broker_reachable b \<Longrightarrow> attached_known b"
proof (induction rule: broker_reachable.induct)
  case new
  show ?case by (simp add: attached_known_def broker_new_def)
next
  case (step b b')
  then show ?case using attached_known_step broker_reachable_inv by blast
qed

end
