(* ===== verification/Broker_Sample.thy ===== *)
theory Broker_Sample
  imports Broker_Invariant Actor_Properties
begin

text \<open>
  A run of the broker for the witnesses: a topic is created, a subscription with a push configuration is
  created on it, two messages are published, and the first one is pulled.
\<close>

definition run_topic_name :: topic_name where
  "run_topic_name = topic_name_new ''project'' ''topic''"

definition run_topic :: topic where
  "run_topic = \<lparr>topic_handle_name = run_topic_name, topic_internal_id = 2\<rparr>"

definition run_push_config :: push_config where
  "run_push_config = \<lparr>pc_endpoint = ''http://localhost/push'', pc_oidc_token = None, pc_attributes = None\<rparr>"

definition run_info :: subscription_info where
  "run_info = (subscription_info_new_with_defaults (subscription_name_new ''project'' ''sub''))
     \<lparr>si_push_config := Some run_push_config\<rparr>"

definition run_subscription :: subscription where
  "run_subscription =
     \<lparr>sub_name = subscription_name_new ''project'' ''sub'', sub_topic = run_topic, sub_internal_id = 2\<rparr>"

definition run_env :: broker_env where
  "run_env =
     \<lparr>be_now = 0, be_wall = 0, be_topic_order = [run_topic], be_subscription_order = [run_subscription],
      be_loop_ended = (\<lambda>_. False), be_posted_before_abort = (\<lambda>_. False),
      be_drained_outstanding = [], be_drained_retry = []\<rparr>"

definition run_messages :: "topic_message list" where
  "run_messages = [topic_message_new 0 [1] None, topic_message_new 0 [2] None]"

definition run_1 :: broker where
  "run_1 = snd (manager_create_topic (topic_info_new run_topic_name) broker_new)"

definition run_2 :: broker where
  "run_2 = snd (manager_create_subscription run_env run_info run_topic run_1)"

definition run_3 :: broker where
  "run_3 = snd (topic_call run_env run_topic (PublishMessages run_messages) run_2)"

definition run_4 :: broker where
  "run_4 = snd (subscription_call run_env run_subscription (PullMessages 1 0) run_3)"

lemma broker_room_code [code]:
  "broker_room b \<longleftrightarrow> fmpred (\<lambda>_ a. counters_have_room a) (bk_subscription_actors b)
     \<and> unat (tm_next_id (bk_topics b)) + 1 < 2 ^ 32 \<and> unat (sm_next_id (bk_subscriptions b)) + 1 < 2 ^ 32"
  by (auto simp: broker_room_def fmpred_iff)

lemma run_rooms: "broker_room broker_new" "broker_room run_1" "broker_room run_2" "broker_room run_3"
  "broker_room run_4"
  by code_simp+

lemma run_actors:
  "map_option (\<lambda>ta. ti_name (ta_info ta)) (topic_actor_of run_1 2) = Some run_topic_name"
  "map_option ta_subscriptions (topic_actor_of run_2 2)
     = Some (fmupd (sub_name run_subscription) run_subscription fmempty)"
  "map_option ta_next_message_id (topic_actor_of run_2 2) = Some 0"
  "map_option sa_deleted (subscription_actor_of run_3 2) = Some False"
  "registered_subscription run_3 (sub_name run_subscription) = Some run_subscription"
  by code_simp+

lemma run_request: "\<exists>ta. topic_actor_of run_2 (topic_internal_id run_topic) = Some ta
    \<and> topic_request_ok run_env (PublishMessages run_messages) ta"
  using run_actors(2,3)
  by (auto simp: run_topic_def enumerates_def run_env_def run_messages_def fmvals_fresh)

lemma run_steps: "broker_step broker_new run_1" "broker_step run_1 run_2" "broker_step run_2 run_3"
  "broker_step run_3 run_4"
proof -
  show "broker_step broker_new run_1"
    unfolding run_1_def by (rule broker_step.topic_created [OF run_rooms(1)])
  have "known_topic run_1 run_topic"
    using run_actors(1) by (auto simp: known_topic_def run_topic_def)
  then show "broker_step run_1 run_2"
    unfolding run_2_def by (rule broker_step.subscription_created [OF run_rooms(2)])
  from run_request show "broker_step run_2 run_3"
    unfolding run_3_def using broker_step.topic_called [OF run_rooms(3)] by blast
  have "subscription_request_ok run_env run_subscription (PullMessages 1 0) run_3"
    using run_actors(4,5) by (auto simp: subscription_request_ok_def known_subscription_def run_subscription_def)
  then show "broker_step run_3 run_4"
    unfolding run_4_def by (rule broker_step.subscription_called [OF run_rooms(4)])
qed

lemma run_reachable_states:
  "broker_reachable run_1" "broker_reachable run_2" "broker_reachable run_3" "broker_reachable run_4"
  using run_steps broker_reachable.new broker_reachable.step by blast+

end
