(* ===== verification/Broker_Refinement.thy ===== *)
theory Broker_Refinement
  imports Simulation Broker_Handles Actor_Lifecycle Broker_Sample
begin

text \<open>
  The specification of the broker as one state: the topics that exist, and for each subscription its topic,
  its filter and the bag of messages that it still has to deliver, and for each topic that ever existed the
  number of its last message. The actors, their mailboxes, timers,
  queues and registries refine it: every step of the broker is a step of the specification.
\<close>

section \<open>The specification\<close>

record bag =
  bag_topic :: topic
  bag_filter :: "filter_expr option"
  bag_messages :: "topic_message multiset"

record pubsub =
  ps_topics :: "topic_name \<Rightarrow> topic option"
  ps_subscriptions :: "subscription_name \<Rightarrow> bag option"
  ps_issued :: "u32 \<Rightarrow> u32 option"

definition accepts :: "filter_expr option \<Rightarrow> topic_message \<Rightarrow> bool" where
  "accepts f m = (case f of None \<Rightarrow> True | Some e \<Rightarrow> matches e (tm_attributes m))"

text \<open>The messages \<open>ms\<close>, published to \<open>t\<close>, reach the bags of its subscriptions, as far as these are in \<open>R\<close>.\<close>

definition bag_add :: "topic_message list \<Rightarrow> bag \<Rightarrow> bag" where
  "bag_add ms g = g\<lparr>bag_messages := bag_messages g + filter_mset (accepts (bag_filter g)) (mset ms)\<rparr>"

definition distribute :: "topic \<Rightarrow> topic_message list \<Rightarrow> subscription_name set \<Rightarrow> pubsub \<Rightarrow> pubsub" where
  "distribute t ms R p = p\<lparr>ps_subscriptions := \<lambda>n. map_option
     (\<lambda>g. if bag_topic g = t \<and> n \<in> R then bag_add ms g else g) (ps_subscriptions p n),
     ps_issued := (ps_issued p)(topic_internal_id t :=
       map_option (\<lambda>k. k + of_nat (length ms)) (ps_issued p (topic_internal_id t)))\<rparr>"

text \<open>The steps: a call that only reads, the creation and deletion of topics and subscriptions, a publish,
  which numbers the messages on and reaches every subscription of a topic that exists, and the loss of messages from one bag
  (acknowledged, expired, dead-lettered or dropped by a seek or a detachment). A publish through a handle of
  a deleted topic can reach some of the subscriptions that still refer to it.\<close>

inductive pubsub_step :: "pubsub \<Rightarrow> pubsub \<Rightarrow> bool" where
  skip: "pubsub_step p p"
| create_topic: "ps_topics p (topic_handle_name t) = None \<Longrightarrow> ps_issued p (topic_internal_id t) = None \<Longrightarrow>
    pubsub_step p (p\<lparr>ps_topics := (ps_topics p)(topic_handle_name t := Some t),
      ps_issued := (ps_issued p)(topic_internal_id t := Some 0)\<rparr>)"
| delete_topic: "ps_topics p n = Some t \<Longrightarrow> pubsub_step p (p\<lparr>ps_topics := (ps_topics p)(n := None)\<rparr>)"
| create_subscription: "ps_subscriptions p n = None \<Longrightarrow> bag_messages g = {#} \<Longrightarrow>
    ps_issued p (topic_internal_id (bag_topic g)) \<noteq> None \<Longrightarrow>
    pubsub_step p (p\<lparr>ps_subscriptions := (ps_subscriptions p)(n := Some g)\<rparr>)"
| delete_subscription: "ps_subscriptions p n = Some g \<Longrightarrow>
    pubsub_step p (p\<lparr>ps_subscriptions := (ps_subscriptions p)(n := None)\<rparr>)"
| publish: "ps_issued p (topic_internal_id t) = Some k \<Longrightarrow> unat k + length ms < 2 ^ 32 \<Longrightarrow>
    map tm_id ms = ids_after (topic_internal_id t) k (length ms) \<Longrightarrow>
    (ps_topics p (topic_handle_name t) = Some t \<Longrightarrow> R = UNIV) \<Longrightarrow>
    pubsub_step p (distribute t ms R p)"
| consume: "ps_subscriptions p n = Some g \<Longrightarrow> M \<subseteq># bag_messages g \<Longrightarrow>
    pubsub_step p (p\<lparr>ps_subscriptions := (ps_subscriptions p)(n := Some (g\<lparr>bag_messages := M\<rparr>))\<rparr>)"

section \<open>The abstraction\<close>

definition bag_of :: "subscription \<Rightarrow> subscription_actor \<Rightarrow> bag" where
  "bag_of s a = \<lparr>bag_topic = sub_topic s, bag_filter = sa_compiled_filter a, bag_messages = stored a\<rparr>"

definition pubsub_of :: "broker \<Rightarrow> pubsub" where
  "pubsub_of b = \<lparr>ps_topics = registered_topic b,
     ps_subscriptions = (\<lambda>n. case registered_subscription b n of None \<Rightarrow> None
       | Some s \<Rightarrow> map_option (bag_of s) (subscription_actor_of b (sub_internal_id s))),
     ps_issued = (\<lambda>i. map_option ta_next_message_id (topic_actor_of b i))\<rparr>"

lemma pubsub_of_cong:
  "bk_topic_actors c = bk_topic_actors b \<Longrightarrow> bk_topics c = bk_topics b \<Longrightarrow> bk_subscriptions c = bk_subscriptions b \<Longrightarrow>
   bk_subscription_actors c = bk_subscription_actors b \<Longrightarrow> pubsub_of c = pubsub_of b"
  by (simp add: pubsub_of_def cong: option.case_cong)

lemma pubsub_of_topics [simp]: "ps_topics (pubsub_of b) = registered_topic b"
  by (simp add: pubsub_of_def)

lemma pubsub_of_issued [simp]: "ps_issued (pubsub_of b) i = map_option ta_next_message_id (topic_actor_of b i)"
  by (simp add: pubsub_of_def)

lemma pubsub_of_registered:
  "registered_subscription b n = Some s \<Longrightarrow> subscription_actor_of b (sub_internal_id s) = Some a
   \<Longrightarrow> ps_subscriptions (pubsub_of b) n = Some (bag_of s a)"
  by (simp add: pubsub_of_def)

lemma accepts_actor: "accepts (sa_compiled_filter a) = filter_accepts a"
  by (simp add: fun_eq_iff accepts_def filter_accepts_def)

text \<open>Registered subscriptions with one actor are the same.\<close>

lemma registered_same_id:
  assumes "broker_inv b" and "registered_subscription b n = Some s" "registered_subscription b m = Some x"
    and "sub_internal_id x = sub_internal_id s"
  shows "m = n \<and> x = s"
proof -
  obtain a where "subscription_actor_of b (sub_internal_id s) = Some a" "si_name (sa_info a) = n"
    by (rule registered_subscription_actor [OF assms(1,2)])
  moreover obtain c where "subscription_actor_of b (sub_internal_id x) = Some c" "si_name (sa_info c) = m"
    by (rule registered_subscription_actor [OF assms(1,3)])
  ultimately show ?thesis using assms(2-4) by auto
qed

text \<open>An actor that changes quietly and stores no new message.\<close>

lemma quiet_consumes:
  assumes inv: "broker_inv b" and a: "subscription_actor_of b i = Some a" and quiet: "quiet a a'"
    and stored: "\<not> sa_deleted a \<Longrightarrow> stored a' \<subseteq># stored a"
    and c: "bk_topics c = bk_topics b" "bk_topic_actors c = bk_topic_actors b"
      "bk_subscriptions c = bk_subscriptions b"
      "bk_subscription_actors c = fmupd i a' (bk_subscription_actors b)"
  shows "pubsub_step (pubsub_of b) (pubsub_of c)"
proof (cases "\<exists>n s. registered_subscription b n = Some s \<and> sub_internal_id s = i")
  case True
  then obtain n s where s: "registered_subscription b n = Some s" "sub_internal_id s = i" by blast
  have live: "\<not> sa_deleted a" using registered_subscription_actor [OF inv s(1)] s(2) a by (metis option.inject)
  have only: "sub_internal_id x \<noteq> i" if "registered_subscription b m = Some x" "m \<noteq> n" for m x
    using registered_same_id [OF inv s(1) that(1)] s(2) that(2) by auto
  have "bag_of s a' = (bag_of s a)\<lparr>bag_messages := stored a'\<rparr>" using quiet by (simp add: bag_of_def quiet_def)
  then have "pubsub_of c = (pubsub_of b)\<lparr>ps_subscriptions :=
      (ps_subscriptions (pubsub_of b))(n := Some ((bag_of s a)\<lparr>bag_messages := stored a'\<rparr>))\<rparr>"
    using s a by (auto simp: pubsub_of_def c fun_eq_iff split: option.split dest: only)
  moreover have "ps_subscriptions (pubsub_of b) n = Some (bag_of s a)"
    using s a by (simp add: pubsub_of_def)
  moreover have "stored a' \<subseteq># bag_messages (bag_of s a)" using stored [OF live] by (simp add: bag_of_def)
  ultimately show ?thesis using pubsub_step.consume by metis
next
  case False
  then have "pubsub_of c = pubsub_of b" by (auto simp: pubsub_of_def c fun_eq_iff split: option.split)
  then show ?thesis by (simp add: pubsub_step.skip)
qed

lemma live_actor_inv:
  assumes "broker_inv b" and "subscription_actor_of b i = Some a" and "\<not> sa_deleted a"
  shows "actor_inv {#} a"
  using assms reachable_inv unfolding broker_inv_def subscriptions_ok_def subscription_actor_ok_def by blast

lemma event_consumes:
  assumes inv: "broker_inv b" and room: "broker_room b" and a: "subscription_actor_of b i = Some a"
    and event: "handle_event e a = Some a'" "event_ok e a" "\<And>env. e \<noteq> Request env Delete"
      "posted e = []"
    and c: "bk_topics c = bk_topics b" "bk_topic_actors c = bk_topic_actors b"
      "bk_subscriptions c = bk_subscriptions b"
      "bk_subscription_actors c = fmupd i a' (bk_subscription_actors b)"
  shows "pubsub_step (pubsub_of b) (pubsub_of c)"
proof (rule quiet_consumes [OF inv a handle_event_quiet [OF event(1,3)] _ c])
  assume "\<not> sa_deleted a"
  then have "actor_inv {#} a" by (rule live_actor_inv [OF inv a])
  moreover have "counters_have_room a" using room a by (auto simp: broker_room_def)
  ultimately show "stored a' \<subseteq># stored a" using event_stored [OF _ _ event(2,1)] event(4) by simp
qed

section \<open>Publishing\<close>

lemma post_stored:
  assumes "actor_inv {#} a" and "\<not> sa_deleted a"
  shows "stored (actor_post_messages ms a) = stored a + filter_mset (filter_accepts a) (mset ms)"
proof -
  obtain had a' where loop: "post_loop ms False a = (had, a')" by fastforce
  have "stored a' = stored a + mset (filter (filter_accepts a) ms)"
    using post_loop_inv [OF assms(1) loop] by blast
  then show ?thesis using assms(2) loop by (simp add: actor_post_messages_def)
qed

lemma bag_of_post:
  assumes "actor_inv {#} a" and "\<not> sa_deleted a"
  shows "bag_of s (actor_post_messages ms a) = bag_add ms (bag_of s a)"
  using post_stored [OF assms] quiet_post [of a ms]
  by (simp add: bag_of_def bag_add_def accepts_actor quiet_def)

text \<open>A live subscription is attached to one topic at most, and once.\<close>

lemma attached_registered:
  assumes known: "attached_known b" and ta: "topic_actor_of b i = Some ta"
    and order: "enumerates order (ta_subscriptions ta)" and x: "x \<in> set order"
    and live: "subscription_actor_of b (sub_internal_id x) = Some a" "\<not> sa_deleted a"
  shows "registered_subscription b (sub_name x) = Some x" "topic_internal_id (sub_topic x) = i"
    "fmlookup (ta_subscriptions ta) (sub_name x) = Some x"
proof -
  obtain n where n: "fmlookup (ta_subscriptions ta) n = Some x" using enumerates_set [OF order] x by blast
  then have "topic_internal_id (sub_topic x) = i" "sub_name x = n" "known_subscription b x"
    using known ta unfolding attached_known_def by blast+
  then show "registered_subscription b (sub_name x) = Some x" "topic_internal_id (sub_topic x) = i"
    "fmlookup (ta_subscriptions ta) (sub_name x) = Some x"
    using live n by (auto simp: known_subscription_def)
qed

lemma count_enumerated:
  assumes "enumerates order m" and "fmlookup m n = Some s"
    and only: "\<And>k x. fmlookup m k = Some x \<Longrightarrow> f x = f s \<Longrightarrow> k = n"
  shows "count_list (map f order) (f s) = 1"
proof -
  have "count_list (map f order) (f s) = count (image_mset f (fmvals m)) (f s)"
    using assms(1) by (simp add: enumerates_def flip: count_mset)
  also have "\<dots> = 1 + count (image_mset f (fmvals (fmdrop n m))) (f s)"
    using fmvals_lookup [OF assms(2)] by simp
  also have "count (image_mset f (fmvals (fmdrop n m))) (f s) = 0"
  proof -
    have "f x \<noteq> f s" if "x \<in># fmvals (fmdrop n m)" for x
      using that only by (auto simp: in_fmvals_iff split: if_splits)
    then show ?thesis by (simp add: count_eq_zero_iff image_iff) metis
  qed
  finally show ?thesis by simp
qed

text \<open>The handle of a topic actor; a topic that exists posts to open subscriptions only.\<close>

abbreviation actor_topic :: "u32 \<Rightarrow> topic_actor \<Rightarrow> topic" where
  "actor_topic i ta \<equiv> \<lparr>topic_handle_name = ti_name (ta_info ta), topic_internal_id = i\<rparr>"

lemma live_topic_attached:
  assumes "broker_inv b" and "topic_actor_of b i = Some ta"
    and "registered_topic b (ti_name (ta_info ta)) = Some (actor_topic i ta)"
  shows "fmlookup (ta_subscriptions ta) m = Some x
    \<longleftrightarrow> registered_subscription b m = Some x \<and> sub_topic x = actor_topic i ta"
  using assms unfolding broker_inv_def attached_ok_def by (metis topic.select_convs(2))

lemma live_topic_open:
  assumes inv: "broker_inv b" and ta: "topic_actor_of b i = Some ta"
    and live: "registered_topic b (ti_name (ta_info ta)) = Some (actor_topic i ta)"
    and order: "enumerates order (ta_subscriptions ta)"
  shows "list_all (subscription_open env b) order"
proof -
  have "subscription_open env b s" if "fmlookup (ta_subscriptions ta) n = Some s" for n s
  proof -
    have "registered_subscription b n = Some s" using live_topic_attached [OF inv ta live] that by blast
    then obtain a where "subscription_actor_of b (sub_internal_id s) = Some a" "\<not> stopped a"
      by (rule registered_subscription_actor [OF inv])
    then show ?thesis by (simp add: subscription_open_def)
  qed
  then show ?thesis using enumerates_set [OF order] by (auto simp: list_all_iff)
qed

lemma attached_topic:
  assumes inv: "broker_inv b" and known: "attached_known b" and ta: "topic_actor_of b i = Some ta"
    and order: "enumerates order (ta_subscriptions ta)" and s: "registered_subscription b n = Some s" "s \<in> set order"
  shows "sub_topic s = actor_topic i ta"
proof -
  obtain a where "subscription_actor_of b (sub_internal_id s) = Some a" "\<not> sa_deleted a"
    by (rule registered_subscription_actor [OF inv s(1)])
  then have "topic_internal_id (sub_topic s) = i" by (rule attached_registered(2) [OF known ta order s(2)])
  moreover have "known_topic b (sub_topic s)" using inv s by (auto simp: broker_inv_def subscriptions_ok_def)
  ultimately show ?thesis using ta by (auto simp: known_topic_def)
qed

lemma posted_once:
  assumes inv: "broker_inv b" and known: "attached_known b" and ta: "topic_actor_of b i = Some ta"
    and order: "enumerates order (ta_subscriptions ta)" and s: "registered_subscription b n = Some s"
    and ts: "set ts \<subseteq> set order"
      "\<And>j. count_list (map sub_internal_id ts) j \<le> count_list (map sub_internal_id order) j"
  shows "count_list (map sub_internal_id ts) (sub_internal_id s) = (if s \<in> set ts then 1 else 0)"
proof -
  obtain a where a: "subscription_actor_of b (sub_internal_id s) = Some a" "\<not> sa_deleted a" "sub_name s = n"
    by (rule registered_subscription_actor [OF inv s])
  have same: "x = s" if "x \<in> set order" "sub_internal_id x = sub_internal_id s" for x
    using attached_registered(1) [OF known ta order that(1), of a] registered_same_id [OF inv s] that(2) a by metis
  show ?thesis
  proof (cases "s \<in> set ts")
    case False
    then show ?thesis using same ts(1) by (auto simp: count_list_0_iff)
  next
    case True
    then have "fmlookup (ta_subscriptions ta) n = Some s"
      using attached_registered(3) [OF known ta order] a ts(1) by blast
    moreover have "k = n"
      if "fmlookup (ta_subscriptions ta) k = Some x" "sub_internal_id x = sub_internal_id s" for k x
      using same that enumerates_set [OF order] known ta a(3) unfolding attached_known_def by blast
    ultimately have "count_list (map sub_internal_id order) (sub_internal_id s) = 1"
      by (intro count_enumerated [OF order])
    moreover have "count_list (map sub_internal_id ts) (sub_internal_id s) \<noteq> 0"
      using True by (simp add: count_list_0_iff)
    ultimately show ?thesis using ts(2) [of "sub_internal_id s"] True by simp
  qed
qed

lemma publish_distributes:
  assumes inv: "broker_inv b" and known: "attached_known b"
    and ta: "topic_actor_of b (topic_internal_id t) = Some ta" and ok: "topic_request_ok env (PublishMessages ms) ta"
    and batch: "batch = published_batch env ms ta" and u: "u = actor_topic (topic_internal_id t) ta"
  obtains R where
    "pubsub_of (snd (topic_call env t (PublishMessages ms) b)) = distribute u batch R (pubsub_of b)"
    "registered_topic b (topic_handle_name u) = Some u \<Longrightarrow> R = UNIV
       \<and> fst (topic_call env t (PublishMessages ms) b) = Some (PublishResponse (Inr (map tm_id batch)))"
proof -
  let ?order = "be_subscription_order env" and ?c = "snd (topic_call env t (PublishMessages ms) b)"
  have order: "enumerates ?order (ta_subscriptions ta)" using ok by simp
  obtain ta' ts where call: "?c = fold (\<lambda>s. apply_topic_effect (PostTo s batch)) ts
        (set_topic_actor (topic_internal_id t) ta' b)"
      "ta_next_message_id ta' = ta_next_message_id ta + of_nat (length ms)" "set ts \<subseteq> set ?order"
      "\<And>i. count_list (map sub_internal_id ts) i \<le> count_list (map sub_internal_id ?order) i"
      "list_all (subscription_open env b) ?order \<Longrightarrow> ts = ?order
         \<and> fst (topic_call env t (PublishMessages ms) b) = Some (PublishResponse (Inr (map tm_id batch)))"
    by (rule publish_call [OF ta batch]) blast
  have length: "length batch = length ms"
    using published_batch_ids [of env ms ta] unfolding batch by (metis ids_after_length length_map)
  define live where "live \<longleftrightarrow> registered_topic b (topic_handle_name u) = Some u"
  define R where "R = (if live then UNIV else {n. \<exists>s \<in> set ts. registered_subscription b n = Some s})"
  have all: "ts = ?order
      \<and> fst (topic_call env t (PublishMessages ms) b) = Some (PublishResponse (Inr (map tm_id batch)))" if live
    by (rule call(5) [OF live_topic_open [OF inv ta _ order]]) (use that in \<open>simp add: live_def u\<close>)
  have target: "(s \<in> set ts) \<longleftrightarrow> sub_topic s = u \<and> n \<in> R"
    if s: "registered_subscription b n = Some s" for n s
  proof -
    have "sub_topic s = u" if "s \<in> set ts"
      unfolding u using attached_topic [OF inv known ta order s] call(3) that by blast
    moreover have "s \<in> set ts" if "sub_topic s = u" live
      using all [OF that(2)] enumerates_set [OF order] live_topic_attached [OF inv ta, of n s] that s
      by (auto simp: live_def u)
    moreover have "n \<in> R \<longleftrightarrow> live \<or> s \<in> set ts" using s by (simp add: R_def)
    ultimately show ?thesis by blast
  qed
  have "ps_subscriptions (pubsub_of ?c) n = ps_subscriptions (distribute u batch R (pubsub_of b)) n" for n
  proof (cases "registered_subscription b n")
    case None
    then show ?thesis by (simp add: pubsub_of_def distribute_def call(1) posts_fields)
  next
    case (Some s)
    obtain a where a: "subscription_actor_of b (sub_internal_id s) = Some a" "\<not> sa_deleted a"
      by (rule registered_subscription_actor [OF inv Some])
    have "bag_topic (bag_of s a) = sub_topic s" by (simp add: bag_of_def)
    then show ?thesis
      using a target [OF Some] Some bag_of_post [OF live_actor_inv [OF inv a] a(2)]
        posted_once [OF inv known ta order Some call(3,4)]
      by (simp add: pubsub_of_def distribute_def call(1) posts_fields)
  qed
  then have "pubsub_of ?c = distribute u batch R (pubsub_of b)"
    using ta by (intro pubsub.equality) (auto simp: fun_eq_iff distribute_def call(1) posts_fields call(2) length u)
  then show thesis using all by (intro that [of R]) (simp_all add: live_def R_def)
qed

section \<open>The other calls\<close>

lemma topic_call_refines:
  assumes inv: "broker_inv b" and known: "attached_known b"
    and ta: "topic_actor_of b (topic_internal_id t) = Some ta" and ok: "topic_request_ok env r ta"
  shows "pubsub_step (pubsub_of b) (pubsub_of (snd (topic_call env t r b)))"
proof (cases r)
  case (PublishMessages ms)
  let ?batch = "published_batch env ms ta"
  obtain R where R: "pubsub_of (snd (topic_call env t r b))
      = distribute (actor_topic (topic_internal_id t) ta) ?batch R (pubsub_of b)"
    "registered_topic b (ti_name (ta_info ta)) = Some (actor_topic (topic_internal_id t) ta) \<Longrightarrow> R = UNIV"
    using publish_distributes [OF inv known ta _ refl refl] ok PublishMessages by (metis topic.select_convs(1))
  have id: "ta_topic_internal_id ta = topic_internal_id t"
    using inv ta by (auto simp: broker_inv_def topics_ok_def retained_ids_ok_def)
  have ids: "map tm_id ?batch = ids_after (topic_internal_id t) (ta_next_message_id ta) (length ms)"
    unfolding published_batch_ids id ..
  then have "length ?batch = length ms" by (metis ids_after_length length_map)
  then show ?thesis
    unfolding R(1) using ta ok PublishMessages ids R(2)
    by (intro pubsub_step.publish [where k = "ta_next_message_id ta"]) simp_all
next
  case DeleteTopic
  show ?thesis
  proof (cases "ta_deleted ta")
    case True
    then have "pubsub_of (snd (topic_call env t r b)) = pubsub_of b"
      using DeleteTopic ta by (intro pubsub_of_cong) (simp_all add: topic_call_def topic_delete_def fmupd_lookup_idle)
    then show ?thesis by (simp add: pubsub_step.skip)
  next
    case False
    let ?n = "ti_name (ta_info ta)"
    have "registered_topic b ?n \<noteq> None" using inv ta False by (auto simp: broker_inv_def topics_ok_def)
    moreover have "pubsub_of (snd (topic_call env t r b))
        = (pubsub_of b)\<lparr>ps_topics := (ps_topics (pubsub_of b))(?n := None)\<rparr>"
      using DeleteTopic ta False
      by (auto simp: topic_call_def topic_delete_def topic_emit_def pubsub_of_def topic_delegate_delete_def
          fun_eq_iff split: option.split)
    ultimately show ?thesis using pubsub_step.delete_topic [of "pubsub_of b" ?n] by auto
  qed
next
  case (UpdateTopicInfo u)
  then have "pubsub_of (snd (topic_call env t r b)) = pubsub_of b"
    using ta by (auto simp: topic_call_def topic_update_info_def Let_def pubsub_of_def fun_eq_iff split: option.split)
  then show ?thesis by (simp add: pubsub_step.skip)
qed (use ta ok in \<open>simp_all add: topic_call_def fmupd_lookup_idle set_topic_actor_def pubsub_step.skip\<close>)

lemma create_topic_refines:
  assumes inv: "broker_inv b" and room: "broker_room b"
  shows "pubsub_step (pubsub_of b) (pubsub_of (snd (manager_create_topic info b)))"
proof (cases "registered_topic b (ti_name info)")
  case (Some t)
  then have "snd (manager_create_topic info b) = b" by (simp add: manager_create_topic_def create_topic_def)
  then show ?thesis by (simp add: pubsub_step.skip)
next
  case None
  let ?i = "tm_next_id (bk_topics b) + 1"
  let ?t = "\<lparr>topic_handle_name = ti_name info, topic_internal_id = ?i\<rparr>"
  have "pubsub_of (snd (manager_create_topic info b))
      = (pubsub_of b)\<lparr>ps_topics := (ps_topics (pubsub_of b))(topic_handle_name ?t := Some ?t),
        ps_issued := (ps_issued (pubsub_of b))(topic_internal_id ?t := Some 0)\<rparr>"
    using None by (auto simp: manager_create_topic_def create_topic_def topic_new_def pubsub_of_def Let_def
        topic_actor_start_def fun_eq_iff split: option.split)
  moreover have "topic_actor_of b ?i = None"
  proof (rule ccontr)
    assume "topic_actor_of b ?i \<noteq> None"
    then have "?i \<le> tm_next_id (bk_topics b)" using inv unfolding broker_inv_def topics_ok_def by blast
    then show False using room word_next_le by (simp add: broker_room_def)
  qed
  ultimately show ?thesis using None pubsub_step.create_topic [of "pubsub_of b" ?t] by simp
qed

lemma create_subscription_refines:
  assumes inv: "broker_inv b" and room: "broker_room b" and t: "known_topic b t"
  shows "pubsub_step (pubsub_of b) (pubsub_of (snd (manager_create_subscription env info t b)))"
proof -
  obtain ta where ta: "topic_actor_of b (topic_internal_id t) = Some ta" using t by (auto simp: known_topic_def)
  then show ?thesis
  proof (cases rule: create_subscription_result [of b t ta env info])
    case refused
    then show ?thesis by (simp add: pubsub_step.skip)
  next
    case (created i s tm)
    let ?n = "si_name info" and ?c = "snd (manager_create_subscription env info t b)"
    let ?g = "bag_of s (actor_start i info tm)"
    have s: "sub_internal_id s = i" by (simp add: created(2) subscription_new_def)
    have reg: "registered_subscription ?c m = (if m = ?n then Some s else registered_subscription b m)" for m
      using created(1-3) by (simp add: created(5) state_create_subscription_def Let_def)
    have "i \<noteq> sub_internal_id x" if x: "registered_subscription b m = Some x" for m x
    proof -
      obtain a where "subscription_actor_of b (sub_internal_id x) = Some a"
        by (rule registered_subscription_actor [OF inv x])
      then have "sub_internal_id x \<le> sm_next_id (bk_subscriptions b)"
        using inv unfolding broker_inv_def subscriptions_ok_def subscription_actor_ok_def by blast
      moreover have "\<not> i \<le> sm_next_id (bk_subscriptions b)"
        using room word_next_le created(1) by (simp add: broker_room_def)
      ultimately show ?thesis by auto
    qed
    then have "pubsub_of ?c
        = (pubsub_of b)\<lparr>ps_subscriptions := (ps_subscriptions (pubsub_of b))(?n := Some ?g)\<rparr>"
      using s ta by (auto simp: pubsub_of_def reg created(4,6,7) attach_subscription_def fun_eq_iff split: option.split)
    moreover have "ps_subscriptions (pubsub_of b) ?n = None" using created(3) by (simp add: pubsub_of_def)
    moreover have "bag_messages ?g = {#}"
      by (simp add: bag_of_def)
    moreover have "ps_issued (pubsub_of b) (topic_internal_id (bag_topic ?g)) \<noteq> None"
      using ta by (simp add: bag_of_def created(2) subscription_new_def)
    ultimately show ?thesis using pubsub_step.create_subscription by metis
  qed
qed

lemma subscription_call_refines:
  assumes inv: "broker_inv b" and room: "broker_room b" and ok: "subscription_request_ok env s r b"
  shows "pubsub_step (pubsub_of b) (pubsub_of (snd (subscription_call env s r b)))"
proof -
  let ?c = "snd (subscription_call env s r b)" and ?env = "actor_env_of env (sub_topic s) b"
  have known: "known_subscription b s" using ok by (simp add: subscription_request_ok_def)
  from inv known refl show ?thesis
  proof (cases rule: subscription_call_result [of b s ?c env r])
    case same
    then show ?thesis using pubsub_of_cong by (metis pubsub_step.skip)
  next
    case (handled a)
    have "event_ok (Request ?env r) a" "posted (Request ?env r) = []"
      using ok handled(1) by (auto simp: subscription_request_ok_def) (cases r; simp)
    then show ?thesis
      using handled(2) by (intro event_consumes [OF inv room handled(1) _ _ _ _ handled(3-6)]) auto
  next
    case (deleted a)
    have only: "sub_internal_id x \<noteq> sub_internal_id s" if "registered_subscription b m = Some x" "m \<noteq> sub_name s" for m x
      using registered_same_id [OF inv deleted(4) that(1)] that(2) by auto
    have "pubsub_of ?c = (pubsub_of b)\<lparr>ps_subscriptions := (ps_subscriptions (pubsub_of b))(sub_name s := None)\<rparr>"
      by (auto simp: pubsub_of_def deleted(5-8) detach_from_topic_fields subscription_delegate_delete_def fun_eq_iff
          option.map_comp comp_def
          split: option.split dest: only)
    then show ?thesis
      using pubsub_step.delete_subscription pubsub_of_registered [OF deleted(4,1)] by metis
  qed
qed

lemma timer_refines:
  assumes inv: "broker_inv b" and room: "broker_room b"
    and timer: "event = Expiry at \<or> event = RetryDue at" "subscription_timer env s event b = Some b'"
  shows "pubsub_step (pubsub_of b) (pubsub_of b')"
  using timer
proof (cases rule: timer_result)
  case gone
  then show ?thesis by (simp add: pubsub_step.skip)
next
  case (handled a a' e)
  have "posted e = []" using handled(4) by (cases e) auto
  then show ?thesis
    by (intro event_consumes [OF inv room handled(1-3)] event_fields [OF handled(2) _ handled(5)] handled(4))
qed

lemma attached_known_frame [simp]: "attached_known (b\<lparr>bk_spawned := q\<rparr>) = attached_known b"
  by (simp add: attached_known_def known_subscription_def)

lemma broker_step_refines:
  "broker_step b b' \<Longrightarrow> broker_inv b \<Longrightarrow> attached_known b \<Longrightarrow> pubsub_step (pubsub_of b) (pubsub_of b')"
proof (induction rule: broker_step.induct)
  case (task_run b i t ms ta env)
  let ?b = "b\<lparr>bk_spawned := take i (bk_spawned b) @ drop (Suc i) (bk_spawned b)\<rparr>"
  have "pubsub_step (pubsub_of ?b) (pubsub_of (snd (topic_call env t (PublishMessages ms) ?b)))"
    by (rule topic_call_refines [where ta = ta])
      (use task_run in simp_all)
  moreover have "pubsub_of ?b = pubsub_of b" by (rule pubsub_of_cong) simp_all
  ultimately show ?case using task_run by (simp add: run_spawned_def topic_publish_call)
qed (auto intro: create_topic_refines topic_call_refines create_subscription_refines subscription_call_refines
    timer_refines)

interpretation broker_sim: simulation broker_new broker_step broker_reachable pubsub_step pubsub_of
proof
  show "P b" if "broker_reachable b" "P broker_new"
    "\<And>b b'. broker_reachable b \<Longrightarrow> P b \<Longrightarrow> broker_step b b' \<Longrightarrow> P b'" for b and P :: "broker \<Rightarrow> bool"
    using that by (induction rule: broker_reachable.induct) blast+
  show "pubsub_step (pubsub_of b) (pubsub_of b')" if "broker_reachable b" "broker_step b b'" for b b'
    using broker_step_refines [OF that(2) broker_reachable_inv broker_reachable_attached] that(1) by blast
qed

end
