(* ===== verification/Broker_Properties.thy ===== *)
theory Broker_Properties
  imports Broker_Refinement
begin

text \<open>
  What the refinement gives for the broker: an invariant of the specification (every bag holds each message
  once, accepted by its filter and issued by its topic) transfers to the actors, and a publish to a topic
  that exists reaches every subscription of the topic.
\<close>

section \<open>The specification\<close>

definition bag_inv :: "pubsub \<Rightarrow> bag \<Rightarrow> bool" where
  "bag_inv p g \<longleftrightarrow> (\<exists>k. ps_issued p (topic_internal_id (bag_topic g)) = Some k
     \<and> (\<forall>i. count (image_mset tm_id (bag_messages g)) i \<le> 1)
     \<and> (\<forall>m \<in># bag_messages g. accepts (bag_filter g) m
          \<and> (\<exists>l. tm_id m = message_id_new (topic_internal_id (bag_topic g)) l \<and> l \<le> k)))"

definition pubsub_inv :: "pubsub \<Rightarrow> bool" where
  "pubsub_inv p \<longleftrightarrow> (\<forall>n g. ps_subscriptions p n = Some g \<longrightarrow> bag_inv p g)"

lemma bag_invI:
  assumes "ps_issued p (topic_internal_id (bag_topic g)) = Some k"
    and "\<And>i. count (image_mset tm_id (bag_messages g)) i \<le> 1"
    and "\<And>m. m \<in># bag_messages g \<Longrightarrow> accepts (bag_filter g) m"
    and "\<And>m. m \<in># bag_messages g \<Longrightarrow>
      \<exists>l. tm_id m = message_id_new (topic_internal_id (bag_topic g)) l \<and> l \<le> k"
  shows "bag_inv p g"
  unfolding bag_inv_def using assms by blast

lemma bag_invD:
  assumes "bag_inv p g"
  shows "count (image_mset tm_id (bag_messages g)) i \<le> 1"
    and "m \<in># bag_messages g \<Longrightarrow> accepts (bag_filter g) m"
    and "ps_issued p (topic_internal_id (bag_topic g)) \<noteq> None"
    and "ps_issued p (topic_internal_id (bag_topic g)) = Some k \<Longrightarrow> m \<in># bag_messages g \<Longrightarrow>
      \<exists>l. tm_id m = message_id_new (topic_internal_id (bag_topic g)) l \<and> l \<le> k"
  using assms unfolding bag_inv_def by (blast, blast, blast, metis option.inject)

lemma bag_inv_issued:
  "bag_inv p g \<Longrightarrow> ps_issued q (topic_internal_id (bag_topic g)) = ps_issued p (topic_internal_id (bag_topic g))
   \<Longrightarrow> bag_inv q g"
  by (simp add: bag_inv_def)

lemma bag_inv_shrink:
  assumes "bag_inv p g" and "M \<subseteq># bag_messages g"
  shows "bag_inv p (g\<lparr>bag_messages := M\<rparr>)"
proof -
  have "count (image_mset tm_id M) i \<le> count (image_mset tm_id (bag_messages g)) i" for i
    by (rule mset_subset_eq_count [OF image_mset_subseteq_mono [OF assms(2)]])
  moreover obtain k where k: "ps_issued p (topic_internal_id (bag_topic g)) = Some k"
    using bag_invD(3) [OF assms(1)] by blast
  ultimately show ?thesis
    using bag_invD [OF assms(1)] mset_subset_eqD [OF assms(2)]
    by (intro bag_invI [of _ _ k]) (auto intro: le_trans)
qed

text \<open>The messages of a publish have ids that no bag holds yet.\<close>

lemma bag_inv_publish:
  assumes inv: "bag_inv p g" and k: "ps_issued p (topic_internal_id t) = Some k"
    and room: "unat k + length ms < 2 ^ 32"
    and ids: "map tm_id ms = ids_after (topic_internal_id t) k (length ms)"
    and q: "ps_issued q (topic_internal_id t) = Some (k + of_nat (length ms))"
    and topic: "topic_internal_id (bag_topic g) = topic_internal_id t"
  shows "bag_inv q g" "bag_inv q (bag_add ms g)"
proof -
  let ?i = "topic_internal_id t" and ?k' = "k + of_nat (length ms)"
  have next_id: "unat ?k' = unat k + length ms" using room by (simp add: unat_word_ariths unat_of_nat)
  have old: "\<exists>l. tm_id m = message_id_new ?i l \<and> l \<le> k" if "m \<in># bag_messages g" for m
    using bag_invD(4) [OF inv, unfolded topic, OF k that] .
  have new: "\<exists>l. tm_id m = message_id_new ?i l \<and> k < l \<and> l \<le> ?k'" if "m \<in> set ms" for m
    using ids_after_range [OF room] that ids by (metis image_eqI list.set_map)
  have grow: "l \<le> k \<Longrightarrow> l \<le> ?k'" for l using next_id by (simp add: word_le_nat_alt)
  show "bag_inv q g"
  proof (rule bag_invI [where k = ?k'])
    show "\<exists>l. tm_id m = message_id_new (topic_internal_id (bag_topic g)) l \<and> l \<le> ?k'"
      if "m \<in># bag_messages g" for m
      using old [OF that] grow by (auto simp: topic)
  qed (use bag_invD(1,2) [OF inv] q in \<open>simp_all add: topic\<close>)
  let ?new = "filter_mset (accepts (bag_filter g)) (mset ms)"
  have "count (image_mset tm_id (bag_messages g + ?new)) i \<le> 1" for i
  proof -
    have before: "count (image_mset tm_id (bag_messages g)) i \<le> 1" by (rule bag_invD(1) [OF inv])
    have "image_mset tm_id ?new \<subseteq># mset (ids_after ?i k (length ms))"
      unfolding ids [symmetric] mset_map by (intro image_mset_subseteq_mono) simp
    then have fresh: "count (image_mset tm_id ?new) i \<le> 1"
      using ids_after_distinct [OF room, of ?i]
      by (metis distinct_count_atmost_1 le_trans mset_subset_eq_count order_refl zero_le)
    have "count (image_mset tm_id (bag_messages g)) i = 0 \<or> count (image_mset tm_id ?new) i = 0"
    proof (rule ccontr)
      assume "\<not> ?thesis"
      then obtain m x where "m \<in># bag_messages g" "x \<in> set ms" "tm_id m = tm_id x"
        by (auto simp: count_eq_zero_iff)
      with old new show False by (metis leD message_id_new_inj)
    qed
    with before fresh show ?thesis by auto
  qed
  moreover have "bag_messages (bag_add ms g) = bag_messages g + ?new"
    "bag_filter (bag_add ms g) = bag_filter g" "bag_topic (bag_add ms g) = bag_topic g"
    by (simp_all add: bag_add_def)
  ultimately show "bag_inv q (bag_add ms g)"
    using bag_invD(2) [OF inv] q old new grow by (intro bag_invI [where k = ?k']) (auto simp: topic; metis)+
qed

lemma pubsub_step_inv: "pubsub_step p q \<Longrightarrow> pubsub_inv p \<Longrightarrow> pubsub_inv q"
proof (induction rule: pubsub_step.induct)
  case (create_topic p t)
  have "bag_inv (p\<lparr>ps_topics := ts, ps_issued := (ps_issued p)(topic_internal_id t := Some 0)\<rparr>) g"
    if "bag_inv p g" for ts g
    using that create_topic(2) by (intro bag_inv_issued [OF that]) (auto simp: bag_inv_def)
  then show ?case using create_topic(3) by (simp add: pubsub_inv_def)
next
  case (create_subscription p n g)
  then show ?case by (auto simp: pubsub_inv_def bag_inv_def)
next
  case (publish p t k ms R)
  have "bag_inv (distribute t ms R p) g \<and> bag_inv (distribute t ms R p) (bag_add ms g)"
    if "bag_inv p g" "topic_internal_id (bag_topic g) = topic_internal_id t" for g
    using bag_inv_publish [OF that(1) publish(1-3) _ that(2)] publish(1) by (simp add: distribute_def)
  moreover have "bag_inv (distribute t ms R p) g"
    if "bag_inv p g" "topic_internal_id (bag_topic g) \<noteq> topic_internal_id t" for g
    using bag_inv_issued [OF that(1)] that(2) by (simp add: distribute_def)
  moreover have "\<exists>g. ps_subscriptions p n = Some g \<and> (h = g \<or> h = bag_add ms g \<and> bag_topic g = t)"
    if "ps_subscriptions (distribute t ms R p) n = Some h" for n h
    using that by (auto simp: distribute_def)
  ultimately show ?case using publish.prems unfolding pubsub_inv_def by metis
next
  case (consume p n g M)
  then have "bag_inv p (g\<lparr>bag_messages := M\<rparr>)" using bag_inv_shrink by (auto simp: pubsub_inv_def)
  then show ?case using consume.prems by (auto simp: pubsub_inv_def bag_inv_def)
qed (auto simp: pubsub_inv_def bag_inv_def split: if_splits)

definition pubsub_new :: pubsub where
  "pubsub_new = \<lparr>ps_topics = (\<lambda>_. None), ps_subscriptions = (\<lambda>_. None), ps_issued = (\<lambda>_. None)\<rparr>"

lemma pubsub_of_new: "pubsub_of broker_new = pubsub_new"
  by (simp add: pubsub_of_def pubsub_new_def broker_new_def topic_state_new_def subscription_state_new_def
      fun_eq_iff)

lemma broker_reachable_pubsub: "broker_reachable b \<Longrightarrow> pubsub_inv (pubsub_of b)"
proof (erule broker_sim.transfers)
  show "pubsub_inv (pubsub_of broker_new)" by (simp add: pubsub_of_new pubsub_inv_def pubsub_new_def)
qed (rule pubsub_step_inv)

section \<open>The broker\<close>



text \<open>
  C2. Fan-out: publishing to a registered topic always succeeds and returns the ids of the messages in
  their order; the messages keep data, attributes and ordering key, and every subscription registered on
  that topic then stores, beside what it stored, exactly those of them that its filter accepts, each once,
  while every other subscription stores what it did before.
\<close>

theorem publish_fans_out:
  assumes "broker_reachable b" and "registered_topic b (topic_handle_name t) = Some t"
    and "topic_actor_of b (topic_internal_id t) = Some ta" and "topic_request_ok env (PublishMessages ms) ta"
    and "topic_call env t (PublishMessages ms) b = (r, b')"
  shows "\<exists>batch. r = Some (PublishResponse (Inr (map tm_id batch)))
    \<and> map (\<lambda>m. (tm_data m, tm_attributes m, tm_ordering_key m)) batch
        = map (\<lambda>m. (tm_data m, tm_attributes m, tm_ordering_key m)) ms
    \<and> (\<forall>n s a. registered_subscription b n = Some s \<and> subscription_actor_of b (sub_internal_id s) = Some a
         \<longrightarrow> registered_subscription b' n = Some s
           \<and> (\<exists>a'. subscription_actor_of b' (sub_internal_id s) = Some a' \<and> stored a' =
                (if sub_topic s = t then stored a + filter_mset (filter_accepts a) (mset batch)
                 else stored a)))"
proof -
  note inv = broker_reachable_inv [OF assms(1)] and known = broker_reachable_attached [OF assms(1)]
  let ?batch = "published_batch env ms ta"
  have t: "t = actor_topic (topic_internal_id t) ta"
    using registered_topic_handle [OF inv assms(2)] assms(3) by (metis option.inject topic.surjective old.unit.exhaust)
  obtain R where "pubsub_of b' = distribute t ?batch R (pubsub_of b)"
    "R = UNIV \<and> r = Some (PublishResponse (Inr (map tm_id ?batch)))"
    by (rule publish_distributes [OF inv known assms(3,4) refl t]) (simp add: assms(2,5))
  then have abs: "pubsub_of b' = distribute t ?batch UNIV (pubsub_of b)"
    and r: "r = Some (PublishResponse (Inr (map tm_id ?batch)))" by simp_all
  have data: "map (\<lambda>m. (tm_data m, tm_attributes m, tm_ordering_key m)) ?batch
      = map (\<lambda>m. (tm_data m, tm_attributes m, tm_ordering_key m)) ms"
    unfolding published_batch_def stamp_messages_spec fst_conv snd_conv by (rule stamped_data) simp
  have same: "bk_subscriptions b' = bk_subscriptions b"
    by (rule publish_call [OF assms(3) refl, of env ms]) (simp add: assms(5) posts_fields)
  have "registered_subscription b' n = Some s
      \<and> (\<exists>a'. subscription_actor_of b' (sub_internal_id s) = Some a' \<and> stored a' =
           (if sub_topic s = t then stored a + filter_mset (filter_accepts a) (mset ?batch) else stored a))"
    if s: "registered_subscription b n = Some s" "subscription_actor_of b (sub_internal_id s) = Some a" for n s a
  proof -
    have "ps_subscriptions (pubsub_of b') n
        = Some (if sub_topic s = t then bag_add ?batch (bag_of s a) else bag_of s a)"
      using pubsub_of_registered [OF s] unfolding abs by (simp add: distribute_def bag_of_def)
    moreover have "ps_subscriptions (pubsub_of b') n
        = map_option (bag_of s) (subscription_actor_of b' (sub_internal_id s))"
      using s(1) same by (simp add: pubsub_of_def)
    ultimately show ?thesis
      using s(1) same by (auto simp: bag_of_def bag_add_def accepts_actor split: if_splits)
  qed
  then show ?thesis using r data by blast
qed

theorem publish_fans_out_witness:
  "\<exists>batch a a'. fst (topic_call run_env run_topic (PublishMessages run_messages) run_2)
       = Some (PublishResponse (Inr (map tm_id batch)))
     \<and> length batch = 2 \<and> subscription_actor_of run_2 2 = Some a \<and> subscription_actor_of run_3 2 = Some a'
     \<and> stored a' = stored a + filter_mset (filter_accepts a) (mset batch)"
proof -
  obtain ta where ta: "topic_actor_of run_2 (topic_internal_id run_topic) = Some ta"
    "topic_request_ok run_env (PublishMessages run_messages) ta" using run_request by blast
  have topic: "registered_topic run_2 (topic_handle_name run_topic) = Some run_topic" by code_simp
  have s: "registered_subscription run_2 (sub_name run_subscription) = Some run_subscription" by code_simp
  then obtain a where a: "subscription_actor_of run_2 (sub_internal_id run_subscription) = Some a"
    by (rule registered_subscription_actor [OF broker_reachable_inv [OF run_reachable_states(2)]])
  have sample: "sub_topic run_subscription = run_topic" "sub_internal_id run_subscription = 2"
    "length run_messages = 2"
    by (simp_all add: run_subscription_def run_messages_def)
  let ?r = "fst (topic_call run_env run_topic (PublishMessages run_messages) run_2)"
  have call: "topic_call run_env run_topic (PublishMessages run_messages) run_2 = (?r, run_3)"
    by (simp add: run_3_def)
  from publish_fans_out [OF run_reachable_states(2) topic ta call]
  obtain batch where all: "?r = Some (PublishResponse (Inr (map tm_id batch)))
    \<and> map (\<lambda>m. (tm_data m, tm_attributes m, tm_ordering_key m)) batch
       = map (\<lambda>m. (tm_data m, tm_attributes m, tm_ordering_key m)) run_messages
    \<and> (\<forall>n s a. registered_subscription run_2 n = Some s
         \<and> subscription_actor_of run_2 (sub_internal_id s) = Some a
       \<longrightarrow> registered_subscription run_3 n = Some s
         \<and> (\<exists>a'. subscription_actor_of run_3 (sub_internal_id s) = Some a' \<and> stored a' =
              (if sub_topic s = run_topic then stored a + filter_mset (filter_accepts a) (mset batch)
               else stored a)))" by (rule exE)
  note batch = all [THEN conjunct1] all [THEN conjunct2, THEN conjunct1]
  from all [THEN conjunct2, THEN conjunct2, rule_format, OF conjI [OF s a]] obtain a' where
    "subscription_actor_of run_3 2 = Some a'" "stored a' = stored a + filter_mset (filter_accepts a) (mset batch)"
    unfolding sample by auto
  moreover have "length batch = 2" using arg_cong [OF batch(2), of length] sample(3) by simp
  ultimately show ?thesis using batch(1) a unfolding sample by blast
qed

text \<open>
  C3. No message is stored twice or in the wrong place: in every reachable state of the broker, the messages
  that a registered subscription still has to deliver (queued, outstanding or waiting for a retry) have
  pairwise different ids, were issued by the topic of the subscription and are accepted by its filter.
\<close>

theorem stored_once:
  assumes "broker_reachable b" and "registered_subscription b n = Some s"
    and "subscription_actor_of b (sub_internal_id s) = Some a"
  shows "(\<forall>i. count (image_mset tm_id (stored a)) i \<le> 1)
    \<and> (\<forall>m. m \<in># stored a \<longrightarrow> filter_accepts a m
         \<and> (\<exists>l. tm_id m = message_id_new (topic_internal_id (sub_topic s)) l))"
proof -
  have inv: "bag_inv (pubsub_of b) (bag_of s a)"
    using broker_reachable_pubsub [OF assms(1)] pubsub_of_registered [OF assms(2,3)] by (simp add: pubsub_inv_def)
  then show ?thesis
    unfolding bag_inv_def by (auto simp: bag_of_def accepts_actor)
qed

theorem stored_once_witness:
  "\<exists>a. subscription_actor_of run_4 2 = Some a \<and> size (stored a) = 2
     \<and> (\<forall>i. count (image_mset tm_id (stored a)) i \<le> 1)"
proof -
  have s: "registered_subscription run_4 (sub_name run_subscription) = Some run_subscription" by code_simp
  then obtain a where a: "subscription_actor_of run_4 (sub_internal_id run_subscription) = Some a"
    by (rule registered_subscription_actor [OF broker_reachable_inv [OF run_reachable_states(4)]])
  have "map_option (\<lambda>a. size (stored a)) (subscription_actor_of run_4 2) = Some 2" by code_simp
  then show ?thesis
    using stored_once [OF run_reachable_states(4) s a] a by (auto simp: run_subscription_def)
qed



end
