(* ===== verification/Api_Steps.thy ===== *)
theory Api_Steps
  imports Api_Properties Broker_Properties
begin

text \<open>
  The services as clients of the broker: every remote procedure, every round of a pull and every control
  request of a stream changes the broker by one of its steps at most. So what is proved of the reachable
  states of the broker holds for every history of requests.
\<close>

section \<open>Calls\<close>

text \<open>Asking for information changes nothing.\<close>

lemma topic_get_info_idle [simp]: "snd (topic_handle_get_info env t b) = b"
  by (auto simp: topic_handle_get_info_def topic_call_def set_topic_actor_def fmupd_lookup_idle
      split: option.split)

lemma subscription_get_info_idle [simp]: "snd (subscription_get_info env s b) = b"
  by (auto simp: subscription_get_info_def subscription_call_def set_subscription_actor_def fmupd_lookup_idle
      split: option.split prod.split)

lemma topic_list_idle [simp]: "snd (topic_handle_list_subscriptions env t p b) = b"
  by (auto simp: topic_handle_list_subscriptions_def topic_call_def set_topic_actor_def fmupd_lookup_idle
      split: option.split)

lemma topic_calls:
  "snd (topic_handle_update_info env t u b) = snd (topic_call env t (UpdateTopicInfo u) b)"
  "snd (topic_handle_delete env t b) = snd (topic_call env t DeleteTopic b)"
  by (auto simp: topic_handle_update_info_def topic_handle_delete_def
      split: option.split prod.split topic_response.split)

lemma subscription_calls:
  "snd (subscription_update_info env s u b) = snd (subscription_call env s (UpdateInfo u) b)"
  "snd (pull_messages_capped env s c m b) = snd (subscription_call env s (PullMessages c m) b)"
  "snd (subscription_acknowledge_messages env s ids b) = snd (subscription_call env s (AcknowledgeMessages ids) b)"
  "snd (modify_ack_deadlines env s mods b) = snd (subscription_call env s (ModifyDeadline mods) b)"
  "snd (subscription_modify_push_config env s config b) = snd (subscription_call env s (ModifyPushConfig config) b)"
  "snd (subscription_detach env s b) = snd (subscription_call env s Detach b)"
  "snd (subscription_seek_to_time env s time b) = snd (subscription_call env s (Seek time) b)"
  "snd (subscription_delete env s b) = snd (subscription_call env s Delete b)"
  by (auto simp: subscription_update_info_def pull_messages_capped_def subscription_acknowledge_messages_def
      modify_ack_deadlines_def subscription_modify_push_config_def subscription_detach_def
      subscription_seek_to_time_def subscription_delete_def
      split: option.split prod.split subscription_response.split)

section \<open>At most one step\<close>

definition at_most_step :: "broker \<Rightarrow> broker \<Rightarrow> bool" where
  "at_most_step b b' \<longleftrightarrow> b' = b \<or> broker_step b b'"

named_theorems api_step

lemma at_most_refl [api_step]: "at_most_step b b"
  by (simp add: at_most_step_def)

lemma with_parsed_step [api_step]:
  "(\<And>x. r = Inr x \<Longrightarrow> at_most_step b (snd (f x))) \<Longrightarrow> at_most_step b (snd (with_parsed r b f))"
  by (auto simp: with_parsed_def at_most_step_def split: sum.split)

lemma with_result_step [api_step]:
  "at_most_step b (snd r) \<Longrightarrow> (\<And>x c. fst r = Inr x \<Longrightarrow> c = snd r \<Longrightarrow> snd (f x c) = c) \<Longrightarrow> at_most_step b (snd (with_result r g f))"
  by (cases r) (auto simp: with_result_def at_most_step_def split: sum.split)

lemma with_result_idle:
  "snd r = b \<Longrightarrow> (\<And>x. fst r = Inr x \<Longrightarrow> at_most_step b (snd (f x b))) \<Longrightarrow> at_most_step b (snd (with_result r g f))"
  by (cases r) (auto simp: with_result_def at_most_step_def split: sum.split)

lemma with_result_snd: "snd r = b \<Longrightarrow> (\<And>x. fst r = Inr x \<Longrightarrow> snd (f x b) = b) \<Longrightarrow> snd (with_result r g f) = b"
  by (cases r) (auto simp: with_result_def split: sum.split)

lemma collect_answers_idle: "(\<And>x c. snd (f x c) = c) \<Longrightarrow> snd (collect_answers f xs b) = b"
proof (induction xs arbitrary: b)
  case (Cons x xs)
  obtain r b' where "f x b = (r, b')" by fastforce
  moreover from this have "b' = b" using Cons.prems [of x b] by simp
  ultimately show ?case using Cons by (auto split: sum.split prod.split) (metis snd_conv)+
qed simp

lemma get_topic_known: "get_topic_internal name b = Inr t \<Longrightarrow> registered_topic b name = Some t"
  by (auto simp: get_topic_internal_def manager_get_topic_def get_topic_def
      split: option.splits sum.splits get_topic_error.splits)

lemma get_subscription_known: "manager_get_subscription name b = Inr s \<Longrightarrow> registered_subscription b name = Some s"
  by (auto simp: manager_get_subscription_def state_get_subscription_def split: option.splits)

lemma subscriber_get_known: "subscriber_get_subscription name b = Inr s \<Longrightarrow> registered_subscription b name = Some s"
  by (auto simp: subscriber_get_subscription_def intro: get_subscription_known
      split: sum.splits get_subscription_error.splits)

lemma topic_call_step:
  assumes "broker_inv b" "broker_room b" "registered_topic b name = Some t"
    and "\<And>ta. topic_actor_of b (topic_internal_id t) = Some ta \<Longrightarrow> topic_request_ok env r ta"
  shows "at_most_step b (snd (topic_call env t r b))"
proof -
  obtain ta where "topic_actor_of b (topic_internal_id t) = Some ta"
    by (rule registered_topic_handle [OF assms(1,3)])
  then show ?thesis using assms(2,4) broker_step.topic_called by (auto simp: at_most_step_def)
qed

lemma subscription_call_step:
  assumes "broker_room b" and "known_subscription b s" and "\<And>ms. r \<noteq> PostMessages ms"
    and "\<And>a. subscription_actor_of b (sub_internal_id s) = Some a \<Longrightarrow>
      event_ok (Request (actor_env_of env (sub_topic s) b) r) a"
  shows "at_most_step b (snd (subscription_call env s r b))"
  using assms broker_step.subscription_called [of b env s r]
  by (auto simp: at_most_step_def subscription_request_ok_def)

section \<open>The requests\<close>

text \<open>The requests of both services; of a pull one round, and of a stream one round of its loop and the two
  parts of a control request.\<close>

datatype service_request =
    Rpc_CreateTopic proto_topic
  | Rpc_UpdateTopic "proto_topic option" "string list option"
  | Rpc_Publish string "pubsub_message list"
  | Rpc_GetTopic string
  | Rpc_ListTopics string int string
  | Rpc_ListTopicSubscriptions string int string
  | Rpc_ListTopicSnapshots string
  | Rpc_DeleteTopic string
  | Rpc_DetachSubscription string
  | Rpc_CreateSubscription proto_subscription
  | Rpc_GetSubscription string
  | Rpc_UpdateSubscription "proto_subscription option" "string list option"
  | Rpc_ListSubscriptions string int string
  | Rpc_DeleteSubscription string
  | Rpc_ModifyPushConfig string "proto_push_config option"
  | Rpc_Seek string "seek_target option"
  | Rpc_Snapshot snapshot_call
  | Rpc_ModifyAckDeadline string "string list" int
  | Rpc_Acknowledge string "string list"
  | Pull_Round subscription u16
  | Stream_Start "(status + streaming_pull_request) option"
  | Stream_Round subscription u16 u16
  | Stream_Acknowledge subscription bool "string list"
  | Stream_Modify subscription bool "string list" "int list"

fun service_call :: "externals \<Rightarrow> broker_env \<Rightarrow> service_request \<Rightarrow> broker \<Rightarrow> broker" where
  "service_call ext env (Rpc_CreateTopic t) b = snd (rpc_create_topic env t b)"
| "service_call ext env (Rpc_UpdateTopic t m) b = snd (rpc_update_topic env t m b)"
| "service_call ext env (Rpc_Publish t ms) b = snd (rpc_publish env t ms b)"
| "service_call ext env (Rpc_GetTopic t) b = snd (rpc_get_topic env t b)"
| "service_call ext env (Rpc_ListTopics p n k) b = snd (rpc_list_topics ext env p n k b)"
| "service_call ext env (Rpc_ListTopicSubscriptions t n k) b = snd (rpc_list_topic_subscriptions ext env t n k b)"
| "service_call ext env (Rpc_ListTopicSnapshots t) b = snd (rpc_list_topic_snapshots t b)"
| "service_call ext env (Rpc_DeleteTopic t) b = snd (rpc_delete_topic env t b)"
| "service_call ext env (Rpc_DetachSubscription s) b = snd (rpc_detach_subscription env s b)"
| "service_call ext env (Rpc_CreateSubscription s) b = snd (rpc_create_subscription ext env s b)"
| "service_call ext env (Rpc_GetSubscription s) b = snd (rpc_get_subscription env s b)"
| "service_call ext env (Rpc_UpdateSubscription s m) b = snd (rpc_update_subscription env s m b)"
| "service_call ext env (Rpc_ListSubscriptions p n k) b = snd (rpc_list_subscriptions ext env p n k b)"
| "service_call ext env (Rpc_DeleteSubscription s) b = snd (rpc_delete_subscription env s b)"
| "service_call ext env (Rpc_ModifyPushConfig s c) b = snd (rpc_modify_push_config env s c b)"
| "service_call ext env (Rpc_Seek s t) b = snd (rpc_seek ext env s t b)"
| "service_call ext env (Rpc_Snapshot c) b = snd (rpc_snapshot c b)"
| "service_call ext env (Rpc_ModifyAckDeadline s ids n) b = snd (rpc_modify_ack_deadline env s ids n b)"
| "service_call ext env (Rpc_Acknowledge s ids) b = snd (rpc_acknowledge env s ids b)"
| "service_call ext env (Pull_Round s n) b = snd (subscriber_pull_messages ext env s n b)"
| "service_call ext env (Stream_Start r) b = snd (rpc_streaming_pull env r b)"
| "service_call ext env (Stream_Round s n m) b = snd (pull_messages_capped env s n m b)"
| "service_call ext env (Stream_Acknowledge s eo raws) b = snd (stream_acknowledge env s eo raws b)"
| "service_call ext env (Stream_Modify s eo raws secs) b = snd (stream_modify env s eo raws secs b)"

text \<open>What the environment supplies: a publish visits the subscriptions attached to its topic, a seek drains
  what its subscription holds, and a stream belongs to a subscription.\<close>

fun service_request_ok :: "broker_env \<Rightarrow> service_request \<Rightarrow> broker \<Rightarrow> bool" where
  "service_request_ok env (Rpc_Publish raw ms) b \<longleftrightarrow>
     (\<forall>n t ta. parse_topic_name raw = Inr n \<longrightarrow> registered_topic b n = Some t \<longrightarrow>
        topic_actor_of b (topic_internal_id t) = Some ta \<longrightarrow>
        topic_request_ok env (PublishMessages (map (parse_topic_message (be_now env)) ms)) ta)"
| "service_request_ok env (Rpc_Seek raw target) b \<longleftrightarrow>
     (\<forall>n s a time. parse_subscription_name raw = Inr n \<longrightarrow> registered_subscription b n = Some s \<longrightarrow>
        subscription_actor_of b (sub_internal_id s) = Some a \<longrightarrow>
        event_ok (Request (actor_env_of env (sub_topic s) b) (Seek time)) a)"
| "service_request_ok env (Pull_Round s n) b \<longleftrightarrow> known_subscription b s"
| "service_request_ok env (Stream_Round s n m) b \<longleftrightarrow> known_subscription b s"
| "service_request_ok env (Stream_Acknowledge s eo raws) b \<longleftrightarrow> known_subscription b s"
| "service_request_ok env (Stream_Modify s eo raws secs) b \<longleftrightarrow> known_subscription b s"
| "service_request_ok env _ b \<longleftrightarrow> True"

lemma publisher_steps:
  assumes inv: "broker_inv b" and room: "broker_room b"
  shows "at_most_step b (snd (rpc_create_topic env proto b))"
    and "at_most_step b (snd (rpc_update_topic env tf paths b))"
    and "at_most_step b (snd (rpc_get_topic env raw b))"
    and "at_most_step b (snd (rpc_list_topics ext env project n token b))"
    and "at_most_step b (snd (rpc_list_topic_subscriptions ext env raw n token b))"
    and "at_most_step b (snd (rpc_list_topic_snapshots raw b))"
    and "at_most_step b (snd (rpc_delete_topic env raw b))"
    and "at_most_step b (snd (rpc_detach_subscription env raw b))"
proof -
  show "at_most_step b (snd (rpc_create_topic env proto b))"
    unfolding rpc_create_topic_def
    by (intro api_step with_result_snd) (simp_all add: at_most_step_def broker_step.topic_created room)
  show "at_most_step b (snd (rpc_update_topic env tf paths b))"
    unfolding rpc_update_topic_def
    by (auto intro!: api_step topic_call_step [OF inv room] simp: topic_calls dest: get_topic_known
        split: option.split)
  show "at_most_step b (snd (rpc_get_topic env raw b))"
    unfolding rpc_get_topic_def by (intro api_step) (simp_all add: at_most_step_def)
  show "at_most_step b (snd (rpc_list_topics ext env project n token b))"
    unfolding rpc_list_topics_def
    by (intro with_parsed_step with_result_idle) (auto intro!: collect_answers_idle with_result_snd simp: at_most_step_def)
  show "at_most_step b (snd (rpc_list_topic_subscriptions ext env raw n token b))"
    unfolding rpc_list_topic_subscriptions_def by (intro api_step) (simp_all add: at_most_step_def)
  show "at_most_step b (snd (rpc_list_topic_snapshots raw b))"
    unfolding rpc_list_topic_snapshots_def by (intro api_step) (simp_all add: at_most_step_def)
  show "at_most_step b (snd (rpc_delete_topic env raw b))"
    unfolding rpc_delete_topic_def
    by (auto intro!: api_step topic_call_step [OF inv room] simp: topic_calls dest: get_topic_known)
  show "at_most_step b (snd (rpc_detach_subscription env raw b))"
    unfolding rpc_detach_subscription_def
    by (rule with_parsed_step, rule with_result_idle)
      (auto intro!: api_step subscription_call_step [OF room] registered_known [OF inv] get_subscription_known
        simp: subscription_calls)
qed

lemma publish_step:
  assumes inv: "broker_inv b" and room: "broker_room b" and ok: "service_request_ok env (Rpc_Publish raw ms) b"
  shows "at_most_step b (snd (rpc_publish env raw ms b))"
  unfolding rpc_publish_def
  using ok by (auto intro!: api_step topic_call_step [OF inv room] simp: topic_publish_call dest!: get_topic_known)

lemma create_subscription_step:
  assumes inv: "broker_inv b" and room: "broker_room b"
  shows "at_most_step b (snd (rpc_create_subscription ext env request b))"
proof -
  have info: "snd (create_request_info ext request b) = b"
    by (auto simp: create_request_info_def with_parsed_def split: sum.split)
  have created: "at_most_step b (snd (manager_create_subscription env i t b))"
    if "manager_get_topic name b = Inr t" for i t name
  proof -
    have reg: "registered_topic b name = Some t"
      using that by (auto simp: manager_get_topic_def get_topic_def split: option.splits)
    have "known_topic b t"
      by (rule registered_topic_handle [OF inv reg]) (auto simp: known_topic_def)
    then show ?thesis using broker_step.subscription_created [OF room] by (simp add: at_most_step_def)
  qed
  have "at_most_step b (snd (with_result (manager_get_topic name b, b) g
      (\<lambda>t b1. with_result (manager_create_subscription env i t b1) h
        (\<lambda>s b2. with_result (subscription_get_info env s b2) k (\<lambda>info b3. (Inr (f s info b3), b3))))))"
    for name i g h k and f :: "subscription \<Rightarrow> subscription_info \<Rightarrow> broker \<Rightarrow> proto_subscription"
    by (rule with_result_idle) (auto intro!: with_result_step created with_result_snd)
  then show ?thesis
    unfolding rpc_create_subscription_def
    by (intro with_result_idle [OF info]) (auto split: prod.split)
qed

lemma subscriber_steps:
  assumes inv: "broker_inv b" and room: "broker_room b"
  shows "at_most_step b (snd (rpc_get_subscription env raw b))"
    and "at_most_step b (snd (rpc_update_subscription env sf paths b))"
    and "at_most_step b (snd (rpc_list_subscriptions ext env project n token b))"
    and "at_most_step b (snd (rpc_delete_subscription env raw b))"
    and "at_most_step b (snd (rpc_modify_push_config env raw pc b))"
    and "at_most_step b (snd (rpc_modify_ack_deadline env raw raw_ids secs b))"
    and "at_most_step b (snd (rpc_acknowledge env raw raw_ids b))"
    and "at_most_step b (snd (rpc_streaming_pull env first b))"
    and "at_most_step b (snd (rpc_snapshot snap b))"
proof -
  note call = api_step subscription_call_step [OF room] registered_known [OF inv] subscriber_get_known
  show "at_most_step b (snd (rpc_get_subscription env raw b))"
    unfolding rpc_get_subscription_def
    by (rule with_parsed_step, rule with_result_idle) (auto intro!: api_step)
  show "at_most_step b (snd (rpc_update_subscription env sf paths b))"
    unfolding rpc_update_subscription_def
    by (auto intro!: call simp: subscription_calls split: option.split)
  show "at_most_step b (snd (rpc_list_subscriptions ext env project n token b))"
    unfolding rpc_list_subscriptions_def
    by (intro with_parsed_step with_result_idle) (auto intro!: collect_answers_idle with_result_snd simp: at_most_step_def)
  show "at_most_step b (snd (rpc_delete_subscription env raw b))"
    unfolding rpc_delete_subscription_def by (auto intro!: call simp: subscription_calls)
  show "at_most_step b (snd (rpc_modify_push_config env raw pc b))"
    unfolding rpc_modify_push_config_def by (auto intro!: call simp: subscription_calls)
  show "at_most_step b (snd (rpc_modify_ack_deadline env raw raw_ids secs b))"
    unfolding rpc_modify_ack_deadline_def by (auto intro!: call simp: subscription_calls)
  show "at_most_step b (snd (rpc_acknowledge env raw raw_ids b))"
    unfolding rpc_acknowledge_def by (auto intro!: call simp: subscription_calls)
  show "at_most_step b (snd (rpc_streaming_pull env first b))"
    unfolding rpc_streaming_pull_def by (auto intro!: api_step split: option.split)
  show "at_most_step b (snd (rpc_snapshot snap b))" by (cases snap) (simp_all add: at_most_refl)
qed

lemma seek_step:
  assumes inv: "broker_inv b" and room: "broker_room b" and ok: "service_request_ok env (Rpc_Seek raw target) b"
  shows "at_most_step b (snd (rpc_seek ext env raw target b))"
  unfolding rpc_seek_def
  using ok by (auto intro!: api_step subscription_call_step [OF room] registered_known [OF inv] simp: subscription_calls
      dest!: subscriber_get_known)

lemma stream_steps:
  assumes room: "broker_room b" and s: "known_subscription b s"
  shows "at_most_step b (snd (subscriber_pull_messages ext env s n b))"
    and "at_most_step b (snd (pull_messages_capped env s n m b))"
    and "at_most_step b (snd (stream_acknowledge env s eo raws b))"
    and "at_most_step b (snd (stream_modify env s eo raws secs b))"
  by (auto intro!: api_step subscription_call_step [OF room s] simp: subscription_calls subscriber_pull_messages_def
      subscription_pull_messages_def stream_acknowledge_def stream_modify_def Let_def split: sum.split)



end
