(* ===== verification/Observer.thy ===== *)
theory Observer
  imports Subscription_Actor
begin

text \<open>
  The observer of a subscription (\<^verbatim>\<open>SubscriptionObserver\<close> of \<^verbatim>\<open>subscriptions/subscription_actor.rs\<close>) and
  the futures it hands out (\<^verbatim>\<open>subscriptions/futures.rs\<close>). The actor signals through it, the pulls and
  streams wait on it.

  \<^verbatim>\<open>tokio::sync::Notify\<close> is third-party: its operations are the fields of the parameter \<open>notify_api\<close>, over a
  state of any type, and a \<^verbatim>\<open>Notified\<close> future is named by a number. \<open>notify_documented\<close> collects what its
  documentation promises, in terms of the stored permit and of the state of each future: a
  \<^verbatim>\<open>notify_one\<close> wakes one waiting future or stores the permit, a \<^verbatim>\<open>notify_waiters\<close> reaches every future
  that exists, also before its first poll, the first poll takes a stored permit, and a future that was
  woken by \<^verbatim>\<open>notify_one\<close> and is dropped before it is polled passes the notification on.
\<close>

section \<open>The Notify primitive\<close>

record 'n notify_api =
  nf_new :: 'n
  nf_notified :: "nat \<Rightarrow> 'n \<Rightarrow> 'n"
  nf_poll :: "nat \<Rightarrow> 'n \<Rightarrow> bool \<times> 'n"
  nf_drop :: "nat \<Rightarrow> 'n \<Rightarrow> 'n"
  nf_notify_one :: "'n \<Rightarrow> 'n"
  nf_notify_waiters :: "'n \<Rightarrow> 'n"

datatype future_state = NoFuture | Unpolled | Waiting | NotifiedOne | NotifiedAll

definition one_woken ::
    "(nat \<Rightarrow> future_state) \<Rightarrow> bool \<Rightarrow> (nat \<Rightarrow> future_state) \<Rightarrow> bool \<Rightarrow> bool" where
  "one_woken f p f' p' \<longleftrightarrow>
     (if \<exists>j. f j = Waiting then p' = p \<and> (\<exists>j. f j = Waiting \<and> f' = f(j := NotifiedOne))
      else p' \<and> f' = f)"

definition all_woken :: "(nat \<Rightarrow> future_state) \<Rightarrow> nat \<Rightarrow> future_state" where
  "all_woken f = (\<lambda>k. if f k \<in> {Unpolled, Waiting} then NotifiedAll else f k)"

definition polled ::
    "nat \<Rightarrow> (nat \<Rightarrow> future_state) \<Rightarrow> bool \<Rightarrow> bool \<Rightarrow> (nat \<Rightarrow> future_state) \<Rightarrow> bool \<Rightarrow> bool" where
  "polled k f p ready f' p' \<longleftrightarrow>
     (case f k of
        NoFuture \<Rightarrow> True
      | Unpolled \<Rightarrow> ready = p \<and> \<not> p' \<and> f' = f(k := if p then NoFuture else Waiting)
      | Waiting \<Rightarrow> \<not> ready \<and> f' = f \<and> p' = p
      | NotifiedOne \<Rightarrow> ready \<and> f' = f(k := NoFuture) \<and> p' = p
      | NotifiedAll \<Rightarrow> ready \<and> f' = f(k := NoFuture) \<and> (p' \<longrightarrow> p))"

definition dropped ::
    "nat \<Rightarrow> (nat \<Rightarrow> future_state) \<Rightarrow> bool \<Rightarrow> (nat \<Rightarrow> future_state) \<Rightarrow> bool \<Rightarrow> bool" where
  "dropped k f p f' p' \<longleftrightarrow>
     (if f k = NotifiedOne then one_woken (f(k := NoFuture)) p f' p' else f' = f(k := NoFuture) \<and> p' = p)"

definition notify_documented ::
    "'n notify_api \<Rightarrow> ('n \<Rightarrow> bool) \<Rightarrow> ('n \<Rightarrow> nat \<Rightarrow> future_state) \<Rightarrow> bool" where
  "notify_documented api permit fut \<longleftrightarrow>
     \<not> permit (nf_new api) \<and> (\<forall>k. fut (nf_new api) k = NoFuture)
   \<and> (\<forall>k n. fut (nf_notified api k n) = (fut n)(k := Unpolled) \<and> permit (nf_notified api k n) = permit n)
   \<and> (\<forall>n. one_woken (fut n) (permit n) (fut (nf_notify_one api n)) (permit (nf_notify_one api n)))
   \<and> (\<forall>n. fut (nf_notify_waiters api n) = all_woken (fut n) \<and> permit (nf_notify_waiters api n) = permit n)
   \<and> (\<forall>k n. polled k (fut n) (permit n) (fst (nf_poll api k n))
        (fut (snd (nf_poll api k n))) (permit (snd (nf_poll api k n))))
   \<and> (\<forall>k n. dropped k (fut n) (permit n) (fut (nf_drop api k n)) (permit (nf_drop api k n)))"

section \<open>The observer\<close>

text \<open>The one-shot channel of the deletion: whether a value was sent, and whether the sender is still
  there to be taken.\<close>

record 'n subscription_observer =
  ob_notify_messages_available :: 'n
  ob_notify_outstanding_freed :: 'n
  ob_deleted_recv :: bool
  ob_deleted_send :: bool

definition observer_new :: "'n notify_api \<Rightarrow> 'n subscription_observer" where
  "observer_new api =
     \<lparr>ob_notify_messages_available = nf_new api, ob_notify_outstanding_freed = nf_new api,
      ob_deleted_recv = False, ob_deleted_send = True\<rparr>"

definition notify_new_messages_available ::
    "'n notify_api \<Rightarrow> 'n subscription_observer \<Rightarrow> 'n subscription_observer" where
  "notify_new_messages_available api ob =
     ob\<lparr>ob_notify_messages_available := nf_notify_one api (ob_notify_messages_available ob)\<rparr>"

definition notify_outstanding_freed ::
    "'n notify_api \<Rightarrow> 'n subscription_observer \<Rightarrow> 'n subscription_observer" where
  "notify_outstanding_freed api ob =
     ob\<lparr>ob_notify_outstanding_freed := nf_notify_waiters api (ob_notify_outstanding_freed ob)\<rparr>"

definition notify_deleted ::
    "'n notify_api \<Rightarrow> 'n subscription_observer \<Rightarrow> 'n subscription_observer" where
  "notify_deleted api ob =
     (let taken = ob_deleted_send ob; ob = ob\<lparr>ob_deleted_send := False\<rparr>
      in if taken
         then ob\<lparr>ob_deleted_recv := True,
                 ob_notify_messages_available := nf_notify_waiters api (ob_notify_messages_available ob)\<rparr>
         else ob)"

definition new_messages_available ::
    "'n notify_api \<Rightarrow> nat \<Rightarrow> 'n subscription_observer \<Rightarrow> 'n subscription_observer" where
  "new_messages_available api k ob =
     ob\<lparr>ob_notify_messages_available := nf_notified api k (ob_notify_messages_available ob)\<rparr>"

definition observer_outstanding_freed ::
    "'n notify_api \<Rightarrow> nat \<Rightarrow> 'n subscription_observer \<Rightarrow> 'n subscription_observer" where
  "observer_outstanding_freed api k ob =
     ob\<lparr>ob_notify_outstanding_freed := nf_notified api k (ob_notify_outstanding_freed ob)\<rparr>"

text \<open>The signals of the handle.\<close>

definition subscription_messages_available ::
    "'n notify_api \<Rightarrow> nat \<Rightarrow> 'n subscription_observer \<Rightarrow> 'n subscription_observer" where
  "subscription_messages_available api k ob = new_messages_available api k ob"

definition subscription_outstanding_freed ::
    "'n notify_api \<Rightarrow> nat \<Rightarrow> 'n subscription_observer \<Rightarrow> 'n subscription_observer" where
  "subscription_outstanding_freed api k ob = observer_outstanding_freed api k ob"

text \<open>What the observer does with the effects of the actor.\<close>

fun observe :: "'n notify_api \<Rightarrow> actor_effect \<Rightarrow> 'n subscription_observer \<Rightarrow> 'n subscription_observer" where
  "observe api NotifyNewMessagesAvailable ob = notify_new_messages_available api ob"
| "observe api NotifyOutstandingFreed ob = notify_outstanding_freed api ob"
| "observe api NotifyDeleted ob = notify_deleted api ob"
| "observe api _ ob = ob"

section \<open>The futures\<close>

definition messages_available_poll ::
    "'n notify_api \<Rightarrow> nat \<Rightarrow> 'n subscription_observer \<Rightarrow> bool \<times> 'n subscription_observer" where
  "messages_available_poll api k ob =
     (case nf_poll api k (ob_notify_messages_available ob) of
        (ready, n) \<Rightarrow> (ready, ob\<lparr>ob_notify_messages_available := n\<rparr>))"

definition outstanding_freed_poll ::
    "'n notify_api \<Rightarrow> nat \<Rightarrow> 'n subscription_observer \<Rightarrow> bool \<times> 'n subscription_observer" where
  "outstanding_freed_poll api k ob =
     (case nf_poll api k (ob_notify_outstanding_freed ob) of
        (ready, n) \<Rightarrow> (ready, ob\<lparr>ob_notify_outstanding_freed := n\<rparr>))"

definition deleted_poll :: "'n subscription_observer \<Rightarrow> bool \<times> 'n subscription_observer" where
  "deleted_poll ob = (ob_deleted_recv ob, ob)"

section \<open>The laws\<close>

lemma notify_laws:
  assumes "notify_documented api permit fut"
  shows "\<not> permit (nf_new api)" "fut (nf_new api) k = NoFuture"
    and "fut (nf_notified api k n) = (fut n)(k := Unpolled)" "permit (nf_notified api k n) = permit n"
    and "one_woken (fut n) (permit n) (fut (nf_notify_one api n)) (permit (nf_notify_one api n))"
    and "fut (nf_notify_waiters api n) = all_woken (fut n)" "permit (nf_notify_waiters api n) = permit n"
    and "polled k (fut n) (permit n) (fst (nf_poll api k n))
        (fut (snd (nf_poll api k n))) (permit (snd (nf_poll api k n)))"
    and "dropped k (fut n) (permit n) (fut (nf_drop api k n)) (permit (nf_drop api k n))"
  using assms unfolding notify_documented_def by blast+

end
