(* ===== verification/Actor_Wakeup.thy ===== *)
theory Actor_Wakeup
  imports Actor_Lifecycle Actor_Frame
begin

text \<open>
  Wake-ups of waiting pulls. A pull that finds nothing waits for the signal of the observer, and a stream at
  its flow-control limit waits until outstanding messages are freed; both depend on the actor to send the
  signal. Here: whenever an event of the select loop makes messages available that were not, or frees
  outstanding messages while others wait, the actor signals.
\<close>

section \<open>Signals\<close>

definition signals :: "actor_effect \<Rightarrow> subscription_actor \<Rightarrow> subscription_actor \<Rightarrow> bool" where
  "signals e a b \<longleftrightarrow> (\<exists>es. sa_effects b = sa_effects a @ es \<and> e \<in> set es)"

lemma signals_emit: "quiet a b \<Longrightarrow> signals e a (emit e b)"
  by (auto simp: signals_def quiet_def emit_def)

lemma signals_later: "signals e a b \<Longrightarrow> signals e a (emit f b)"
  by (auto simp: signals_def emit_def)

lemma signals_counters [simp]: "signals e a (b\<lparr>sa_counters := c\<rparr>) = signals e a b"
  by (simp add: signals_def)

lemma more_pending_frame [simp]:
  "more_pending (emit e a) = more_pending a" "more_pending (a\<lparr>sa_counters := c\<rparr>) = more_pending a"
  "more_pending (a\<lparr>sa_outstanding := t\<rparr>) = more_pending a" "more_pending (a\<lparr>sa_retry_queue := q\<rparr>) = more_pending a"
  "more_pending (forget_attempts m a) = more_pending a" "more_pending (a\<lparr>sa_info := i\<rparr>) = more_pending a"
  "more_pending (a\<lparr>sa_deleted := d\<rparr>) = more_pending a" "more_pending (a\<lparr>sa_effects := es\<rparr>) = more_pending a"
  by (simp_all add: more_pending_def pullable_keys_def key_queue_def emit_def forget_attempts_def)

lemma more_pending_clear [simp]: "\<not> more_pending (clear_all a)"
proof -
  have "pullable_keys (clear_all a) = {||}" by (auto simp: pullable_keys_def clear_all_def)
  then show ?thesis
    by (simp add: more_pending_def clear_all_def messages_clear_def messages_is_empty_def messages_len_def)
qed

section \<open>The handlers\<close>

lemma post_loop_none: "post_loop ms had a = (False, a') \<Longrightarrow> a' = a \<and> \<not> had"
  by (induction ms had a rule: post_loop.induct) (auto split: if_splits)

lemma post_loop_outstanding: "post_loop ms had a = (had', a') \<Longrightarrow> sa_outstanding a' = sa_outstanding a"
  using post_loop_order by blast

lemma post_signals:
  assumes "more_pending (actor_post_messages ms a)" and "\<not> more_pending a"
  shows "signals NotifyNewMessagesAvailable a (actor_post_messages ms a)"
proof -
  obtain had a' where loop: "post_loop ms False a = (had, a')" by fastforce
  have "quiet a a'" using quiet_post_loop [of a a ms False] loop by simp
  then show ?thesis
    using assms loop post_loop_none [of ms False a a'] signals_emit
    by (cases had; cases "sa_deleted a") (auto simp: actor_post_messages_def)
qed

lemma pull_resignals:
  assumes "actor_pull_messages env c m a = (r, a')" and "more_pending a'"
    and "\<not> sa_deleted a" and "\<not> si_detached (sa_info a)" and "pull_capacity c m a \<noteq> 0"
  shows "signals NotifyNewMessagesAvailable a a'"
proof -
  let ?cap = "pull_capacity c m a" and ?d = "ack_deadline_new (env_now env + int (si_ack_deadline (sa_info a)))"
  obtain rs1 a1 where keys: "pull_keys ?cap (env_now env) ?d (sorted_list_of_fset (pullable_keys a)) [] a = (rs1, a1)"
    by fastforce
  obtain rs2 a2 where backlog: "pull_backlog ?cap (env_now env) ?d rs1 a1 = (rs2, a2)" by fastforce
  have "quiet a a1" using quiet_pull_keys [of a a] keys by (metis quiet_refl snd_conv)
  then have "quiet a a2" using quiet_pull_backlog [of a a1] backlog by (metis snd_conv)
  moreover have "a' = add_pulled (length rs2) (if more_pending a2 then emit NotifyNewMessagesAvailable a2 else a2)"
    using assms keys backlog by (auto simp: actor_pull_messages_def Let_def)
  ultimately show ?thesis using assms(2) signals_emit by (auto simp: add_pulled_def split: if_splits)
qed

lemma pull_signals:
  assumes "actor_pull_messages env c m a = (r, a')" and "more_pending a'"
  shows "a' = a \<and> (\<forall>ps. r = Inr ps \<longrightarrow> ps = []) \<or> signals NotifyNewMessagesAvailable a a'"
proof (cases "sa_deleted a \<or> si_detached (sa_info a) \<or> pull_capacity c m a = 0")
  case True
  then show ?thesis using assms(1) by (auto simp: actor_pull_messages_def Let_def split: if_splits)
qed (use assms pull_resignals in blast)

lemma release_acked_none:
  "release_acked ps freed a = ([], a') \<Longrightarrow>
   freed = [] \<and> sa_keys_in_flight a' = sa_keys_in_flight a \<and> sa_ordered_queues a' = sa_ordered_queues a
   \<and> sa_backlog a' = sa_backlog a"
proof (induction ps arbitrary: freed a)
  case (Cons p ps)
  let ?a = "forget_attempts (pm_message p) a"
  show ?case
  proof (cases "tm_ordering_key (pm_message p)")
    case None
    then show ?thesis using Cons.IH [of freed ?a] Cons.prems by (simp add: forget_attempts_def)
  next
    case (Some k)
    let ?b = "?a\<lparr>sa_keys_in_flight := sa_keys_in_flight a |-| {|k|}\<rparr>"
    have "sa_keys_in_flight a |-| {|k|} = sa_keys_in_flight a" if "k |\<notin>| sa_keys_in_flight a"
      using that by auto
    then show ?thesis
      using Some Cons.prems Cons.IH [of freed ?a] Cons.IH [of freed ?b] Cons.IH [of "freed @ [k]" ?b]
      by (auto simp: forget_attempts_def Let_def split: if_splits)
  qed
qed simp

lemma acknowledge_signals:
  assumes inv: "actor_inv {#} a" and ack: "actor_acknowledge_messages ids a = (r, a')" and "more_pending a'"
  shows "signals NotifyNewMessagesAvailable a a'
    \<or> more_pending a \<and> (signals NotifyOutstandingFreed a a'
        \<or> tracker_len (sa_outstanding a') = tracker_len (sa_outstanding a))"
proof (cases "sa_deleted a")
  case True
  then show ?thesis using assms by (auto simp: actor_acknowledge_messages_def)
next
  case False
  obtain acked t where remove: "tracker_remove (ao_valid (ack_split ids (sa_outstanding a))) (sa_outstanding a) = (acked, t)"
    by fastforce
  obtain freed a1 where release: "release_acked acked [] (a\<lparr>sa_outstanding := t\<rparr>) = (freed, a1)" by fastforce
  have quiet: "quiet a a1"
    using quiet_release_acked [of a "a\<lparr>sa_outstanding := t\<rparr>" acked "[]"] release by simp
  define b where "b = (if acked \<noteq> [] then emit NotifyOutstandingFreed a1 else a1)"
  define c where "c = (if freed \<noteq> [] then emit NotifyNewMessagesAvailable b else b)"
  have a': "a' = c\<lparr>sa_counters := (sa_counters c)\<lparr>ct_acked := ct_acked (sa_counters c) + of_nat (length acked)\<rparr>\<rparr>"
    using ack False remove release by (auto simp: actor_acknowledge_messages_def Let_def b_def c_def)
  show ?thesis
  proof (cases "freed = []")
    case False
    have "quiet a b" using quiet by (simp add: b_def)
    then show ?thesis using a' False signals_emit by (simp add: c_def)
  next
    case True
    have "more_pending a1 = more_pending a"
      using release_acked_none [OF release [unfolded True]]
      by (simp add: more_pending_def pullable_keys_def key_queue_def)
    moreover have "tracker_len t = tracker_len (sa_outstanding a)" if "acked = []"
      using tracker_remove_spec(2) [OF _ remove] inv that
      by (simp add: actor_inv_def tracker_len_def flip: size_fmvals)
    moreover have "acked = [] \<Longrightarrow> sa_outstanding a1 = t" using release by auto
    ultimately show ?thesis
      using a' True assms(3) signals_emit [OF quiet] by (cases "acked = []") (auto simp: b_def c_def)
  qed
qed

text \<open>Messages that go back: without message ordering they go to the backlog.\<close>

lemma requeue_step_queues:
  assumes "\<not> si_enable_message_ordering (sa_info (snd (snd acc)))"
  shows "sa_ordered_queues (snd (snd (requeue_step env p acc))) = sa_ordered_queues (snd (snd acc))
    \<and> sa_info (snd (snd (requeue_step env p acc))) = sa_info (snd (snd acc))"
  using assms
  by (cases acc) (auto simp: requeue_step_def bump_attempt_def requeue_one_def Let_def split: option.split)

lemma requeue_queues:
  assumes "\<not> si_enable_message_ordering (sa_info a)"
  shows "sa_ordered_queues (requeue_messages env ps a) = sa_ordered_queues a"
proof -
  have "sa_ordered_queues (snd (snd (fold (requeue_step env) ps acc))) = sa_ordered_queues (snd (snd acc))"
    if "\<not> si_enable_message_ordering (sa_info (snd (snd acc)))" for acc
    using that requeue_step_queues by (induction ps arbitrary: acc) auto
  from this [of "([], [], a)"] assms show ?thesis
    by (auto simp: requeue_messages_def try_publish_dead_lettered_def forget_ids_def emit_def Let_def split_beta
        split: option.split)
qed

lemma requeue_signals:
  assumes inv: "actor_inv {#} a" and base: "quiet a b" "sa_ordered_queues b = sa_ordered_queues a"
    "si_enable_message_ordering (sa_info b) = si_enable_message_ordering (sa_info a)"
    and pending: "more_pending (requeue_messages env ps b)"
  shows "signals NotifyNewMessagesAvailable a (requeue_messages env ps b)
    \<or> si_enable_message_ordering (sa_info a) \<and> messages_is_empty (sa_backlog (requeue_messages env ps b))"
proof -
  let ?c = "requeue_messages env ps b"
  define c where "c = (let (dead, dead_ids, a1) = fold (requeue_step env) ps ([], [], b)
     in if dead \<noteq> [] then forget_ids dead_ids (try_publish_dead_lettered env dead (a1\<lparr>sa_counters := (sa_counters a1)
            \<lparr>ct_dead_lettered := ct_dead_lettered (sa_counters a1) + of_nat (length dead)\<rparr>\<rparr>)) else a1)"
  have c: "?c = (if \<not> messages_is_empty (sa_backlog c) then emit NotifyNewMessagesAvailable c else c)"
    by (simp add: requeue_messages_def c_def Let_def split_beta)
  have "quiet a (snd (snd (fold (requeue_step env) ps ([], [], b))))"
    using base(1) by (simp add: quiet_requeue_fold)
  then have quiet: "quiet a c"
    by (auto simp: c_def try_publish_dead_lettered_def Let_def split_beta split: option.split)
  show ?thesis
  proof (cases "messages_is_empty (sa_backlog c)")
    case False
    then show ?thesis using c signals_emit [OF quiet] by simp
  next
    case True
    have "si_enable_message_ordering (sa_info a)"
    proof (rule ccontr)
      assume unordered: "\<not> si_enable_message_ordering (sa_info a)"
      then have "key_queue ?c k = []" for k
        using inv requeue_queues [of b env ps] base by (simp add: actor_inv_def routed_def key_queue_def)
      then have "pullable_keys ?c = {||}" by (simp add: pullable_keys_def)
      then show False using pending True c by (simp add: more_pending_def)
    qed
    then show ?thesis using True c by simp
  qed
qed

lemma retry_ready_loop_none:
  "retry_ready_loop now ms any a = (False, a') \<Longrightarrow> \<not> any \<and> more_pending a' = more_pending a"
  by (induction now ms any a rule: retry_ready_loop.induct) (auto split: if_splits)

lemma retry_ready_loop_outstanding:
  "retry_ready_loop now ms any a = (any', a') \<Longrightarrow> sa_outstanding a' = sa_outstanding a"
  by (induction now ms any a arbitrary: any' a' rule: retry_ready_loop.induct)
    (auto simp: forget_attempts_def requeue_one_def Let_def split: if_splits option.splits bool.splits)

lemma retry_signals:
  assumes "more_pending (handle_retry_ready env ready a)"
  shows "more_pending a \<and> tracker_len (sa_outstanding (handle_retry_ready env ready a)) = tracker_len (sa_outstanding a)
    \<or> signals NotifyNewMessagesAvailable a (handle_retry_ready env ready a)"
proof -
  obtain any b where loop: "retry_ready_loop (env_now env) ready False a = (any, b)" by fastforce
  have "quiet a b" using quiet_retry_ready_loop [of a a "env_now env" ready False] loop by simp
  then show ?thesis
    using assms loop signals_emit retry_ready_loop_none [of "env_now env" ready False a b]
      retry_ready_loop_outstanding [OF loop]
    by (cases any) (auto simp: handle_retry_ready_def)
qed

lemma seek_signals:
  "\<not> sa_deleted a \<Longrightarrow> signals NotifyNewMessagesAvailable a (actor_seek_to_time env t a)"
  by (auto simp: actor_seek_to_time_def Let_def split_beta quiet_seek_fold intro!: signals_emit)

section \<open>No lost wake-up\<close>

fun hands_out :: "actor_event \<Rightarrow> subscription_actor \<Rightarrow> bool" where
  "hands_out (Request env (PullMessages c m)) a \<longleftrightarrow> (\<exists>p ps. fst (actor_pull_messages env c m a) = Inr (p # ps))"
| "hands_out _ a \<longleftrightarrow> False"

fun gives_back :: "actor_event \<Rightarrow> bool" where
  "gives_back (Request env (ModifyDeadline ms)) \<longleftrightarrow> True"
| "gives_back (Expiry at env) \<longleftrightarrow> True"
| "gives_back _ \<longleftrightarrow> False"

lemma receive_signals:
  assumes inv: "actor_inv {#} a" and pending: "more_pending (snd (receive env r a))"
    and cause: "\<not> more_pending a \<or> tracker_len (sa_outstanding (snd (receive env r a))) < tracker_len (sa_outstanding a)
      \<or> hands_out (Request env r) a"
  shows "signals NotifyNewMessagesAvailable a (snd (receive env r a))
    \<or> more_pending a \<and> signals NotifyOutstandingFreed a (snd (receive env r a))
    \<or> si_enable_message_ordering (sa_info a) \<and> gives_back (Request env r)
      \<and> messages_is_empty (sa_backlog (snd (receive env r a)))"
proof (cases r)
  case (PostMessages ms)
  obtain had a' where loop: "post_loop ms False a = (had, a')" by fastforce
  then have "sa_outstanding (actor_post_messages ms a) = sa_outstanding a"
    using post_loop_outstanding [OF loop] by (simp add: actor_post_messages_def emit_def)
  then show ?thesis using post_signals [of ms a] PostMessages pending cause by simp
next
  case (PullMessages c m)
  obtain res a' where pull: "actor_pull_messages env c m a = (res, a')" by fastforce
  then show ?thesis using pull_signals [OF pull] PullMessages pending cause by auto
next
  case (AcknowledgeMessages ids)
  obtain res a' where ack: "actor_acknowledge_messages ids a = (res, a')" by fastforce
  then show ?thesis using acknowledge_signals [OF inv ack] AcknowledgeMessages pending cause by auto
next
  case (ModifyDeadline ms)
  show ?thesis
  proof (cases "sa_deleted a")
    case True
    then show ?thesis using ModifyDeadline pending cause by (simp add: actor_modify_deadline_def)
  next
    case False
    then obtain nacks t c where "snd (receive env r a) = requeue_messages env nacks (a\<lparr>sa_outstanding := t, sa_counters := c\<rparr>)"
      using ModifyDeadline by (auto simp: actor_modify_deadline_def Let_def split_beta)
    then show ?thesis
      using requeue_signals [OF inv, of "a\<lparr>sa_outstanding := t, sa_counters := c\<rparr>" env nacks] pending ModifyDeadline
      by auto
  qed
next
  case (Seek t)
  show ?thesis
  proof (cases "sa_deleted a")
    case False
    then show ?thesis using Seek seek_signals by simp
  qed (use Seek pending cause in \<open>simp add: actor_seek_to_time_def\<close>)
next
  case Delete
  then show ?thesis using pending cause
    by (auto simp: actor_delete_def Let_def split: if_splits option.splits)
next
  case Detach
  then show ?thesis using pending cause by (auto simp: actor_detach_def split: if_splits)
qed (use pending cause in \<open>simp_all add: actor_update_info_def actor_modify_push_config_def Let_def emit_def\<close>)

lemma take_expired_none:
  assumes "tracker_inv t" and "take_expired at t = Some ([], t')"
  shows "tracker_len t' = tracker_len t"
proof -
  have "tracker_vals t' = tracker_vals t"
    using take_expired_split(2,3) [OF assms] by (metis add_0 mset.simps(1) multiset_partition)
  then show ?thesis by (metis size_fmvals tracker_len_def)
qed

text \<open>Without message ordering there is no exception: an event that leaves messages signals them, or they
  were there before and it signals or leaves alone the outstanding ones.\<close>

lemma receive_unordered:
  assumes inv: "actor_inv {#} a" and unordered: "\<not> si_enable_message_ordering (sa_info a)"
    and pending: "more_pending (snd (receive env r a))"
  shows "signals NotifyNewMessagesAvailable a (snd (receive env r a))
    \<or> more_pending a \<and> (signals NotifyOutstandingFreed a (snd (receive env r a))
        \<or> tracker_len (sa_outstanding (snd (receive env r a))) = tracker_len (sa_outstanding a))"
proof (cases r)
  case (PostMessages ms)
  obtain had a' where loop: "post_loop ms False a = (had, a')" by fastforce
  then have "sa_outstanding (actor_post_messages ms a) = sa_outstanding a"
    using post_loop_outstanding [OF loop] by (simp add: actor_post_messages_def emit_def)
  then show ?thesis using post_signals [of ms a] PostMessages pending by auto
next
  case (PullMessages c m)
  obtain res a' where pull: "actor_pull_messages env c m a = (res, a')" by fastforce
  then show ?thesis using pull_signals [OF pull] PullMessages pending by auto
next
  case (AcknowledgeMessages ids)
  obtain res a' where ack: "actor_acknowledge_messages ids a = (res, a')" by fastforce
  then show ?thesis using acknowledge_signals [OF inv ack] AcknowledgeMessages pending by auto
next
  case (ModifyDeadline ms)
  show ?thesis
  proof (cases "sa_deleted a")
    case False
    then obtain nacks t c where "snd (receive env r a) = requeue_messages env nacks (a\<lparr>sa_outstanding := t, sa_counters := c\<rparr>)"
      using ModifyDeadline by (auto simp: actor_modify_deadline_def Let_def split_beta)
    then show ?thesis
      using requeue_signals [OF inv, of "a\<lparr>sa_outstanding := t, sa_counters := c\<rparr>" env nacks] pending unordered
      by auto
  qed (use ModifyDeadline pending in \<open>simp add: actor_modify_deadline_def\<close>)
next
  case (Seek t)
  then show ?thesis
    using seek_signals [of a env t] pending by (cases "sa_deleted a") (auto simp: actor_seek_to_time_def)
next
  case Delete
  then show ?thesis using pending
    by (auto simp: actor_delete_def Let_def split: if_splits option.splits)
next
  case Detach
  then show ?thesis using pending by (auto simp: actor_detach_def split: if_splits)
qed (use pending in \<open>simp_all add: actor_update_info_def actor_modify_push_config_def Let_def emit_def\<close>)

lemma event_unordered:
  assumes inv: "actor_inv {#} a" and unordered: "\<not> si_enable_message_ordering (sa_info a)"
    and event: "handle_event e a = Some a'" and pending: "more_pending a'"
  shows "signals NotifyNewMessagesAvailable a a'
    \<or> more_pending a \<and> (signals NotifyOutstandingFreed a a'
        \<or> tracker_len (sa_outstanding a') = tracker_len (sa_outstanding a))"
proof (cases e)
  case (Request env r)
  then show ?thesis using receive_unordered [OF inv unordered] event pending by auto
next
  case (Expiry at env)
  then obtain expired t where taken: "take_expired at (sa_outstanding a) = Some (expired, t)"
    using event by (auto split: option.splits)
  show ?thesis
  proof (cases "expired = []")
    case True
    then show ?thesis
      using take_expired_none [of "sa_outstanding a" at t] inv event pending taken Expiry
      by (auto simp: actor_inv_def)
  next
    case False
    let ?b = "a\<lparr>sa_outstanding := t, sa_counters := (sa_counters a)
        \<lparr>ct_expired := ct_expired (sa_counters a) + of_nat (length expired)\<rparr>\<rparr>"
    have "a' = requeue_messages env expired ?b"
      using event taken Expiry False by (simp add: handle_expired_messages_def)
    then show ?thesis using requeue_signals [OF inv, of ?b env expired] pending unordered by auto
  qed
next
  case (RetryDue at env)
  then obtain ready q where ready: "take_ready at (sa_retry_queue a) = (ready, q)" by fastforce
  have "signals f (a\<lparr>sa_retry_queue := q\<rparr>) b = signals f a b" for f b by (simp add: signals_def)
  then show ?thesis
    using event pending RetryDue ready retry_signals [of env ready "a\<lparr>sa_retry_queue := q\<rparr>"]
    by (cases "ready = []") auto
qed



end
