(* ===== verification/Consumers.thy ===== *)
theory Consumers
  imports Observer Streaming_Pull Actor_Wakeup
begin

text \<open>
  The pulls and streams that wait on one subscription, interleaved with its actor: the loops of
  \<^verbatim>\<open>SubscriberService::pull\<close> and \<^verbatim>\<open>SubscriberService::streaming_pull\<close> (\<^verbatim>\<open>api/subscriber.rs\<close>). Every round
  creates the futures first, then asks the actor for messages, and waits for one of the futures. A
  consumer is in one of four phases of that round: at the head of the loop, with its pull under way, with
  its pull under way although the caller is gone (the request is in the queue of the actor), and waiting
  with the answer in hand. A caller that goes away between the wake-up and the next pull is not modelled:
  the request is sent in the same poll as long as the queue of the actor has room.
\<close>

section \<open>A consumer\<close>

datatype consumer_phase = Looping | Subscribed | Abandoned | Pulled

text \<open>\<open>cs_limit\<close> is \<^verbatim>\<open>max_outstanding\<close> of a stream and \<^verbatim>\<open>max_messages as u16\<close> of a pull.\<close>

record consumer =
  cs_streaming :: bool
  cs_limit :: u16
  cs_return_immediately :: bool
  cs_phase :: consumer_phase

definition consumer_request :: "consumer \<Rightarrow> subscription_request" where
  "consumer_request c =
     (if cs_streaming c
      then PullMessages (if cs_limit c = 0 then u16_max else cs_limit c) (cs_limit c)
      else PullMessages (cs_limit c) 0)"

definition consumer_branches :: "consumer \<Rightarrow> wake_up list" where
  "consumer_branches c =
     (if cs_streaming c then [MessagesAvailable, OutstandingFreed, SubscriptionDeleted]
      else [MessagesAvailable])"

definition subscribe ::
    "'n notify_api \<Rightarrow> nat \<Rightarrow> consumer \<Rightarrow> 'n subscription_observer \<Rightarrow> 'n subscription_observer" where
  "subscribe api k c ob =
     (let ob = subscription_messages_available api k ob
      in if cs_streaming c then subscription_outstanding_freed api k ob else ob)"

text \<open>The end of the scope of the futures.\<close>

definition unsubscribe ::
    "'n notify_api \<Rightarrow> nat \<Rightarrow> consumer \<Rightarrow> 'n subscription_observer \<Rightarrow> 'n subscription_observer" where
  "unsubscribe api k c ob =
     (let ob = ob\<lparr>ob_notify_messages_available := nf_drop api k (ob_notify_messages_available ob)\<rparr>
      in if cs_streaming c
         then ob\<lparr>ob_notify_outstanding_freed := nf_drop api k (ob_notify_outstanding_freed ob)\<rparr>
         else ob)"

fun poll_branch ::
    "'n notify_api \<Rightarrow> nat \<Rightarrow> wake_up \<Rightarrow> 'n subscription_observer \<Rightarrow> bool \<times> 'n subscription_observer" where
  "poll_branch api k MessagesAvailable ob = messages_available_poll api k ob"
| "poll_branch api k OutstandingFreed ob = outstanding_freed_poll api k ob"
| "poll_branch api k SubscriptionDeleted ob = deleted_poll ob"

text \<open>\<^verbatim>\<open>tokio::select!\<close> polls the branches in a random order until one is ready.\<close>

fun select_branches ::
    "'n notify_api \<Rightarrow> nat \<Rightarrow> wake_up list \<Rightarrow> 'n subscription_observer
     \<Rightarrow> wake_up option \<times> 'n subscription_observer" where
  "select_branches api k [] ob = (None, ob)"
| "select_branches api k (w # ws) ob =
     (case poll_branch api k w ob of
        (True, ob') \<Rightarrow> (Some w, ob') | (False, ob') \<Rightarrow> select_branches api k ws ob')"

section \<open>The consumers of a subscription\<close>

record 'n waiting_room =
  wr_actor :: subscription_actor
  wr_observer :: "'n subscription_observer"
  wr_consumers :: "nat \<rightharpoonup> consumer"

definition waiting_room_new :: "'n notify_api \<Rightarrow> subscription_actor \<Rightarrow> 'n waiting_room" where
  "waiting_room_new api a =
     \<lparr>wr_actor = a, wr_observer = observer_new api, wr_consumers = Map.empty\<rparr>"

definition react :: "'n notify_api \<Rightarrow> subscription_actor \<Rightarrow> 'n waiting_room \<Rightarrow> 'n waiting_room" where
  "react api a s =
     s\<lparr>wr_actor := a,
       wr_observer := fold (observe api) (drop (length (sa_effects (wr_actor s))) (sa_effects a))
         (wr_observer s)\<rparr>"

definition set_phase :: "nat \<Rightarrow> consumer \<Rightarrow> consumer_phase \<Rightarrow> 'n waiting_room \<Rightarrow> 'n waiting_room" where
  "set_phase k c ph s = s\<lparr>wr_consumers := (wr_consumers s)(k \<mapsto> c\<lparr>cs_phase := ph\<rparr>)\<rparr>"

definition leave :: "'n notify_api \<Rightarrow> nat \<Rightarrow> consumer \<Rightarrow> 'n waiting_room \<Rightarrow> 'n waiting_room" where
  "leave api k c s =
     s\<lparr>wr_observer := unsubscribe api k c (wr_observer s), wr_consumers := (wr_consumers s)(k := None)\<rparr>"

text \<open>The head of the loop.\<close>

definition consumer_subscribe :: "'n notify_api \<Rightarrow> nat \<Rightarrow> consumer \<Rightarrow> 'n waiting_room \<Rightarrow> 'n waiting_room" where
  "consumer_subscribe api k c s =
     set_phase k c Subscribed (s\<lparr>wr_observer := subscribe api k c (wr_observer s)\<rparr>)"

text \<open>The answer to the pull: an error ends the consumer, and so do messages (or
  \<^verbatim>\<open>return_immediately\<close>) in a unary pull.\<close>

definition consumer_answer ::
    "'n notify_api \<Rightarrow> nat \<Rightarrow> consumer \<Rightarrow> (pull_messages_error + pulled_message list)
     \<Rightarrow> 'n waiting_room \<Rightarrow> 'n waiting_room" where
  "consumer_answer api k c r s =
     (if cs_phase c = Abandoned then s\<lparr>wr_consumers := (wr_consumers s)(k := None)\<rparr>
      else case r of
             Inl _ \<Rightarrow> leave api k c s
           | Inr received \<Rightarrow>
               if \<not> cs_streaming c \<and> (received \<noteq> [] \<or> cs_return_immediately c) then leave api k c s
               else set_phase k c Pulled s)"

definition consumer_pull ::
    "'n notify_api \<Rightarrow> environment \<Rightarrow> nat \<Rightarrow> consumer \<Rightarrow> 'n waiting_room \<Rightarrow> 'n waiting_room" where
  "consumer_pull api env k c s =
     (case consumer_request c of
        PullMessages mc mo \<Rightarrow>
          (case actor_pull_messages env mc mo (wr_actor s) of
             (r, a) \<Rightarrow> consumer_answer api k c r (react api a s))
      | _ \<Rightarrow> s)"

text \<open>The end of the round.\<close>

definition consumer_wait ::
    "'n notify_api \<Rightarrow> wake_up list \<Rightarrow> nat \<Rightarrow> consumer \<Rightarrow> 'n waiting_room \<Rightarrow> 'n waiting_room" where
  "consumer_wait api order k c s =
     (case select_branches api k order (wr_observer s) of
        (None, ob) \<Rightarrow> s\<lparr>wr_observer := ob\<rparr>
      | (Some SubscriptionDeleted, ob) \<Rightarrow> leave api k c (s\<lparr>wr_observer := ob\<rparr>)
      | (Some _, ob) \<Rightarrow> set_phase k c Looping (s\<lparr>wr_observer := unsubscribe api k c ob\<rparr>))"

text \<open>The caller goes away: while the pull is under way, and while it waits (also by the timeout of a
  pull).\<close>

definition consumer_abandon :: "'n notify_api \<Rightarrow> nat \<Rightarrow> consumer \<Rightarrow> 'n waiting_room \<Rightarrow> 'n waiting_room" where
  "consumer_abandon api k c s =
     set_phase k c Abandoned (s\<lparr>wr_observer := unsubscribe api k c (wr_observer s)\<rparr>)"

text \<open>The interleavings. \<open>admit\<close> restricts the consumers that arrive.\<close>

inductive consumer_step ::
    "'n notify_api \<Rightarrow> (consumer \<Rightarrow> bool) \<Rightarrow> 'n waiting_room \<Rightarrow> 'n waiting_room \<Rightarrow> bool"
  for api admit where
  arrive: "\<lbrakk> wr_consumers s k = None; admit c \<rbrakk> \<Longrightarrow> consumer_step api admit s (set_phase k c Looping s)"
| subscribes: "\<lbrakk> wr_consumers s k = Some c; cs_phase c = Looping \<rbrakk>
    \<Longrightarrow> consumer_step api admit s (consumer_subscribe api k c s)"
| pulls: "\<lbrakk> wr_consumers s k = Some c; cs_phase c \<in> {Subscribed, Abandoned};
      actor_step (wr_actor s) (Request env (consumer_request c)) a \<rbrakk>
    \<Longrightarrow> consumer_step api admit s (consumer_pull api env k c s)"
| closed: "\<lbrakk> wr_consumers s k = Some c; cs_phase c \<in> {Subscribed, Abandoned}; stopped (wr_actor s) \<rbrakk>
    \<Longrightarrow> consumer_step api admit s (consumer_answer api k c (Inl PullMessages_Closed) s)"
| waits: "\<lbrakk> wr_consumers s k = Some c; cs_phase c = Pulled;
      set order = set (consumer_branches c); distinct order \<rbrakk>
    \<Longrightarrow> consumer_step api admit s (consumer_wait api order k c s)"
| abandons: "\<lbrakk> wr_consumers s k = Some c; cs_phase c = Subscribed \<rbrakk>
    \<Longrightarrow> consumer_step api admit s (consumer_abandon api k c s)"
| cancels: "\<lbrakk> wr_consumers s k = Some c; cs_phase c = Pulled \<rbrakk>
    \<Longrightarrow> consumer_step api admit s (leave api k c s)"
| event: "actor_step (wr_actor s) e a \<Longrightarrow> consumer_step api admit s (react api a s)"

inductive room_reachable :: "'n notify_api \<Rightarrow> (consumer \<Rightarrow> bool) \<Rightarrow> 'n waiting_room \<Rightarrow> bool"
  for api admit where
  start: "room_reachable api admit (waiting_room_new api (actor_start i info tm))"
| next_step: "\<lbrakk> room_reachable api admit s; consumer_step api admit s s' \<rbrakk> \<Longrightarrow> room_reachable api admit s'"

text \<open>A consumer on its way to a pull: it is not waiting, or its next poll ends the wait.\<close>

definition on_its_way :: "'n notify_api \<Rightarrow> 'n waiting_room \<Rightarrow> nat \<Rightarrow> bool" where
  "on_its_way api s k \<longleftrightarrow>
     (case wr_consumers s k of
        None \<Rightarrow> False
      | Some c \<Rightarrow> cs_phase c \<noteq> Pulled
          \<or> (\<forall>order. set order = set (consumer_branches c)
               \<longrightarrow> fst (select_branches api k order (wr_observer s)) \<noteq> None))"

end
