(* ===== verification/Consumer_Invariant.thy ===== *)
theory Consumer_Invariant
  imports Consumers
begin

text \<open>
  The invariant of the consumers of a subscription. \<open>observer_ok\<close> ties the futures of the two notifiers to
  the phases of their consumers; \<open>supplied\<close> says that somebody will look for messages: a permit is stored, a
  consumer is on its way to a pull that it cannot give up without passing the wake-up on, or every consumer
  has been woken.
\<close>

section \<open>Futures and phases\<close>

definition freed_ok :: "consumer \<Rightarrow> future_state \<Rightarrow> bool" where
  "freed_ok c f \<longleftrightarrow> (if cs_streaming c then f \<in> {Unpolled, Waiting, NotifiedAll} else f = NoFuture)"

fun slot_ok :: "consumer option \<Rightarrow> future_state \<Rightarrow> future_state \<Rightarrow> bool" where
  "slot_ok None m f \<longleftrightarrow> m = NoFuture \<and> f = NoFuture"
| "slot_ok (Some c) m f \<longleftrightarrow>
     (case cs_phase c of
        Subscribed \<Rightarrow> m \<in> {Unpolled, NotifiedAll} \<and> freed_ok c f
      | Pulled \<Rightarrow> m \<noteq> NoFuture \<and> freed_ok c f
      | _ \<Rightarrow> m = NoFuture \<and> f = NoFuture)"

text \<open>The view of an observer: the futures and the permit of the first notifier, and of the second.\<close>

definition view_ok ::
    "(nat \<rightharpoonup> consumer) \<Rightarrow> (nat \<Rightarrow> future_state) \<Rightarrow> bool \<Rightarrow> (nat \<Rightarrow> future_state) \<Rightarrow> bool \<Rightarrow> bool" where
  "view_ok cs m p f q \<longleftrightarrow>
     (\<forall>k. slot_ok (cs k) (m k) (f k)) \<and> \<not> q \<and> (p \<longrightarrow> (\<forall>k. m k \<noteq> Waiting))"

definition signalled :: "(nat \<Rightarrow> future_state) \<Rightarrow> bool \<Rightarrow> bool" where
  "signalled m p \<longleftrightarrow> p \<or> (\<exists>j. m j = NotifiedOne)"

definition woken :: "(nat \<rightharpoonup> consumer) \<Rightarrow> (nat \<Rightarrow> future_state) \<Rightarrow> (nat \<Rightarrow> future_state) \<Rightarrow> nat \<Rightarrow> bool" where
  "woken cs m f k \<longleftrightarrow>
     (\<exists>c. cs k = Some c \<and> (cs_phase c \<noteq> Pulled \<or> m k \<in> {NotifiedOne, NotifiedAll} \<or> f k = NotifiedAll))"

definition supplied ::
    "(nat \<rightharpoonup> consumer) \<Rightarrow> (nat \<Rightarrow> future_state) \<Rightarrow> bool \<Rightarrow> (nat \<Rightarrow> future_state) \<Rightarrow> bool" where
  "supplied cs m p f \<longleftrightarrow>
     signalled m p \<or> (\<exists>k c. cs k = Some c \<and> cs_phase c \<noteq> Pulled) \<or> (\<forall>k \<in> dom cs. woken cs m f k)"

lemma suppliedI:
  "signalled m p \<Longrightarrow> supplied cs m p f" "cs k = Some c \<Longrightarrow> cs_phase c \<noteq> Pulled \<Longrightarrow> supplied cs m p f"
  by (auto simp: supplied_def)

lemma view_ok_slot: "view_ok cs m p f q \<Longrightarrow> slot_ok (cs k) (m k) (f k)"
  by (simp add: view_ok_def)

lemma slot_pulled: "slot_ok x m f \<Longrightarrow> m \<in> {Waiting, NotifiedOne} \<Longrightarrow> \<exists>c. x = Some c \<and> cs_phase c = Pulled"
  by (cases x) (auto split: consumer_phase.splits)

section \<open>The signals of the actor\<close>

lemma one_woken_signalled: "one_woken m p m' p' \<Longrightarrow> signalled m' p'"
  by (auto simp: one_woken_def signalled_def split: if_splits)

lemma one_woken_ok:
  assumes "view_ok cs m p f q" and "one_woken m p m' p'"
  shows "view_ok cs m' p' f q"
proof (cases "\<exists>j. m j = Waiting")
  case True
  then obtain j where j: "m j = Waiting" "m' = m(j := NotifiedOne)" "p' = p"
    using assms(2) by (auto simp: one_woken_def)
  obtain c where c: "cs j = Some c" "cs_phase c = Pulled"
    using slot_pulled [OF view_ok_slot [OF assms(1)], of j] j(1) by auto
  have "slot_ok (cs k) (m' k) (f k)" for k
    using view_ok_slot [OF assms(1), of k] j c by (cases "k = j") auto
  then show ?thesis using assms(1) j by (auto simp: view_ok_def)
qed (use assms in \<open>auto simp: one_woken_def view_ok_def\<close>)

lemma slot_all_woken:
  "slot_ok x m f \<Longrightarrow> slot_ok x (if m \<in> {Unpolled, Waiting} then NotifiedAll else m) f"
  "slot_ok x m f \<Longrightarrow> slot_ok x m (if f \<in> {Unpolled, Waiting} then NotifiedAll else f)"
  by (cases x; auto simp: freed_ok_def split: consumer_phase.splits)+

lemma all_woken_ok:
  assumes "view_ok cs m p f q"
  shows "view_ok cs (all_woken m) p f q" "view_ok cs m p (all_woken f) q"
  using assms slot_all_woken by (auto simp: view_ok_def all_woken_def)

lemma all_woken_one [simp]: "all_woken m j = NotifiedOne \<longleftrightarrow> m j = NotifiedOne"
  by (simp add: all_woken_def)

lemma all_woken_signalled: "signalled m p \<Longrightarrow> signalled (all_woken m) p"
  by (simp add: signalled_def)

lemma supplied_mono:
  assumes "supplied cs m p f" and "signalled m p \<Longrightarrow> signalled m' p'"
    and "\<And>k. woken cs m f k \<Longrightarrow> woken cs m' f' k"
  shows "supplied cs m' p' f'"
  using assms unfolding supplied_def by blast

lemma all_woken_supplied:
  assumes "supplied cs m p f"
  shows "supplied cs (all_woken m) p f" "supplied cs m p (all_woken f)"
proof -
  have keep: "woken cs m f k \<Longrightarrow> woken cs (all_woken m) f k \<and> woken cs m (all_woken f) k" for k
    by (auto simp: woken_def all_woken_def)
  show "supplied cs (all_woken m) p f" "supplied cs m p (all_woken f)"
    using supplied_mono [OF assms all_woken_signalled] supplied_mono [OF assms] keep by blast+
qed

text \<open>A signal that space was freed wakes every stream.\<close>

lemma freed_supplied:
  assumes "view_ok cs m p f q" and "\<forall>c \<in> ran cs. cs_streaming c"
  shows "supplied cs m p (all_woken f)"
proof -
  have "woken cs m (all_woken f) k" if "cs k = Some c" for k c
    using view_ok_slot [OF assms(1), of k] assms(2) that
    by (auto simp: woken_def all_woken_def freed_ok_def ran_def split: consumer_phase.splits)
  then show ?thesis by (auto simp: supplied_def)
qed

section \<open>The steps of a consumer\<close>

definition others_ok ::
    "nat \<Rightarrow> (nat \<rightharpoonup> consumer) \<Rightarrow> (nat \<Rightarrow> future_state) \<Rightarrow> bool \<Rightarrow> (nat \<Rightarrow> future_state) \<Rightarrow> bool \<Rightarrow> bool" where
  "others_ok k cs m p f q \<longleftrightarrow>
     (\<forall>j. j \<noteq> k \<longrightarrow> slot_ok (cs j) (m j) (f j) \<and> (p \<longrightarrow> m j \<noteq> Waiting)) \<and> \<not> q"

lemma view_ok_others: "view_ok cs m p f q \<Longrightarrow> others_ok k cs m p f q"
  by (auto simp: view_ok_def others_ok_def)

lemma view_ok_upd:
  assumes "others_ok k cs m p f q" and "slot_ok x (m' k) (f' k)" and "\<And>j. j \<noteq> k \<Longrightarrow> m' j = m j \<and> f' j = f j"
    and "\<not> q'" and "p' \<longrightarrow> p \<and> m' k \<noteq> Waiting"
  shows "view_ok (cs(k := x)) m' p' f' q'"
  using assms by (fastforce simp: view_ok_def others_ok_def)

text \<open>The futures of a consumer go out of scope.\<close>

lemma dropped_ok:
  assumes ok: "others_ok k cs m p f q" and m: "dropped k m p m' p'"
    and f: "f' = f(k := NoFuture)" "\<not> q'"
    and x: "slot_ok x NoFuture NoFuture"
  shows "view_ok (cs(k := x)) m' p' f' q'"
proof -
  have rest: "view_ok (cs(k := x)) (m(k := NoFuture)) p f' q'"
    using view_ok_upd [OF ok, of x "m(k := NoFuture)" f' q' p] x f by simp
  then show ?thesis
    using m one_woken_ok [OF rest] by (auto simp: dropped_def split: if_splits)
qed

lemma dropped_signalled: "dropped k m p m' p' \<Longrightarrow> signalled m p \<Longrightarrow> signalled m' p'"
  by (auto simp: dropped_def signalled_def dest!: one_woken_signalled split: if_splits)

lemma dropped_supplied:
  assumes "supplied cs m p f" and m: "dropped k m p m' p'" and f: "f' = f(k := NoFuture)"
    and k: "cs k = Some c" "cs_phase c = Pulled"
  shows "supplied (cs(k := None)) m' p' f'"
proof (cases "signalled m p")
  case True
  then show ?thesis using dropped_signalled [OF m] suppliedI(1) by blast
next
  case False
  then have m': "m' = m(k := NoFuture)" using m by (auto simp: dropped_def signalled_def)
  from assms(1) False consider (busy) j c' where "cs j = Some c'" "cs_phase c' \<noteq> Pulled"
    | (woken) "\<forall>j \<in> dom cs. woken cs m f j" by (auto simp: supplied_def)
  then show ?thesis
  proof cases
    case busy
    then show ?thesis using k by (intro suppliedI(2) [of _ j c']) auto
  next
    case woken
    then have "woken (cs(k := None)) m' f' j" if "j \<in> dom (cs(k := None))" for j
      using that m' f by (auto simp: woken_def)
    then show ?thesis by (auto simp: supplied_def)
  qed
qed

section \<open>The observer\<close>

definition observer_ok ::
    "('n \<Rightarrow> bool) \<Rightarrow> ('n \<Rightarrow> nat \<Rightarrow> future_state) \<Rightarrow> (nat \<rightharpoonup> consumer) \<Rightarrow> 'n subscription_observer \<Rightarrow> bool" where
  "observer_ok permit fut cs ob \<longleftrightarrow>
     view_ok cs (fut (ob_notify_messages_available ob)) (permit (ob_notify_messages_available ob))
       (fut (ob_notify_outstanding_freed ob)) (permit (ob_notify_outstanding_freed ob))"

definition observer_signalled ::
    "('n \<Rightarrow> bool) \<Rightarrow> ('n \<Rightarrow> nat \<Rightarrow> future_state) \<Rightarrow> 'n subscription_observer \<Rightarrow> bool" where
  "observer_signalled permit fut ob \<longleftrightarrow>
     signalled (fut (ob_notify_messages_available ob)) (permit (ob_notify_messages_available ob))"

definition observer_supplied ::
    "('n \<Rightarrow> bool) \<Rightarrow> ('n \<Rightarrow> nat \<Rightarrow> future_state) \<Rightarrow> (nat \<rightharpoonup> consumer) \<Rightarrow> 'n subscription_observer \<Rightarrow> bool" where
  "observer_supplied permit fut cs ob \<longleftrightarrow>
     supplied cs (fut (ob_notify_messages_available ob)) (permit (ob_notify_messages_available ob))
       (fut (ob_notify_outstanding_freed ob))"

lemmas observer_defs = observer_ok_def observer_signalled_def observer_supplied_def

lemma observer_suppliedI:
  "observer_signalled permit fut ob \<Longrightarrow> observer_supplied permit fut cs ob"
  "cs k = Some c \<Longrightarrow> cs_phase c \<noteq> Pulled \<Longrightarrow> observer_supplied permit fut cs ob"
  by (simp_all add: observer_defs suppliedI)

lemma observe_keeps:
  assumes laws: "notify_documented api permit fut"
  shows "observer_ok permit fut cs ob \<Longrightarrow> observer_ok permit fut cs (observe api e ob)"
    and "observer_signalled permit fut ob \<or> e = NotifyNewMessagesAvailable
      \<Longrightarrow> observer_signalled permit fut (observe api e ob)"
    and "observer_supplied permit fut cs ob \<Longrightarrow> observer_supplied permit fut cs (observe api e ob)"
    and "\<lbrakk> observer_ok permit fut cs ob; \<forall>c \<in> ran cs. cs_streaming c; e = NotifyOutstandingFreed \<rbrakk>
      \<Longrightarrow> observer_supplied permit fut cs (observe api e ob)"
proof -
  note one = notify_laws(5) [OF laws] and all = notify_laws(6,7) [OF laws]
  show "observer_ok permit fut cs (observe api e ob)" if "observer_ok permit fut cs ob"
    using that one_woken_ok [OF _ one] all_woken_ok
    by (cases e) (auto simp: observer_defs notify_new_messages_available_def notify_outstanding_freed_def
        notify_deleted_def Let_def all)
  show "observer_signalled permit fut (observe api e ob)"
    if "observer_signalled permit fut ob \<or> e = NotifyNewMessagesAvailable"
    using that one_woken_signalled [OF one] all_woken_signalled
    by (cases e) (auto simp: observer_defs notify_new_messages_available_def notify_outstanding_freed_def
        notify_deleted_def Let_def all)
  show "observer_supplied permit fut cs (observe api e ob)" if "observer_supplied permit fut cs ob"
    using that suppliedI(1) [OF one_woken_signalled [OF one]] all_woken_supplied
    by (cases e) (auto simp: observer_defs notify_new_messages_available_def notify_outstanding_freed_def
        notify_deleted_def Let_def all)
  show "observer_supplied permit fut cs (observe api e ob)"
    if "observer_ok permit fut cs ob" "\<forall>c \<in> ran cs. cs_streaming c" "e = NotifyOutstandingFreed"
    using that freed_supplied by (auto simp: observer_defs notify_outstanding_freed_def all)
qed

lemma observe_all_keeps:
  assumes laws: "notify_documented api permit fut"
  shows "observer_ok permit fut cs ob \<Longrightarrow> observer_ok permit fut cs (fold (observe api) es ob)"
    and "observer_signalled permit fut ob \<or> NotifyNewMessagesAvailable \<in> set es
      \<Longrightarrow> observer_signalled permit fut (fold (observe api) es ob)"
    and "observer_supplied permit fut cs ob \<Longrightarrow> observer_supplied permit fut cs (fold (observe api) es ob)"
    and "\<lbrakk> observer_ok permit fut cs ob; \<forall>c \<in> ran cs. cs_streaming c; NotifyOutstandingFreed \<in> set es \<rbrakk>
      \<Longrightarrow> observer_supplied permit fut cs (fold (observe api) es ob)"
proof -
  note keeps = observe_keeps [OF laws]
  show "observer_ok permit fut cs ob \<Longrightarrow> observer_ok permit fut cs (fold (observe api) es ob)"
    by (induction es arbitrary: ob) (auto intro: keeps)
  show "observer_signalled permit fut ob \<or> NotifyNewMessagesAvailable \<in> set es
      \<Longrightarrow> observer_signalled permit fut (fold (observe api) es ob)"
    by (induction es arbitrary: ob) (auto intro: keeps)
  show all: "observer_supplied permit fut cs ob
      \<Longrightarrow> observer_supplied permit fut cs (fold (observe api) es ob)" for es ob
    by (induction es arbitrary: ob) (auto intro: keeps)
  show "\<lbrakk> observer_ok permit fut cs ob; \<forall>c \<in> ran cs. cs_streaming c; NotifyOutstandingFreed \<in> set es \<rbrakk>
      \<Longrightarrow> observer_supplied permit fut cs (fold (observe api) es ob)"
    by (induction es arbitrary: ob) (auto intro: keeps all)
qed

definition observer_others_ok ::
    "('n \<Rightarrow> bool) \<Rightarrow> ('n \<Rightarrow> nat \<Rightarrow> future_state) \<Rightarrow> nat \<Rightarrow> consumer \<Rightarrow> (nat \<rightharpoonup> consumer)
     \<Rightarrow> 'n subscription_observer \<Rightarrow> bool" where
  "observer_others_ok permit fut k c cs ob \<longleftrightarrow>
     others_ok k cs (fut (ob_notify_messages_available ob)) (permit (ob_notify_messages_available ob))
       (fut (ob_notify_outstanding_freed ob)) (permit (ob_notify_outstanding_freed ob))
     \<and> fut (ob_notify_outstanding_freed ob) k \<noteq> NotifiedOne
     \<and> (cs_streaming c \<or> fut (ob_notify_outstanding_freed ob) k = NoFuture)"

lemma observer_ok_others:
  assumes "observer_ok permit fut cs ob" and "cs k = Some c"
  shows "observer_others_ok permit fut k c cs ob"
proof -
  have "slot_ok (cs k) (fut (ob_notify_messages_available ob) k) (fut (ob_notify_outstanding_freed ob) k)"
    using assms(1) by (simp add: observer_ok_def view_ok_def)
  then show ?thesis
    using assms view_ok_others
    by (auto simp: observer_others_ok_def observer_ok_def freed_ok_def split: consumer_phase.splits if_splits)
qed

lemma unsubscribe_view:
  assumes laws: "notify_documented api permit fut" and ok: "observer_others_ok permit fut k c cs ob"
  shows "dropped k (fut (ob_notify_messages_available ob)) (permit (ob_notify_messages_available ob))
      (fut (ob_notify_messages_available (unsubscribe api k c ob)))
      (permit (ob_notify_messages_available (unsubscribe api k c ob)))"
    and "fut (ob_notify_outstanding_freed (unsubscribe api k c ob))
      = (fut (ob_notify_outstanding_freed ob))(k := NoFuture)"
    and "\<not> permit (ob_notify_outstanding_freed (unsubscribe api k c ob))"
proof -
  show "dropped k (fut (ob_notify_messages_available ob)) (permit (ob_notify_messages_available ob))
      (fut (ob_notify_messages_available (unsubscribe api k c ob)))
      (permit (ob_notify_messages_available (unsubscribe api k c ob)))"
    using notify_laws(9) [OF laws] by (simp add: unsubscribe_def Let_def)
  show "fut (ob_notify_outstanding_freed (unsubscribe api k c ob))
      = (fut (ob_notify_outstanding_freed ob))(k := NoFuture)"
    and "\<not> permit (ob_notify_outstanding_freed (unsubscribe api k c ob))"
    using notify_laws(9) [OF laws, of k "ob_notify_outstanding_freed ob"] ok
    by (auto simp: unsubscribe_def Let_def observer_others_ok_def others_ok_def dropped_def fun_upd_idem)
qed

lemma unsubscribe_keeps:
  assumes laws: "notify_documented api permit fut" and ok: "observer_others_ok permit fut k c cs ob"
  shows "slot_ok x NoFuture NoFuture \<Longrightarrow> observer_ok permit fut (cs(k := x)) (unsubscribe api k c ob)"
    and "observer_signalled permit fut ob \<Longrightarrow> observer_signalled permit fut (unsubscribe api k c ob)"
    and "\<lbrakk> observer_supplied permit fut cs ob; cs k = Some c; cs_phase c = Pulled \<rbrakk>
      \<Longrightarrow> observer_supplied permit fut (cs(k := None)) (unsubscribe api k c ob)"
proof -
  note view = unsubscribe_view [OF laws ok]
  show "observer_ok permit fut (cs(k := x)) (unsubscribe api k c ob)" if "slot_ok x NoFuture NoFuture"
    using ok that dropped_ok [OF _ view] by (auto simp: observer_ok_def observer_others_ok_def)
  show "observer_signalled permit fut (unsubscribe api k c ob)" if "observer_signalled permit fut ob"
    using that dropped_signalled [OF view(1)] by (simp add: observer_signalled_def)
  show "observer_supplied permit fut (cs(k := None)) (unsubscribe api k c ob)"
    if "observer_supplied permit fut cs ob" "cs k = Some c" "cs_phase c = Pulled"
    using that dropped_supplied [OF _ view(1,2)] by (simp add: observer_supplied_def)
qed

lemma subscribe_keeps:
  assumes laws: "notify_documented api permit fut" and ok: "observer_ok permit fut cs ob"
    and c: "cs k = Some c" "cs_phase c = Looping"
  shows "observer_ok permit fut (cs(k \<mapsto> c\<lparr>cs_phase := Subscribed\<rparr>)) (subscribe api k c ob)"
  unfolding observer_ok_def
proof (rule view_ok_upd)
  have "slot_ok (cs k) (fut (ob_notify_messages_available ob) k) (fut (ob_notify_outstanding_freed ob) k)"
    using ok by (simp add: observer_ok_def view_ok_def)
  then show "slot_ok (Some (c\<lparr>cs_phase := Subscribed\<rparr>)) (fut (ob_notify_messages_available (subscribe api k c ob)) k)
      (fut (ob_notify_outstanding_freed (subscribe api k c ob)) k)"
    using c notify_laws(3) [OF laws]
    by (simp add: subscribe_def subscription_messages_available_def subscription_outstanding_freed_def
        new_messages_available_def observer_outstanding_freed_def freed_ok_def)
  show "others_ok k cs (fut (ob_notify_messages_available ob)) (permit (ob_notify_messages_available ob))
      (fut (ob_notify_outstanding_freed ob)) (permit (ob_notify_outstanding_freed ob))"
    using ok view_ok_others by (simp add: observer_ok_def)
qed (use ok notify_laws(3,4) [OF laws] in \<open>auto simp: subscribe_def subscription_messages_available_def
    subscription_outstanding_freed_def new_messages_available_def Let_def
    observer_outstanding_freed_def observer_ok_def view_ok_def\<close>)

text \<open>Polling a branch of the wait: as long as nothing is ready nothing is lost, and what is ready only
  concerns the consumer itself.\<close>

lemma polled_pending:
  assumes ok: "view_ok cs m p f q" and k: "cs k = Some c" "cs_phase c = Pulled"
  shows "polled k m p False m' p' \<Longrightarrow> view_ok cs m' p' f q \<and> (supplied cs m p f \<longrightarrow> supplied cs m' p' f)"
    and "polled k f q False f' q' \<Longrightarrow> f k \<noteq> NoFuture \<Longrightarrow>
      view_ok cs m p f' q' \<and> (supplied cs m p f \<longrightarrow> supplied cs m p f')"
proof -
  have slot: "m k \<noteq> NoFuture" "freed_ok c (f k)" using view_ok_slot [OF ok, of k] k by simp_all
  have cs: "cs(k := Some c) = cs" using k(1) by auto
  show "view_ok cs m' p' f q \<and> (supplied cs m p f \<longrightarrow> supplied cs m' p' f)" if "polled k m p False m' p'"
  proof (cases "m k = Unpolled")
    case True
    then have m': "\<not> p" "\<not> p'" "m' = m(k := Waiting)" using that by (auto simp: polled_def)
    then have "view_ok (cs(k := Some c)) m' p' f q"
      using ok slot k by (intro view_ok_upd [OF view_ok_others [OF ok]]) (auto simp: view_ok_def)
    moreover have "supplied cs m' p' f" if "supplied cs m p f"
    proof (rule supplied_mono [OF that])
      have "m j = NotifiedOne \<Longrightarrow> m' j = NotifiedOne" for j using True m'(3) by auto
      then show "signalled m' p'" if "signalled m p" using that m'(1) by (auto simp: signalled_def)
      show "woken cs m' f j" if "woken cs m f j" for j using that True m'(3) by (auto simp: woken_def)
    qed
    ultimately show ?thesis by (simp add: cs)
  next
    case False
    then have "m' = m" "p' = p" using that slot(1) by (cases "m k"; simp add: polled_def)+
    then show ?thesis using ok by simp
  qed
  show "view_ok cs m p f' q' \<and> (supplied cs m p f \<longrightarrow> supplied cs m p f')"
    if "polled k f q False f' q'" "f k \<noteq> NoFuture"
  proof (cases "f k = Unpolled")
    case True
    then have f': "\<not> q'" "f' = f(k := Waiting)" using that by (auto simp: polled_def)
    then have "view_ok (cs(k := Some c)) m p f' q'"
      using ok slot k True by (intro view_ok_upd [OF view_ok_others [OF ok]]) (auto simp: view_ok_def freed_ok_def split: if_splits)
    moreover have "supplied cs m p f'" if "supplied cs m p f"
      by (rule supplied_mono [OF that]) (use True f' in \<open>auto simp: woken_def\<close>)
    ultimately show ?thesis by (simp add: cs)
  next
    case False
    then have "f' = f" "q' = q" using that by (cases "f k"; simp add: polled_def)+
    then show ?thesis using ok by simp
  qed
qed

lemma polled_ready:
  assumes ok: "view_ok cs m p f q" and k: "cs k = Some c" "cs_phase c = Pulled"
  shows "polled k m p True m' p' \<Longrightarrow> others_ok k cs m' p' f q"
    and "polled k f q True f' q' \<Longrightarrow> f k \<noteq> NoFuture \<Longrightarrow> others_ok k cs m p f' q' \<and> f' k = NoFuture"
proof -
  have slot: "m k \<noteq> NoFuture" "freed_ok c (f k)" using view_ok_slot [OF ok, of k] k by simp_all
  show "others_ok k cs m' p' f q" if "polled k m p True m' p'"
    using that slot(1) view_ok_others [OF ok, of k]
    by (cases "m k") (auto simp: polled_def others_ok_def)
  show "others_ok k cs m p f' q' \<and> f' k = NoFuture" if "polled k f q True f' q'" "f k \<noteq> NoFuture"
    using that slot(2) view_ok_others [OF ok, of k]
    by (cases "f k") (auto simp: polled_def others_ok_def)
qed

lemma poll_branch_keeps:
  assumes laws: "notify_documented api permit fut" and ok: "observer_ok permit fut cs ob"
    and k: "cs k = Some c" "cs_phase c = Pulled" "w \<in> set (consumer_branches c)"
    and poll: "poll_branch api k w ob = (ready, ob')"
  shows "\<not> ready \<or> w = SubscriptionDeleted \<Longrightarrow>
      observer_ok permit fut cs ob' \<and> (observer_supplied permit fut cs ob \<longrightarrow> observer_supplied permit fut cs ob')"
    and "observer_others_ok permit fut k c cs ob'"
proof -
  let ?m = "fut (ob_notify_messages_available ob)" and ?p = "permit (ob_notify_messages_available ob)"
  let ?f = "fut (ob_notify_outstanding_freed ob)" and ?q = "permit (ob_notify_outstanding_freed ob)"
  let ?m' = "fut (ob_notify_messages_available ob')" and ?p' = "permit (ob_notify_messages_available ob')"
  let ?f' = "fut (ob_notify_outstanding_freed ob')" and ?q' = "permit (ob_notify_outstanding_freed ob')"
  have view: "view_ok cs ?m ?p ?f ?q" using ok by (simp add: observer_ok_def)
  have freed: "freed_ok c (?f k)" using view_ok_slot [OF view, of k] k by simp
  consider (messages) "w = MessagesAvailable" "polled k ?m ?p ready ?m' ?p'" "?f' = ?f" "?q' = ?q"
    | (freed) "w = OutstandingFreed" "polled k ?f ?q ready ?f' ?q'" "?m' = ?m" "?p' = ?p" "cs_streaming c"
    | (deleted) "w = SubscriptionDeleted" "ob' = ob"
    using poll k(3) notify_laws(8) [OF laws, of k "ob_notify_messages_available ob"]
      notify_laws(8) [OF laws, of k "ob_notify_outstanding_freed ob"]
    by (cases w) (auto simp: messages_available_poll_def outstanding_freed_poll_def deleted_poll_def
        consumer_branches_def split: prod.splits if_splits)
  note cases = this
  show keep: "observer_ok permit fut cs ob' \<and> (observer_supplied permit fut cs ob \<longrightarrow> observer_supplied permit fut cs ob')"
    if "\<not> ready \<or> w = SubscriptionDeleted"
  proof (cases rule: cases)
    case messages
    then show ?thesis using that polled_pending(1) [OF view k(1,2)] by (auto simp: observer_defs)
  next
    case freed
    then show ?thesis using that polled_pending(2) [OF view k(1,2)] \<open>freed_ok c (?f k)\<close>
      by (auto simp: observer_defs freed_ok_def)
  qed (use ok in simp)
  show "observer_others_ok permit fut k c cs ob'"
  proof (cases "ready \<and> w \<noteq> SubscriptionDeleted")
    case False
    then show ?thesis using keep observer_ok_others k(1) by blast
  next
    case True
    from cases show ?thesis
    proof cases
      case messages
      then have "others_ok k cs ?m' ?p' ?f ?q" using polled_ready(1) [OF view k(1,2)] True by simp
      then show ?thesis using messages freed by (auto simp: observer_others_ok_def freed_ok_def split: if_splits)
    next
      case freed
      then have "others_ok k cs ?m ?p ?f' ?q'" "?f' k = NoFuture"
        using polled_ready(2) [OF view k(1,2)] True \<open>freed_ok c (?f k)\<close> by (auto simp: freed_ok_def)
      then show ?thesis using freed by (simp add: observer_others_ok_def)
    qed (use True in simp)
  qed
qed

lemma select_keeps:
  assumes laws: "notify_documented api permit fut" and k: "cs k = Some c" "cs_phase c = Pulled"
    and "observer_ok permit fut cs ob" and "set order \<subseteq> set (consumer_branches c)"
    and "select_branches api k order ob = (r, ob')"
  shows "(r = None \<or> r = Some SubscriptionDeleted \<longrightarrow>
      observer_ok permit fut cs ob' \<and> (observer_supplied permit fut cs ob \<longrightarrow> observer_supplied permit fut cs ob'))
    \<and> observer_others_ok permit fut k c cs ob'"
  using assms(4-)
proof (induction order arbitrary: ob)
  case Nil
  then show ?case using observer_ok_others [of permit fut cs ob k c] k(1) by simp
next
  case (Cons w order)
  obtain ready ob1 where poll: "poll_branch api k w ob = (ready, ob1)" by fastforce
  have "w \<in> set (consumer_branches c)" using Cons.prems(2) by simp
  note keeps = poll_branch_keeps [OF laws Cons.prems(1) k this poll]
  show ?case
  proof (cases ready)
    case True
    then have "r = Some w" "ob' = ob1" using Cons.prems(3) poll by simp_all
    then show ?thesis using keeps by simp
  next
    case False
    then have rest: "select_branches api k order ob1 = (r, ob')" using Cons.prems(3) poll by simp
    have ok: "observer_ok permit fut cs ob1"
      "observer_supplied permit fut cs ob \<longrightarrow> observer_supplied permit fut cs ob1"
      using keeps(1) False by blast+
    show ?thesis using Cons.IH [OF ok(1) _ rest] Cons.prems(2) ok(2) by simp
  qed
qed

end
