(* ===== verification/Consumer_Sample.thy ===== *)
theory Consumer_Sample
  imports Consumer_Invariant
begin

text \<open>
  Concrete runs of the consumers of a subscription: an implementation of the notifier that keeps the
  documented promises, waking the waiting future with the smallest number first, and scripts of steps that
  are executed one after the other.
\<close>

section \<open>A notifier\<close>

definition future_at :: "future_state list \<Rightarrow> nat \<Rightarrow> future_state" where
  "future_at l k = (if k < length l then l ! k else NoFuture)"

definition put_future :: "nat \<Rightarrow> future_state \<Rightarrow> future_state list \<Rightarrow> future_state list" where
  "put_future k x l = (l @ replicate (Suc k - length l) NoFuture)[k := x]"

fun wake_first :: "bool \<times> future_state list \<Rightarrow> bool \<times> future_state list" where
  "wake_first (p, l) =
     (if Waiting \<in> set l then (p, l[length (takeWhile (\<lambda>x. x \<noteq> Waiting) l) := NotifiedOne]) else (True, l))"

fun poll_at :: "nat \<Rightarrow> bool \<times> future_state list \<Rightarrow> bool \<times> bool \<times> future_state list" where
  "poll_at k (p, l) =
     (case future_at l k of
        NoFuture \<Rightarrow> (False, p, l)
      | Unpolled \<Rightarrow> (p, False, put_future k (if p then NoFuture else Waiting) l)
      | Waiting \<Rightarrow> (False, p, l)
      | _ \<Rightarrow> (True, p, put_future k NoFuture l))"

fun drop_at :: "nat \<Rightarrow> bool \<times> future_state list \<Rightarrow> bool \<times> future_state list" where
  "drop_at k (p, l) =
     (if future_at l k = NotifiedOne then wake_first (p, put_future k NoFuture l)
      else (p, put_future k NoFuture l))"

definition list_notify :: "(bool \<times> future_state list) notify_api" where
  "list_notify =
     \<lparr>nf_new = (False, []),
      nf_notified = (\<lambda>k (p, l). (p, put_future k Unpolled l)),
      nf_poll = poll_at, nf_drop = drop_at, nf_notify_one = wake_first,
      nf_notify_waiters = (\<lambda>(p, l). (p, map (\<lambda>x. if x \<in> {Unpolled, Waiting} then NotifiedAll else x) l))\<rparr>"

abbreviation (input) list_futures :: "bool \<times> future_state list \<Rightarrow> nat \<Rightarrow> future_state" where
  "list_futures n \<equiv> future_at (snd n)"

lemma future_at_put [simp]: "future_at (put_future k x l) = (future_at l)(k := x)"
  by (rule ext) (auto simp: future_at_def put_future_def nth_append nth_list_update)

lemma future_at_map: "f NoFuture = NoFuture \<Longrightarrow> future_at (map f l) k = f (future_at l k)"
  by (simp add: future_at_def)

lemma future_at_waiting: "(\<exists>j. future_at l j = Waiting) \<longleftrightarrow> Waiting \<in> set l"
  by (auto simp: future_at_def in_set_conv_nth)

lemma wake_first_law:
  "one_woken (future_at l) p (future_at (snd (wake_first (p, l)))) (fst (wake_first (p, l)))"
proof (cases "Waiting \<in> set l")
  case True
  define j where "j = length (takeWhile (\<lambda>x. x \<noteq> Waiting) l)"
  have j: "j < length l" using True unfolding j_def by (induction l) auto
  moreover from this have "l ! j = Waiting" using nth_length_takeWhile [of "\<lambda>x. x \<noteq> Waiting" l] by (simp add: j_def)
  ultimately have "future_at l j = Waiting" "future_at (l[j := NotifiedOne]) = (future_at l)(j := NotifiedOne)"
    by (auto simp: future_at_def nth_list_update)
  then show ?thesis using True by (auto simp: one_woken_def j_def [symmetric])
qed (use future_at_waiting in \<open>auto simp: one_woken_def\<close>)

lemma list_notify_documented: "notify_documented list_notify fst list_futures"
  unfolding notify_documented_def
proof (intro conjI allI)
  fix n :: "bool \<times> future_state list" and k
  obtain p l where n: "n = (p, l)" by (cases n)
  show "one_woken (list_futures n) (fst n) (list_futures (nf_notify_one list_notify n))
      (fst (nf_notify_one list_notify n))"
    unfolding n list_notify_def using wake_first_law by simp
  show "polled k (list_futures n) (fst n) (fst (nf_poll list_notify k n))
      (list_futures (snd (nf_poll list_notify k n))) (fst (snd (nf_poll list_notify k n)))"
    by (auto simp: n list_notify_def polled_def split: future_state.split)
  show "dropped k (list_futures n) (fst n) (list_futures (nf_drop list_notify k n)) (fst (nf_drop list_notify k n))"
    using wake_first_law [of "put_future k NoFuture l" p] by (auto simp: n list_notify_def dropped_def)
  show "list_futures (nf_notify_waiters list_notify n) = all_woken (list_futures n)"
    by (rule ext) (simp add: n list_notify_def all_woken_def future_at_map)
qed (auto simp: list_notify_def future_at_def [of "[]"] split: prod.split)

section \<open>Scripts\<close>

datatype room_action =
  Arrives nat consumer | Subscribes nat | Pulls nat | Waits nat | Posts "topic_message list"

fun room_act ::
    "'n notify_api \<Rightarrow> (consumer \<Rightarrow> bool) \<Rightarrow> room_action \<Rightarrow> 'n waiting_room \<Rightarrow> 'n waiting_room option" where
  "room_act api admit (Arrives k c) s =
     (if wr_consumers s k = None \<and> admit c then Some (set_phase k c Looping s) else None)"
| "room_act api admit (Subscribes k) s =
     (case wr_consumers s k of
        None \<Rightarrow> None
      | Some c \<Rightarrow> if cs_phase c = Looping then Some (consumer_subscribe api k c s) else None)"
| "room_act api admit (Pulls k) s =
     (case wr_consumers s k of
        None \<Rightarrow> None
      | Some c \<Rightarrow>
          if cs_phase c = Subscribed \<and> \<not> stopped (wr_actor s) \<and> counters_have_room (wr_actor s)
          then Some (consumer_pull api sample_env k c s) else None)"
| "room_act api admit (Waits k) s =
     (case wr_consumers s k of
        None \<Rightarrow> None
      | Some c \<Rightarrow>
          if cs_phase c = Pulled then Some (consumer_wait api (consumer_branches c) k c s) else None)"
| "room_act api admit (Posts ms) s =
     (if \<not> stopped (wr_actor s) \<and> counters_have_room (wr_actor s)
      then Some (react api (actor_post_messages ms (wr_actor s)) s) else None)"

fun room_script ::
    "'n notify_api \<Rightarrow> (consumer \<Rightarrow> bool) \<Rightarrow> room_action list \<Rightarrow> 'n waiting_room \<Rightarrow> 'n waiting_room option" where
  "room_script api admit [] s = Some s"
| "room_script api admit (x # xs) s =
     (case room_act api admit x s of None \<Rightarrow> None | Some s' \<Rightarrow> room_script api admit xs s')"

lemma room_act_step:
  assumes "room_act api admit x s = Some s'"
  shows "consumer_step api admit s s'"
proof (cases x)
  case (Pulls k)
  then obtain c where c: "wr_consumers s k = Some c" "cs_phase c = Subscribed" "\<not> stopped (wr_actor s)"
    "counters_have_room (wr_actor s)" "s' = consumer_pull api sample_env k c s"
    using assms by (auto split: option.splits if_splits)
  have "event_ok (Request sample_env (consumer_request c)) (wr_actor s)"
    by (simp add: consumer_request_def)
  with c have "actor_step (wr_actor s) (Request sample_env (consumer_request c))
      (snd (receive sample_env (consumer_request c) (wr_actor s)))"
    by (intro actor_step.step) simp_all
  with c show ?thesis by (auto intro: consumer_step.pulls)
next
  case (Posts ms)
  then have "actor_step (wr_actor s) (Request sample_env (PostMessages ms)) (actor_post_messages ms (wr_actor s))"
    using assms by (intro actor_step.step) (auto split: if_splits)
  with assms Posts show ?thesis by (auto intro: consumer_step.event split: if_splits)
next
  case (Waits k)
  then show ?thesis
    using assms by (auto intro!: consumer_step.waits simp: consumer_branches_def split: option.splits if_splits)
qed (use assms in \<open>auto intro: consumer_step.intros split: option.splits if_splits\<close>)

lemma room_script_reachable:
  "room_script api admit xs s = Some s' \<Longrightarrow> room_reachable api admit s \<Longrightarrow> room_reachable api admit s'"
proof (induction xs arbitrary: s)
  case (Cons x xs)
  then obtain s1 where act: "room_act api admit x s = Some s1" "room_script api admit xs s1 = Some s'"
    by (auto split: option.splits)
  from Cons.prems(2) room_act_step [OF act(1)] have "room_reachable api admit s1"
    by (rule room_reachable.next_step)
  then show ?case by (rule Cons.IH [OF act(2)])
qed simp

fun acts_on :: "room_action \<Rightarrow> nat \<Rightarrow> bool" where
  "acts_on (Arrives k c) j \<longleftrightarrow> j = k"
| "acts_on (Subscribes k) j \<longleftrightarrow> j = k"
| "acts_on (Pulls k) j \<longleftrightarrow> j = k"
| "acts_on (Waits k) j \<longleftrightarrow> j = k"
| "acts_on (Posts ms) j \<longleftrightarrow> False"

lemma room_script_others:
  assumes "room_script api admit xs s = Some s'" and "\<forall>x \<in> set xs. \<not> acts_on x j"
  shows "wr_consumers s' j = wr_consumers s j"
proof -
  have one: "wr_consumers s' j = wr_consumers s j" if "room_act api admit x s = Some s'" "\<not> acts_on x j" for x s s'
    using that
    by (cases x) (auto simp: set_phase_def leave_def consumer_subscribe_def consumer_pull_def consumer_answer_def
        consumer_wait_def react_def split: option.splits if_splits prod.splits sum.splits wake_up.splits
        subscription_request.splits)
  show ?thesis using assms by (induction xs arbitrary: s) (auto simp: one split: option.splits)
qed

section \<open>Two runs\<close>

definition plain_info :: subscription_info where
  "plain_info = subscription_info_new_with_defaults (subscription_name_new ''p'' ''s'')"

definition plain_room :: "(bool \<times> future_state list) waiting_room" where
  "plain_room = waiting_room_new list_notify (actor_start 1 plain_info True)"

definition stream_with :: "u16 \<Rightarrow> consumer" where
  "stream_with limit =
     \<lparr>cs_streaming = True, cs_limit = limit, cs_return_immediately = False, cs_phase = Looping\<rparr>"

text \<open>Two streams with the limit one fall asleep, and a message is published.\<close>

definition woken_script :: "room_action list" where
  "woken_script =
     [Arrives 0 (stream_with 1), Subscribes 0, Pulls 0, Waits 0,
      Arrives 1 (stream_with 1), Subscribes 1, Pulls 1, Waits 1,
      Posts [sample_message 1 None]]"

text \<open>A stream with the limit one takes a message and falls asleep at its limit. While an unlimited stream
  has looked for messages and is about to wait, a second message is published.\<close>

definition stalled_script :: "room_action list" where
  "stalled_script =
     [Arrives 0 (stream_with 1), Posts [sample_message 1 None],
      Subscribes 0, Pulls 0, Waits 0, Subscribes 0, Pulls 0, Waits 0,
      Arrives 1 (stream_with 0), Subscribes 1, Pulls 1,
      Posts [sample_message 2 None],
      Waits 1, Waits 0, Subscribes 0, Pulls 0, Waits 0]"

end
