(* ===== verification/Consumer_Properties.thy ===== *)
theory Consumer_Properties
  imports Consumer_Invariant Consumer_Sample
begin

text \<open>
  No consumer is stranded: as long as all consumers of a subscription work with the same flow-control limit,
  messages that can be handed out never wait while every consumer sleeps. With different limits this
  fails: a stream at its limit takes the only wake-up and passes nothing on.
\<close>

section \<open>What the actor signals\<close>

text \<open>Whether a pull with this limit would get messages, apart from the backlog.\<close>

definition has_headroom :: "u16 \<Rightarrow> subscription_actor \<Rightarrow> bool" where
  "has_headroom mo a \<longleftrightarrow> mo = 0 \<or> of_nat (tracker_len (sa_outstanding a)) < mo"

definition deliverable :: "u16 \<Rightarrow> subscription_actor \<Rightarrow> bool" where
  "deliverable mo a \<longleftrightarrow> more_pending a \<and> \<not> sa_deleted a \<and> \<not> si_detached (sa_info a) \<and> has_headroom mo a"

abbreviation (input) emitted :: "subscription_actor \<Rightarrow> subscription_actor \<Rightarrow> actor_effect list" where
  "emitted a a' \<equiv> drop (length (sa_effects a)) (sa_effects a')"

lemma signals_emitted: "signals e a a' \<Longrightarrow> e \<in> set (emitted a a')"
  by (auto simp: signals_def)

lemma pull_capacity_zero:
  assumes "mc \<noteq> 0"
  shows "pull_capacity mc mo a = 0 \<longleftrightarrow> \<not> has_headroom mo a"
proof -
  have "0 < unat mc" using assms by (simp add: unat_gt_0)
  moreover have "mo = 0 \<longleftrightarrow> unat mo = 0" by (simp add: unat_eq_zero)
  ultimately show ?thesis
    by (auto simp: pull_capacity_def has_headroom_def Let_def bound_simps max_pull_count_def
        word_less_nat_alt)
qed

lemma event_deliverable:
  assumes reach: "actor_reachable a" and step: "actor_step a e a'"
    and after: "\<not> si_enable_message_ordering (sa_info a')" "deliverable mo a'"
  shows "NotifyNewMessagesAvailable \<in> set (emitted a a')
    \<or> mo \<noteq> 0 \<and> NotifyOutstandingFreed \<in> set (emitted a a')
    \<or> \<not> si_enable_message_ordering (sa_info a) \<and> deliverable mo a"
proof -
  have event: "handle_event e a = Some a'" using step by (auto elim: actor_step.cases)
  have "e \<noteq> Request env Delete" for env
    using event after(2) by (auto simp: deliverable_def actor_delete_def Let_def split: if_splits option.splits)
  from handle_event_quiet [OF event this]
  have same: "si_enable_message_ordering (sa_info a) = si_enable_message_ordering (sa_info a')"
    "sa_deleted a = sa_deleted a'" "si_detached (sa_info a) \<longrightarrow> si_detached (sa_info a')"
    by (auto simp: quiet_def)
  have pending: "more_pending a'" using after(2) by (simp add: deliverable_def)
  have unordered: "\<not> si_enable_message_ordering (sa_info a)" using same after(1) by simp
  from event_unordered [OF reachable_inv [OF reach] unordered event pending] show ?thesis
    using signals_emitted same after by (auto simp: deliverable_def has_headroom_def)
qed

lemma pull_deliverable:
  assumes pull: "actor_pull_messages env mc mo a = (r, a')" and "mc \<noteq> 0" and after: "deliverable mo a'"
  shows "NotifyNewMessagesAvailable \<in> set (emitted a a')"
proof -
  have "quiet a a'" using quiet_pull [of a env mc mo] pull by simp
  then have usable: "\<not> sa_deleted a" "\<not> si_detached (sa_info a)"
    using after by (auto simp: quiet_def deliverable_def)
  have "a' = a" if "pull_capacity mc mo a = 0"
    using that usable pull by (simp add: actor_pull_messages_def)
  then have "pull_capacity mc mo a \<noteq> 0"
    using after pull_capacity_zero [OF assms(2)] by (auto simp: deliverable_def)
  then show ?thesis
    using pull_resignals [OF pull _ usable] after signals_emitted by (simp add: deliverable_def)
qed

lemma stopped_deleted: "actor_reachable a \<Longrightarrow> stopped a \<Longrightarrow> sa_deleted a"
proof (induction rule: actor_reachable.induct)
  case (next_step a e a')
  then have a: "\<not> stopped a" "handle_event e a = Some a'" by (auto elim: actor_step.cases)
  show ?case
  proof (cases "\<exists>env. e = Request env Delete")
    case True
    then show ?thesis using a(2) by (auto simp: actor_delete_def Let_def split: option.splits)
  next
    case False
    with handle_event_quiet [OF a(2)] obtain es where
      "sa_effects a' = sa_effects a @ es" "list_all (quiet_effect (si_name (sa_info a))) es"
      by (auto simp: quiet_def)
    then show ?thesis using a(1) next_step.prems by (auto simp: stopped_def list_all_iff)
  qed
qed (simp add: stopped_def actor_start_def)

section \<open>The invariant\<close>

definition alike :: "u16 \<Rightarrow> consumer \<Rightarrow> bool" where
  "alike mo c \<longleftrightarrow> (\<exists>mc. mc \<noteq> 0 \<and> consumer_request c = PullMessages mc mo)"

definition room_inv ::
    "('n \<Rightarrow> bool) \<Rightarrow> ('n \<Rightarrow> nat \<Rightarrow> future_state) \<Rightarrow> u16 \<Rightarrow> 'n waiting_room \<Rightarrow> bool" where
  "room_inv permit fut mo s \<longleftrightarrow>
     actor_reachable (wr_actor s) \<and> (\<forall>c \<in> ran (wr_consumers s). alike mo c)
     \<and> observer_ok permit fut (wr_consumers s) (wr_observer s)
     \<and> (\<not> si_enable_message_ordering (sa_info (wr_actor s)) \<and> deliverable mo (wr_actor s)
        \<longrightarrow> observer_supplied permit fut (wr_consumers s) (wr_observer s))"

lemma alike_phase [simp]: "alike mo (c\<lparr>cs_phase := ph\<rparr>) = alike mo c"
  by (simp add: alike_def consumer_request_def)

lemma alike_streaming: "alike mo c \<Longrightarrow> mo \<noteq> 0 \<Longrightarrow> cs_streaming c"
  by (auto simp: alike_def consumer_request_def split: if_splits)

lemma ran_upd:
  "\<forall>c \<in> ran cs. P c \<Longrightarrow> P c' \<Longrightarrow> \<forall>c \<in> ran (cs(k \<mapsto> c')). P c"
  "\<forall>c \<in> ran cs. P c \<Longrightarrow> \<forall>c \<in> ran (cs(k := None)). P c"
  by (auto simp: ran_def)

text \<open>The steps that leave the actor alone.\<close>

lemma room_invI:
  assumes "room_inv permit fut mo s" and "wr_actor s' = wr_actor s"
    and "\<forall>c \<in> ran (wr_consumers s'). alike mo c" and "observer_ok permit fut (wr_consumers s') (wr_observer s')"
    and "observer_supplied permit fut (wr_consumers s) (wr_observer s)
      \<Longrightarrow> observer_supplied permit fut (wr_consumers s') (wr_observer s')"
  shows "room_inv permit fut mo s'"
  using assms by (auto simp: room_inv_def)

lemma room_inv_looping:
  assumes inv: "room_inv permit fut mo s" and c: "alike mo c" "ph \<noteq> Pulled"
    and ok: "observer_ok permit fut ((wr_consumers s)(k \<mapsto> c\<lparr>cs_phase := ph\<rparr>)) ob"
  shows "room_inv permit fut mo (set_phase k c ph (s\<lparr>wr_observer := ob\<rparr>))"
proof (rule room_invI [OF inv])
  show "\<forall>c' \<in> ran (wr_consumers (set_phase k c ph (s\<lparr>wr_observer := ob\<rparr>))). alike mo c'"
    using inv c ran_upd(1) [of "wr_consumers s" "alike mo" "c\<lparr>cs_phase := ph\<rparr>" k]
    by (simp add: set_phase_def room_inv_def)
  show "observer_supplied permit fut (wr_consumers (set_phase k c ph (s\<lparr>wr_observer := ob\<rparr>)))
      (wr_observer (set_phase k c ph (s\<lparr>wr_observer := ob\<rparr>)))"
    using c(2) by (intro observer_suppliedI(2) [of _ k "c\<lparr>cs_phase := ph\<rparr>"]) (simp_all add: set_phase_def)
qed (use ok in \<open>simp_all add: set_phase_def\<close>)

lemma room_inv_leave:
  assumes laws: "notify_documented api permit fut" and inv: "room_inv permit fut mo s"
    and c: "wr_consumers s k = Some c" "cs_phase c = Pulled"
  shows "room_inv permit fut mo (leave api k c s)"
proof (rule room_invI [OF inv])
  have ok: "observer_ok permit fut (wr_consumers s) (wr_observer s)" using inv by (simp add: room_inv_def)
  note keeps = unsubscribe_keeps [OF laws observer_ok_others [OF ok c(1)]]
  show "\<forall>c \<in> ran (wr_consumers (leave api k c s)). alike mo c"
    using inv ran_upd(2) [of "wr_consumers s" "alike mo" k] by (simp add: leave_def room_inv_def)
  show "observer_ok permit fut (wr_consumers (leave api k c s)) (wr_observer (leave api k c s))"
    using keeps(1) [of None] by (simp add: leave_def)
  show "observer_supplied permit fut (wr_consumers (leave api k c s)) (wr_observer (leave api k c s))"
    if "observer_supplied permit fut (wr_consumers s) (wr_observer s)"
    using keeps(3) [OF that c] by (simp add: leave_def)
qed (simp add: leave_def)

lemma room_inv_wait:
  assumes laws: "notify_documented api permit fut" and inv: "room_inv permit fut mo s"
    and c: "wr_consumers s k = Some c" "cs_phase c = Pulled"
    and order: "set order = set (consumer_branches c)"
  shows "room_inv permit fut mo (consumer_wait api order k c s)"
proof -
  have ok: "observer_ok permit fut (wr_consumers s) (wr_observer s)" and alike: "alike mo c"
    using inv c(1) by (auto simp: room_inv_def ran_def)
  obtain r ob where select: "select_branches api k order (wr_observer s) = (r, ob)" by fastforce
  note keeps = select_keeps [OF laws c ok equalityD1 [OF order] select]
  have pending: "room_inv permit fut mo (s\<lparr>wr_observer := ob\<rparr>)" if "r = None \<or> r = Some SubscriptionDeleted"
    using keeps that inv by (intro room_invI [OF inv]) (auto simp: room_inv_def)
  have looping: "room_inv permit fut mo (set_phase k c Looping (s\<lparr>wr_observer := unsubscribe api k c ob\<rparr>))"
    using unsubscribe_keeps(1) [OF laws, of k c "wr_consumers s" ob] keeps
    by (intro room_inv_looping [OF inv alike]) simp_all
  show ?thesis
    using select pending looping room_inv_leave [OF laws, of mo "s\<lparr>wr_observer := ob\<rparr>" k c] c
    by (auto simp: consumer_wait_def split: option.split wake_up.split)
qed

text \<open>The answer to a pull: the consumer may go to sleep or leave once the actor has signalled.\<close>

lemma answer_keeps:
  fixes r :: "pull_messages_error + pulled_message list"
  assumes laws: "notify_documented api permit fut"
    and ok: "observer_ok permit fut (wr_consumers s) (wr_observer s)"
    and c: "wr_consumers s k = Some c" "cs_phase c \<in> {Subscribed, Abandoned}"
  defines "s' \<equiv> consumer_answer api k c r s"
  shows "observer_ok permit fut (wr_consumers s') (wr_observer s')"
    and "observer_signalled permit fut (wr_observer s) \<Longrightarrow> observer_signalled permit fut (wr_observer s')"
    and "wr_actor s' = wr_actor s"
    and "\<forall>c \<in> ran (wr_consumers s). alike mo c \<Longrightarrow> \<forall>c \<in> ran (wr_consumers s'). alike mo c"
proof -
  note keeps = unsubscribe_keeps [OF laws observer_ok_others [OF ok c(1)]]
  let ?m = "fut (ob_notify_messages_available (wr_observer s))"
  let ?f = "fut (ob_notify_outstanding_freed (wr_observer s))"
  have view: "view_ok (wr_consumers s) ?m (permit (ob_notify_messages_available (wr_observer s)))
      ?f (permit (ob_notify_outstanding_freed (wr_observer s)))" using ok by (simp add: observer_ok_def)
  have slot: "slot_ok (Some c) (?m k) (?f k)" using view_ok_slot [OF view, of k] c(1) by simp
  have same: "observer_ok permit fut ((wr_consumers s)(k := x)) (wr_observer s)"
    if "slot_ok x (?m k) (?f k)" "?m k \<noteq> Waiting" for x
    unfolding observer_ok_def using that view
    by (intro view_ok_upd [OF view_ok_others [OF view]]) (auto simp: view_ok_def)
  consider (gone) "cs_phase c = Abandoned" "s' = s\<lparr>wr_consumers := (wr_consumers s)(k := None)\<rparr>"
    | (leaves) "s' = leave api k c s"
    | (waits) "cs_phase c = Subscribed" "s' = set_phase k c Pulled s"
  proof (cases "cs_phase c = Abandoned")
    case True
    then show thesis using gone by (simp add: s'_def consumer_answer_def)
  next
    case False
    then have "s' = leave api k c s \<or> s' = set_phase k c Pulled s"
      by (auto simp: s'_def consumer_answer_def split: sum.split)
    then show thesis using leaves waits False c(2) by auto
  qed
  note cases = this
  have alike: "alike mo c" if "\<forall>c \<in> ran (wr_consumers s). alike mo c" using that c(1) by (auto simp: ran_def)
  show "observer_ok permit fut (wr_consumers s') (wr_observer s')"
  proof (cases rule: cases)
    case gone
    then show ?thesis using same [of None] slot by simp
  next
    case leaves
    then show ?thesis using keeps(1) [of None] by (simp add: leave_def)
  next
    case waits
    then show ?thesis using same [of "Some (c\<lparr>cs_phase := Pulled\<rparr>)"] slot by (auto simp: set_phase_def freed_ok_def)
  qed
  show "observer_signalled permit fut (wr_observer s')" if "observer_signalled permit fut (wr_observer s)"
    using that keeps(2) by (cases rule: cases) (simp_all add: leave_def set_phase_def)
  show "wr_actor s' = wr_actor s" by (cases rule: cases) (simp_all add: leave_def set_phase_def)
  have "wr_consumers s' = (wr_consumers s)(k := None)
      \<or> wr_consumers s' = (wr_consumers s)(k \<mapsto> c\<lparr>cs_phase := Pulled\<rparr>)"
    by (cases rule: cases) (simp_all add: leave_def set_phase_def)
  then show "\<forall>c \<in> ran (wr_consumers s'). alike mo c" if all: "\<forall>c \<in> ran (wr_consumers s). alike mo c"
    using ran_upd(1) [OF all, of "c\<lparr>cs_phase := Pulled\<rparr>" k] ran_upd(2) [OF all, of k] alike [OF all]
    by (elim disjE) simp_all
qed

lemma react_fields [simp]:
  "wr_actor (react api a s) = a" "wr_consumers (react api a s) = wr_consumers s"
  "wr_observer (react api a s) = fold (observe api) (emitted (wr_actor s) a) (wr_observer s)"
  by (simp_all add: react_def)

lemma room_inv_event:
  assumes laws: "notify_documented api permit fut" and inv: "room_inv permit fut mo s"
    and step: "actor_step (wr_actor s) e a"
  shows "room_inv permit fut mo (react api a s)"
proof -
  have parts: "actor_reachable (wr_actor s)" "\<forall>c \<in> ran (wr_consumers s). alike mo c"
    "observer_ok permit fut (wr_consumers s) (wr_observer s)" using inv by (auto simp: room_inv_def)
  note keeps = observe_all_keeps [OF laws]
  have "observer_supplied permit fut (wr_consumers s) (wr_observer (react api a s))"
    if after: "\<not> si_enable_message_ordering (sa_info a)" "deliverable mo a"
    using event_deliverable [OF parts(1) step after]
  proof (elim disjE conjE)
    assume "NotifyNewMessagesAvailable \<in> set (emitted (wr_actor s) a)"
    then show ?thesis unfolding react_fields by (intro observer_suppliedI(1) keeps(2)) simp
  next
    assume "mo \<noteq> 0" "NotifyOutstandingFreed \<in> set (emitted (wr_actor s) a)"
    then show ?thesis using keeps(4) [OF parts(3)] parts(2) alike_streaming by auto
  next
    assume "\<not> si_enable_message_ordering (sa_info (wr_actor s))" "deliverable mo (wr_actor s)"
    then show ?thesis using keeps(3) inv by (auto simp: room_inv_def)
  qed
  moreover have "actor_reachable a" using parts(1) step by (rule actor_reachable.next_step)
  ultimately show ?thesis using parts keeps(1) by (auto simp: room_inv_def)
qed

lemma room_inv_pull:
  assumes laws: "notify_documented api permit fut" and inv: "room_inv permit fut mo s"
    and c: "wr_consumers s k = Some c" "cs_phase c \<in> {Subscribed, Abandoned}"
    and step: "actor_step (wr_actor s) (Request env (consumer_request c)) a"
  shows "room_inv permit fut mo (consumer_pull api env k c s)"
proof -
  have "alike mo c" using inv c(1) by (auto simp: room_inv_def ran_def)
  then obtain mc where mc: "mc \<noteq> 0" "consumer_request c = PullMessages mc mo" by (auto simp: alike_def)
  then obtain r where pull: "actor_pull_messages env mc mo (wr_actor s) = (r, a)"
    using step by (cases "actor_pull_messages env mc mo (wr_actor s)") (auto elim!: actor_step.cases)
  have reacted: "room_inv permit fut mo (react api a s)" by (rule room_inv_event [OF laws inv step])
  then have ok: "observer_ok permit fut (wr_consumers (react api a s)) (wr_observer (react api a s))"
    by (simp add: room_inv_def)
  have "wr_consumers (react api a s) k = Some c" using c(1) by simp
  note answer = answer_keeps [OF laws ok this c(2), where r = r]
  have "observer_signalled permit fut (wr_observer (react api a s))" if "deliverable mo a"
    using pull_deliverable [OF pull mc(1) that] observe_all_keeps(2) [OF laws] by simp
  then show ?thesis
    using answer reacted pull mc(2) observer_suppliedI(1)
    by (auto simp: consumer_pull_def room_inv_def)
qed

lemma room_inv_closed:
  assumes laws: "notify_documented api permit fut" and inv: "room_inv permit fut mo s"
    and c: "wr_consumers s k = Some c" "cs_phase c \<in> {Subscribed, Abandoned}"
    and "stopped (wr_actor s)"
  shows "room_inv permit fut mo (consumer_answer api k c r s)"
proof -
  have stopped: "sa_deleted (wr_actor s)" using inv stopped_deleted assms(5) by (auto simp: room_inv_def)
  have "observer_ok permit fut (wr_consumers s) (wr_observer s)" using inv by (simp add: room_inv_def)
  note answer = answer_keeps [OF laws this c, where r = r]
  show ?thesis using answer inv stopped by (auto simp: room_inv_def deliverable_def)
qed

lemma room_inv_step:
  assumes laws: "notify_documented api permit fut" and admit: "\<And>c. admit c \<Longrightarrow> alike mo c"
    and step: "consumer_step api admit s s'" and inv: "room_inv permit fut mo s"
  shows "room_inv permit fut mo s'"
  using step inv
proof (induction rule: consumer_step.induct)
  case (arrive s k c)
  have ok: "observer_ok permit fut (wr_consumers s) (wr_observer s)" using arrive.prems by (simp add: room_inv_def)
  then have "slot_ok None (fut (ob_notify_messages_available (wr_observer s)) k)
      (fut (ob_notify_outstanding_freed (wr_observer s)) k)"
    using view_ok_slot arrive(1) by (metis observer_ok_def)
  then have "observer_ok permit fut ((wr_consumers s)(k \<mapsto> c\<lparr>cs_phase := Looping\<rparr>)) (wr_observer s)"
    using ok unfolding observer_ok_def
    by (intro view_ok_upd [OF view_ok_others [OF ok [unfolded observer_ok_def]]]) (auto simp: view_ok_def)
  from room_inv_looping [OF arrive.prems admit [OF arrive(2)] _ this] show ?case by simp
next
  case (subscribes s k c)
  have c: "alike mo c" "observer_ok permit fut (wr_consumers s) (wr_observer s)"
    using subscribes by (auto simp: room_inv_def ran_def)
  from subscribe_keeps [OF laws c(2) subscribes(1,2)] c(1) show ?case
    unfolding consumer_subscribe_def by (intro room_inv_looping [OF subscribes.prems]) simp_all
next
  case (pulls s k c env a)
  then show ?case by (intro room_inv_pull [OF laws])
next
  case (closed s k c)
  then show ?case by (intro room_inv_closed [OF laws])
next
  case (waits s k c order)
  then show ?case by (intro room_inv_wait [OF laws])
next
  case (abandons s k c)
  have c: "alike mo c" "observer_ok permit fut (wr_consumers s) (wr_observer s)"
    using abandons by (auto simp: room_inv_def ran_def)
  show ?case
    unfolding consumer_abandon_def
    using unsubscribe_keeps(1) [OF laws observer_ok_others [OF c(2) abandons(1)]]
    by (intro room_inv_looping [OF abandons.prems c(1)]) simp_all
next
  case (cancels s k c)
  then show ?case by (intro room_inv_leave [OF laws])
next
  case (event s e a)
  then show ?case by (intro room_inv_event [OF laws])
qed

lemma room_reachable_inv:
  assumes laws: "notify_documented api permit fut" and admit: "\<And>c. admit c \<Longrightarrow> alike mo c"
  shows "room_reachable api admit s \<Longrightarrow> room_inv permit fut mo s"
proof (induction rule: room_reachable.induct)
  case (start i info tm)
  then show ?case
    using notify_laws(1,2) [OF laws] actor_reachable.start
    by (simp add: room_inv_def waiting_room_new_def observer_new_def observer_defs view_ok_def supplied_def)
next
  case (next_step s s')
  then show ?case using room_inv_step [OF laws admit] by blast
qed

section \<open>The end of a wait\<close>

text \<open>A branch that is ready ends the wait, whatever is polled before it.\<close>

lemma polled_becomes_ready:
  assumes "polled k m p ready m' p'"
  shows "m k \<in> {NotifiedOne, NotifiedAll} \<or> m k = Unpolled \<and> p \<Longrightarrow> ready"
  using assms by (cases "m k") (auto simp: polled_def)

lemma select_ready:
  assumes laws: "notify_documented api permit fut"
  shows "MessagesAvailable \<in> set order \<Longrightarrow>
      fut (ob_notify_messages_available ob) k \<in> {NotifiedOne, NotifiedAll}
      \<or> fut (ob_notify_messages_available ob) k = Unpolled \<and> permit (ob_notify_messages_available ob)
      \<Longrightarrow> fst (select_branches api k order ob) \<noteq> None"
    and "OutstandingFreed \<in> set order \<Longrightarrow> fut (ob_notify_outstanding_freed ob) k = NotifiedAll
      \<Longrightarrow> fst (select_branches api k order ob) \<noteq> None"
proof -
  have ready: "fut n k \<in> {NotifiedOne, NotifiedAll} \<or> fut n k = Unpolled \<and> permit n \<Longrightarrow> fst (nf_poll api k n)" for n
    by (rule polled_becomes_ready [OF notify_laws(8) [OF laws]])
  note polls = messages_available_poll_def outstanding_freed_poll_def deleted_poll_def
  show "fst (select_branches api k order ob) \<noteq> None"
    if "MessagesAvailable \<in> set order" "fut (ob_notify_messages_available ob) k \<in> {NotifiedOne, NotifiedAll}
      \<or> fut (ob_notify_messages_available ob) k = Unpolled \<and> permit (ob_notify_messages_available ob)"
    using that
  proof (induction order arbitrary: ob)
    case (Cons w order)
    then show ?case
      using ready [of "ob_notify_messages_available ob"]
      by (cases w) (auto simp: polls split_beta split: bool.split)
  qed simp
  show "fst (select_branches api k order ob) \<noteq> None"
    if "OutstandingFreed \<in> set order" "fut (ob_notify_outstanding_freed ob) k = NotifiedAll"
    using that
  proof (induction order arbitrary: ob)
    case (Cons w order)
    then show ?case
      using ready [of "ob_notify_outstanding_freed ob"]
      by (cases w) (auto simp: polls split_beta split: bool.split)
  qed simp
qed

lemma woken_on_its_way:
  assumes laws: "notify_documented api permit fut" and inv: "room_inv permit fut mo s"
    and k: "wr_consumers s k = Some c"
    and woken: "woken (wr_consumers s) (fut (ob_notify_messages_available (wr_observer s)))
        (fut (ob_notify_outstanding_freed (wr_observer s))) k
      \<or> permit (ob_notify_messages_available (wr_observer s))"
  shows "on_its_way api s k"
proof (cases "cs_phase c = Pulled")
  case True
  let ?m = "fut (ob_notify_messages_available (wr_observer s)) k"
  let ?f = "fut (ob_notify_outstanding_freed (wr_observer s)) k"
  have view: "view_ok (wr_consumers s) (fut (ob_notify_messages_available (wr_observer s)))
      (permit (ob_notify_messages_available (wr_observer s))) (fut (ob_notify_outstanding_freed (wr_observer s)))
      (permit (ob_notify_outstanding_freed (wr_observer s)))" using inv by (simp add: room_inv_def observer_ok_def)
  have slot: "?m \<noteq> NoFuture" "freed_ok c ?f" using view_ok_slot [OF view, of k] k True by simp_all
  have "?m \<in> {NotifiedOne, NotifiedAll} \<or> ?m = Unpolled \<and> permit (ob_notify_messages_available (wr_observer s))
      \<or> ?f = NotifiedAll"
    using woken k True slot(1) view by (cases ?m) (auto simp: woken_def view_ok_def)
  moreover have "?f = NotifiedAll \<Longrightarrow> cs_streaming c" using slot(2) by (auto simp: freed_ok_def split: if_splits)
  ultimately have "fst (select_branches api k order (wr_observer s)) \<noteq> None"
    if "set order = set (consumer_branches c)" for order
    using select_ready [OF laws, where order = order and ob = "wr_observer s" and k = k] that by (auto simp: consumer_branches_def)
  then show ?thesis using k by (simp add: on_its_way_def)
qed (use k in \<open>simp add: on_its_way_def\<close>)



section \<open>Different limits\<close>

lemma select_waiting:
  assumes laws: "notify_documented api permit fut"
    and "fut (ob_notify_messages_available ob) k = Waiting" "fut (ob_notify_outstanding_freed ob) k = Waiting"
    and "\<not> ob_deleted_recv ob"
  shows "fst (select_branches api k order ob) = None"
  using assms(2-)
proof (induction order arbitrary: ob)
  case (Cons w order)
  have pending: "\<not> fst (nf_poll api k n) \<and> fut (snd (nf_poll api k n)) k = Waiting" if "fut n k = Waiting" for n
    using notify_laws(8) [OF laws, of k n] that by (simp add: polled_def)
  show ?case
    using Cons.prems pending [OF Cons.prems(1)] pending [OF Cons.prems(2)] Cons.IH
    by (cases w) (auto simp: messages_available_poll_def outstanding_freed_poll_def deleted_poll_def split_beta
        split: bool.split)
qed simp

text \<open>
  C9. Streams with different limits can be stranded: a reachable state in which a message can be handed out, an
  unlimited stream waits, and nobody is on its way. The only wake-up went to a stream at its limit, whose
  pull gets nothing and, since its capacity is zero, passes no wake-up on.
\<close>

theorem limited_stream_swallows_wakeup:
  "\<exists>s. room_reachable list_notify (\<lambda>c. True) s \<and> \<not> si_enable_message_ordering (sa_info (wr_actor s))
     \<and> deliverable 0 (wr_actor s) \<and> (\<exists>c. wr_consumers s 1 = Some c \<and> cs_limit c = 0 \<and> cs_phase c = Pulled)
     \<and> (\<forall>j. \<not> on_its_way list_notify s j)"
proof -
  let ?run = "room_script list_notify (\<lambda>c. True) stalled_script plain_room"
  let ?asleep = "\<lambda>s k. (case wr_consumers s k of None \<Rightarrow> False | Some c \<Rightarrow> cs_phase c = Pulled)
    \<and> list_futures (ob_notify_messages_available (wr_observer s)) k = Waiting
    \<and> list_futures (ob_notify_outstanding_freed (wr_observer s)) k = Waiting"
  have "case ?run of None \<Rightarrow> False | Some s \<Rightarrow> more_pending (wr_actor s) \<and> \<not> sa_deleted (wr_actor s)
      \<and> \<not> si_detached (sa_info (wr_actor s)) \<and> \<not> si_enable_message_ordering (sa_info (wr_actor s))
      \<and> map_option cs_limit (wr_consumers s 1) = Some 0
      \<and> \<not> ob_deleted_recv (wr_observer s) \<and> ?asleep s 0 \<and> ?asleep s 1"
    by code_simp
  then obtain s where s: "?run = Some s" "deliverable 0 (wr_actor s)"
    "\<not> si_enable_message_ordering (sa_info (wr_actor s))"
    "\<exists>c. wr_consumers s 1 = Some c \<and> cs_limit c = 0 \<and> cs_phase c = Pulled"
    "\<not> ob_deleted_recv (wr_observer s)" "?asleep s 0" "?asleep s 1"
    by (auto simp: deliverable_def has_headroom_def split: option.splits)
  have stalled: "\<not> on_its_way list_notify s k" if "?asleep s k" for k
    using that select_waiting [OF list_notify_documented _ _ s(5), of k]
    by (auto simp: on_its_way_def split: option.splits)
  have "\<not> on_its_way list_notify s j" for j
  proof (cases "j \<in> {0, 1}")
    case True
    then show ?thesis using stalled s(6,7) by auto
  next
    case False
    then have "wr_consumers s j = None"
      using room_script_others [OF s(1), of j]
      by (simp add: stalled_script_def plain_room_def waiting_room_new_def)
    then show ?thesis by (simp add: on_its_way_def)
  qed
  moreover have "room_reachable list_notify (\<lambda>c. True) plain_room"
    unfolding plain_room_def by (rule room_reachable.start)
  ultimately show ?thesis using room_script_reachable [OF s(1)] s(2-4) by blast
qed

end
