(* ===== verification/Float64.thy ===== *)
theory Float64
  imports Strings Time_Format
begin

text \<open>
  The part of Rust's \<^verbatim>\<open>f64\<close> that the metrics use: conversion from integers, addition and division with
  rounding to the nearest double (ties to even), comparison with literals, and the two ways of printing
  a double, with a fixed number of decimals and with the fewest digits that read back as the same double.

  Every double that occurs is non-negative and either zero, infinite, or between \<open>10 ^ -9\<close> and
  \<open>2 ^ 64\<close>, so it is a multiple of \<open>2 ^ -128\<close>; \<open>Finite n\<close> is \<open>n * 2 ^ -128\<close>. A value in that range has 53
  significant bits, which is what \<open>f64_nearest\<close> rounds to.
\<close>

section \<open>Rounding\<close>

datatype f64 = Finite nat | Infinity

definition f64_one :: nat where
  "f64_one = 2 ^ 128"

text \<open>The integer nearest to \<open>n / d\<close>, the even one of two.\<close>

definition round_even :: "nat \<Rightarrow> nat \<Rightarrow> nat" where
  "round_even n d =
     (let q = n div d; r = n mod d
      in if 2 * r < d then q else if d < 2 * r then q + 1 else if even q then q else q + 1)"

fun bit_length :: "nat \<Rightarrow> nat" where
  "bit_length n = (if n = 0 then 0 else Suc (bit_length (n div 2)))"

declare bit_length.simps [simp del]

text \<open>The double nearest to \<open>n / d\<close>.\<close>

definition f64_nearest :: "nat \<Rightarrow> nat \<Rightarrow> nat" where
  "f64_nearest n d =
     (let e = bit_length (n * f64_one div d) - 53
      in round_even (n * f64_one) (d * 2 ^ e) * 2 ^ e)"

fun f64_le :: "f64 \<Rightarrow> f64 \<Rightarrow> bool" where
  "f64_le (Finite m) (Finite n) \<longleftrightarrow> m \<le> n"
| "f64_le (Finite m) Infinity \<longleftrightarrow> True"
| "f64_le Infinity (Finite n) \<longleftrightarrow> False"
| "f64_le Infinity Infinity \<longleftrightarrow> True"

definition f64_of_nat :: "nat \<Rightarrow> nat" where
  "f64_of_nat n = f64_nearest n 1"

definition f64_add :: "nat \<Rightarrow> nat \<Rightarrow> nat" where
  "f64_add x y = f64_nearest (x + y) f64_one"

definition f64_div :: "nat \<Rightarrow> nat \<Rightarrow> nat" where
  "f64_div x y = f64_nearest x y"

text \<open>\<^verbatim>\<open>Duration::as_secs_f64\<close>.\<close>

definition as_secs_f64 :: "duration \<Rightarrow> nat" where
  "as_secs_f64 d =
     f64_add (f64_of_nat (as_secs d))
       (f64_div (f64_of_nat (subsec_nanos d)) (f64_of_nat nanos_per_sec))"

section \<open>Printing\<close>

text \<open>The digits of \<open>v / 10 ^ k\<close>, and \<^verbatim>\<open>format!("{:.k}", x)\<close>.\<close>

definition decimal_string :: "nat \<Rightarrow> nat \<Rightarrow> string" where
  "decimal_string k v =
     show_nat (v div 10 ^ k) @ (if k = 0 then [] else ''.'' @ pad_zero k (v mod 10 ^ k))"

definition format_fixed :: "nat \<Rightarrow> nat \<Rightarrow> string" where
  "format_fixed k x = decimal_string k (round_even (x * 10 ^ k) f64_one)"

text \<open>\<^verbatim>\<open>format!("{}", x)\<close>: the fewest decimals that read back as \<open>x\<close>. A double of the range above needs
  at most 26 of them.\<close>

fun decimals_needed :: "nat \<Rightarrow> nat \<Rightarrow> nat \<Rightarrow> nat" where
  "decimals_needed 0 k x = k"
| "decimals_needed (Suc fuel) k x =
     (if f64_nearest (round_even (x * 10 ^ k) f64_one) (10 ^ k) = x then k
      else decimals_needed fuel (Suc k) x)"

fun f64_display :: "f64 \<Rightarrow> string" where
  "f64_display (Finite x) = format_fixed (decimals_needed 26 0 x) x"
| "f64_display Infinity = ''inf''"

section \<open>Rounding is monotone\<close>

lemma round_even_bounds:
  assumes "0 < d" and "k = round_even n d"
  shows "2 * k * d \<le> 2 * n + d" and "2 * n \<le> 2 * k * d + d"
    and "2 * k * d = 2 * n + d \<Longrightarrow> even k" and "2 * n = 2 * k * d + d \<Longrightarrow> even k"
proof -
  let ?q = "n div d" and ?r = "n mod d"
  have n: "2 * n = 2 * (?q * d) + 2 * ?r"
    by (metis add_mult_distrib2 div_mult_mod_eq mult.assoc mult.commute)
  have r: "?r < d" using assms(1) by simp
  consider (down) "2 * ?r < d" "k = ?q" | (up) "d < 2 * ?r" "k = ?q + 1"
    | (tie) "2 * ?r = d" "k = (if even ?q then ?q else ?q + 1)"
    using assms(2) by (fastforce simp: round_even_def Let_def split: if_splits)
  then have "2 * k * d \<le> 2 * n + d \<and> 2 * n \<le> 2 * k * d + d
      \<and> (2 * k * d = 2 * n + d \<longrightarrow> even k) \<and> (2 * n = 2 * k * d + d \<longrightarrow> even k)"
  proof cases
    case down
    moreover have "2 * k * d = 2 * (?q * d)" by (simp add: down)
    ultimately show ?thesis using n r by linarith
  next
    case up
    have "2 * k * d = 2 * (?q * d) + 2 * d" by (simp add: up algebra_simps)
    then show ?thesis using n up r by linarith
  next
    case tie
    have "even k" using tie by auto
    moreover have "2 * n = 2 * (?q * d) + d" using n tie(1) by linarith
    moreover have "2 * k * d = 2 * (?q * d) \<or> 2 * k * d = 2 * (?q * d) + 2 * d"
      using tie(2) by (auto simp: algebra_simps)
    ultimately show ?thesis by linarith
  qed
  then show "2 * k * d \<le> 2 * n + d" "2 * n \<le> 2 * k * d + d"
    "2 * k * d = 2 * n + d \<Longrightarrow> even k" "2 * n = 2 * k * d + d \<Longrightarrow> even k" by blast+
qed

lemma round_even_exact [simp]: "0 < d \<Longrightarrow> round_even (k * d) d = k"
  by (simp add: round_even_def)

lemma round_even_mono:
  assumes "0 < d" and "0 < d'" and le: "n * d' \<le> n' * d"
  shows "round_even n d \<le> round_even n' d'"
proof (rule ccontr)
  define k k' where "k = round_even n d" and "k' = round_even n' d'"
  note b = round_even_bounds [OF assms(1) k_def] and b' = round_even_bounds [OF assms(2) k'_def]
  assume "\<not> ?thesis"
  then have "k' + 1 \<le> k" by (simp add: k_def k'_def)
  then have step: "(2 * k' + 2) * (d * d') \<le> 2 * k * (d * d')" by (intro mult_right_mono) auto
  have lo: "2 * k * (d * d') \<le> 2 * (n * d') + d * d'"
    using mult_right_mono [OF b(1), of d'] by (simp add: algebra_simps)
  have hi: "2 * (n' * d) \<le> 2 * k' * (d * d') + d * d'"
    using mult_right_mono [OF b'(2), of d] by (simp add: algebra_simps)
  have "(2 * k' + 2) * (d * d') = 2 * k' * (d * d') + 2 * (d * d')" by (simp add: algebra_simps)
  with step lo hi le have tight: "2 * k * (d * d') = 2 * (n * d') + d * d'"
      "2 * (n' * d) = 2 * k' * (d * d') + d * d'" "(2 * k' + 2) * (d * d') = 2 * k * (d * d')"
    by linarith+
  have "d' * (2 * k * d) = d' * (2 * n + d)" "d * (2 * n') = d * (2 * k' * d' + d')"
    using tight(1,2) by (simp_all add: algebra_simps)
  then have "even k" "even k'"
    using b(3) b'(4) assms(1,2) by simp_all
  moreover have "2 * k' + 2 = 2 * k"
    using tight(3) assms(1,2) by (metis mult_eq_0_iff mult_right_cancel not_less_zero)
  ultimately show False by presburger
qed

lemma bit_length_upper: "n < 2 ^ bit_length n"
proof (induction n rule: bit_length.induct)
  case (1 n)
  then show ?case by (cases "n = 0") (simp_all add: bit_length.simps [of n])
qed

lemma bit_length_lower: "0 < n \<Longrightarrow> 2 ^ (bit_length n - 1) \<le> n"
proof (induction n rule: bit_length.induct)
  case (1 n)
  show ?case
  proof (cases "n div 2 = 0")
    case True
    with 1(2) have "n = 1" by simp
    then show ?thesis by (simp add: bit_length.simps)
  next
    case False
    then have "2 ^ (bit_length (n div 2) - 1) \<le> n div 2" using 1 by simp
    moreover have "0 < bit_length (n div 2)" using False by (subst bit_length.simps) simp
    moreover have "bit_length n = Suc (bit_length (n div 2))" using 1(2) by (subst bit_length.simps) simp
    ultimately show ?thesis by (cases "bit_length (n div 2)") simp_all
  qed
qed

lemma bit_length_mono: "m \<le> n \<Longrightarrow> bit_length m \<le> bit_length n"
proof (induction n arbitrary: m rule: bit_length.induct)
  case (1 n)
  then show ?case
    by (cases "m = 0"; cases "n = 0")
      (simp_all add: bit_length.simps [of m] bit_length.simps [of n] bit_length.simps [of 0] div_le_mono)
qed

text \<open>Larger steps, to evaluate the length of a given number.\<close>

lemma bit_length_shift: "2 ^ k \<le> n \<Longrightarrow> bit_length n = k + bit_length (n div 2 ^ k)"
proof (induction k arbitrary: n)
  case (Suc k)
  then have "2 ^ k \<le> n div 2" by simp
  moreover have "bit_length n = Suc (bit_length (n div 2))" using Suc.prems
    by (subst bit_length.simps) (auto intro: gr0I)
  ultimately show ?case using Suc.IH [of "n div 2"] by (simp add: div_mult2_eq)
qed simp

lemma bit_length_steps:
  "bit_length n = (if 2 ^ 64 \<le> n then 64 + bit_length (n div 2 ^ 64)
     else if 2 ^ 8 \<le> n then 8 + bit_length (n div 2 ^ 8)
     else if n = 0 then 0 else Suc (bit_length (n div 2)))"
  using bit_length_shift [of 64 n] bit_length_shift [of 8 n] bit_length.simps [of n] by simp

lemma f64_nearest_mono:
  assumes "0 < d" and "0 < d'" and le: "n * d' \<le> n' * d"
  shows "f64_nearest n d \<le> f64_nearest n' d'"
proof -
  define N N' where "N = n * f64_one" and "N' = n' * f64_one"
  define e e' where "e = bit_length (N div d) - 53" and "e' = bit_length (N' div d') - 53"
  have lhs: "f64_nearest n d = round_even N (d * 2 ^ e) * 2 ^ e"
    and rhs: "f64_nearest n' d' = round_even N' (d' * 2 ^ e') * 2 ^ e'"
    by (simp_all add: f64_nearest_def Let_def N_def N'_def e_def e'_def)
  have scaled: "N * d' \<le> N' * d" using le by (simp add: N_def N'_def mult.commute mult.left_commute)
  have "N div d * d * d' \<le> N' * d"
    by (rule order_trans [OF mult_right_mono scaled]) (simp_all add: div_times_less_eq_dividend)
  then have "N div d * d' \<le> N'" using assms(1) by (simp add: mult.commute mult.left_commute)
  then have quot: "N div d \<le> N' div d'" using assms(2) by (simp add: less_eq_div_iff_mult_less_eq)
  then have "e \<le> e'" unfolding e_def e'_def by (intro diff_le_mono bit_length_mono)
  then consider "e = e'" | "e < e'" by linarith
  then show ?thesis
  proof cases
    case 1
    have "N * (d' * 2 ^ e) \<le> N' * (d * 2 ^ e)" using scaled by (simp add: mult.commute mult.left_commute)
    then have "round_even N (d * 2 ^ e) \<le> round_even N' (d' * 2 ^ e)"
      using assms(1,2) by (intro round_even_mono) simp_all
    then show ?thesis using 1 unfolding lhs rhs by simp
  next
    case 2
    have "bit_length (N div d) \<le> e + 53" by (simp add: e_def)
    then have "(2::nat) ^ bit_length (N div d) \<le> 2 ^ (e + 53)" by (intro power_increasing) simp_all
    with bit_length_upper [of "N div d"] have "N div d < 2 ^ (e + 53)" by linarith
    then have "N \<le> 2 ^ 53 * (d * 2 ^ e)"
      using assms(1) by (simp add: div_less_iff_less_mult power_add mult.commute mult.left_commute)
    then have "round_even N (d * 2 ^ e) \<le> round_even (2 ^ 53 * (d * 2 ^ e)) (d * 2 ^ e)"
      using assms(1) by (intro round_even_mono mult_right_mono) simp_all
    then have "f64_nearest n d \<le> 2 ^ 53 * 2 ^ e"
      unfolding lhs using assms(1) by (intro mult_right_mono) simp_all
    also have "\<dots> = 2 ^ (53 + e)" by (simp only: power_add)
    also have "\<dots> \<le> 2 ^ (52 + e')" using 2 by (intro power_increasing) simp_all
    also have "\<dots> = 2 ^ 52 * 2 ^ e'" by (simp only: power_add)
    also have "\<dots> \<le> f64_nearest n' d'"
    proof -
      have len: "bit_length (N' div d') = e' + 53" using 2 by (simp add: e'_def)
      then have "0 < N' div d'" by (metis add_is_0 bit_length.simps gr0I zero_neq_numeral)
      from bit_length_lower [OF this] len have "2 ^ (e' + 52) \<le> N' div d'" by (simp add: add.commute)
      then have "2 ^ 52 * (d' * 2 ^ e') \<le> N'"
        using assms(2) by (simp add: less_eq_div_iff_mult_less_eq power_add mult.commute mult.left_commute)
      then have "round_even (2 ^ 52 * (d' * 2 ^ e')) (d' * 2 ^ e') \<le> round_even N' (d' * 2 ^ e')"
        using assms(2) by (intro round_even_mono mult_right_mono) simp_all
      then show ?thesis unfolding rhs using assms(2) by (intro mult_right_mono) simp_all
    qed
    finally show ?thesis .
  qed
qed

text \<open>The double of a fraction does not depend on how the fraction is written.\<close>

lemma f64_nearest_cong:
  "0 < d \<Longrightarrow> 0 < d' \<Longrightarrow> n * d' = n' * d \<Longrightarrow> f64_nearest n d = f64_nearest n' d'"
  by (intro antisym f64_nearest_mono) simp_all

lemma f64_nearest_whole [simp]: "0 < d \<Longrightarrow> f64_nearest (k * d) d = f64_of_nat k"
  unfolding f64_of_nat_def by (rule f64_nearest_cong) simp_all

lemma f64_of_nat_exact: "n < 2 ^ 53 \<Longrightarrow> f64_of_nat n = n * f64_one"
proof -
  assume n: "n < 2 ^ 53"
  define e where "e = bit_length (n * f64_one) - 53"
  have "bit_length (n * f64_one) \<le> 181"
  proof (rule ccontr)
    assume long: "\<not> ?thesis"
    then have "0 < n * f64_one" by (metis bit_length.simps gr0I le0)
    then have "2 ^ (bit_length (n * f64_one) - 1) \<le> n * f64_one" by (rule bit_length_lower)
    moreover have "(2::nat) ^ 181 \<le> 2 ^ (bit_length (n * f64_one) - 1)"
      using long by (intro power_increasing) simp_all
    moreover have "n * f64_one < 2 ^ 53 * f64_one" using n by (simp add: f64_one_def)
    moreover have "2 ^ 53 * f64_one = 2 ^ 181" by (simp add: f64_one_def)
    ultimately show False by linarith
  qed
  then have "f64_one = 2 ^ (128 - e) * 2 ^ e"
    unfolding f64_one_def e_def power_add [symmetric] by simp
  then have split: "n * f64_one = (n * 2 ^ (128 - e)) * 2 ^ e" by simp
  have "f64_of_nat n = round_even (n * f64_one) (2 ^ e) * 2 ^ e"
    by (simp add: f64_of_nat_def f64_nearest_def Let_def e_def)
  also have "round_even (n * f64_one) (2 ^ e) = n * 2 ^ (128 - e)"
    unfolding split by (rule round_even_exact) simp
  also have "n * 2 ^ (128 - e) * 2 ^ e = n * f64_one" by (rule split [symmetric])
  finally show ?thesis .
qed

lemma f64_of_nat_mono: "m \<le> n \<Longrightarrow> f64_of_nat m \<le> f64_of_nat n"
  unfolding f64_of_nat_def by (rule f64_nearest_mono) simp_all

lemma f64_one_pos [simp]: "0 < f64_one"
  by (simp add: f64_one_def)

lemma f64_add_mono: "x \<le> x' \<Longrightarrow> y \<le> y' \<Longrightarrow> f64_add x y \<le> f64_add x' y'"
  unfolding f64_add_def by (rule f64_nearest_mono) simp_all

lemma subsec_f64_mono:
  "m \<le> n \<Longrightarrow> f64_div (f64_of_nat m) (f64_of_nat nanos_per_sec)
    \<le> f64_div (f64_of_nat n) (f64_of_nat nanos_per_sec)"
  unfolding f64_div_def using f64_of_nat_exact [of nanos_per_sec]
  by (intro f64_nearest_mono mult_right_mono f64_of_nat_mono) (simp_all add: nanos_per_sec_def)

lemma subsec_f64_le_one:
  "f64_div (f64_of_nat (subsec_nanos d)) (f64_of_nat nanos_per_sec) \<le> f64_one"
proof -
  have "f64_div (f64_of_nat (subsec_nanos d)) (f64_of_nat nanos_per_sec)
      \<le> f64_div (f64_of_nat nanos_per_sec) (f64_of_nat nanos_per_sec)"
    using subsec_nanos_bound [of d] by (intro subsec_f64_mono) simp
  also have "\<dots> = f64_of_nat 1"
    using f64_nearest_whole [of "f64_of_nat nanos_per_sec" 1] f64_of_nat_exact [of nanos_per_sec]
    by (simp add: f64_div_def nanos_per_sec_def)
  finally show ?thesis using f64_of_nat_exact [of 1] by simp
qed

lemma as_secs_f64_small:
  assumes "as_secs d < 2 ^ 53"
  shows "as_secs_f64 d
      = f64_nearest (as_secs d * f64_one + f64_nearest (subsec_nanos d) nanos_per_sec) f64_one"
proof -
  have nanos: "f64_of_nat nanos_per_sec = nanos_per_sec * f64_one"
    "f64_of_nat (subsec_nanos d) = subsec_nanos d * f64_one"
    using subsec_nanos_bound [of d] by (simp_all add: f64_of_nat_exact nanos_per_sec_def)
  have "f64_div (f64_of_nat (subsec_nanos d)) (f64_of_nat nanos_per_sec)
      = f64_nearest (subsec_nanos d) nanos_per_sec"
    unfolding f64_div_def nanos by (rule f64_nearest_cong) (simp_all add: nanos_per_sec_def)
  then show ?thesis using assms by (simp add: as_secs_f64_def f64_add_def f64_of_nat_exact)
qed

text \<open>The conversion of durations to seconds is monotone from any duration below \<open>2 ^ 53 - 1\<close> seconds.\<close>

lemma as_secs_f64_mono:
  assumes "d \<le> d'" and small: "as_secs d + 1 < 2 ^ 53"
  shows "as_secs_f64 d \<le> as_secs_f64 d'"
proof (cases "as_secs d = as_secs d'")
  case True
  with assms(1) have "subsec_nanos d \<le> subsec_nanos d'"
    using as_secs_subsec_nanos [of d] as_secs_subsec_nanos [of d'] by simp
  then show ?thesis unfolding as_secs_f64_def True by (intro f64_add_mono subsec_f64_mono order_refl)
next
  case False
  moreover have "as_secs d \<le> as_secs d'" using assms(1) by (simp add: as_secs_def div_le_mono)
  ultimately have next_sec: "as_secs d + 1 \<le> as_secs d'" by simp
  have "as_secs_f64 d \<le> f64_add (f64_of_nat (as_secs d)) f64_one"
    unfolding as_secs_f64_def by (intro f64_add_mono subsec_f64_le_one order_refl)
  also have "\<dots> = f64_nearest ((as_secs d + 1) * f64_one) f64_one"
    using small by (simp add: f64_add_def f64_of_nat_exact add.commute)
  also have "\<dots> = f64_add (f64_of_nat (as_secs d + 1)) 0"
    using small by (simp add: f64_add_def f64_of_nat_exact add.commute del: f64_nearest_whole)
  also have "\<dots> \<le> as_secs_f64 d'"
    unfolding as_secs_f64_def using next_sec by (intro f64_add_mono f64_of_nat_mono) simp_all
  finally show ?thesis .
qed

text \<open>Comparing with a literal is comparing nanoseconds, when the literal separates a number of
  nanoseconds from the next.\<close>

lemma as_secs_f64_le_iff:
  assumes "as_secs_f64 b \<le> x" and "x < as_secs_f64 (b + 1)" and "as_secs (b + 1) + 1 < 2 ^ 53"
  shows "as_secs_f64 d \<le> x \<longleftrightarrow> d \<le> b"
proof
  show "d \<le> b" if "as_secs_f64 d \<le> x"
  proof (rule ccontr)
    assume "\<not> d \<le> b"
    then have "as_secs_f64 (b + 1) \<le> as_secs_f64 d" using assms(3) by (intro as_secs_f64_mono) simp_all
    with that assms(2) show False by simp
  qed
  show "as_secs_f64 d \<le> x" if "d \<le> b"
  proof -
    have "as_secs d \<le> as_secs (b + 1)" using that by (simp add: as_secs_def div_le_mono)
    then have "as_secs_f64 d \<le> as_secs_f64 b" using that assms(3) by (intro as_secs_f64_mono) simp_all
    with assms(1) show ?thesis by simp
  qed
qed

end
