(* ===== verification/Push_Metrics.thy ===== *)
theory Push_Metrics
  imports Float64
begin

text \<open>
  The counters of the push delivery, \<^verbatim>\<open>push/metrics.rs\<close>: the number of successful and failed dispatches
  and a histogram of their durations. The atomics are their values; \<^verbatim>\<open>fetch_add\<close> wraps around, and the
  counters only grow by \<open>record\<close>, so a snapshot is one point of a sequence of records.
\<close>

section \<open>State and operations\<close>

definition DURATION_BUCKETS_SECONDS :: "f64 list" where
  "DURATION_BUCKETS_SECONDS =
     [Finite (f64_nearest 5 1000), Finite (f64_nearest 1 100), Finite (f64_nearest 25 1000),
      Finite (f64_nearest 5 100), Finite (f64_nearest 1 10), Finite (f64_nearest 25 100),
      Finite (f64_nearest 5 10), Finite (f64_of_nat 1), Finite (f64_nearest 25 10),
      Finite (f64_of_nat 5), Finite (f64_of_nat 10), Infinity]"

record push_metrics =
  pm_dispatch_success :: u64
  pm_dispatch_failure :: u64
  pm_duration_buckets :: "u64 list"
  pm_duration_sum_micros :: u64

record push_metrics_snapshot =
  ps_dispatch_success :: u64
  ps_dispatch_failure :: u64
  ps_duration_buckets :: "u64 list"
  ps_duration_sum_micros :: u64
  ps_duration_count :: u64

definition push_metrics_new :: push_metrics where
  "push_metrics_new =
     \<lparr>pm_dispatch_success = 0, pm_dispatch_failure = 0,
      pm_duration_buckets = replicate (length DURATION_BUCKETS_SECONDS) 0,
      pm_duration_sum_micros = 0\<rparr>"

text \<open>\<^verbatim>\<open>Iterator::position\<close>.\<close>

fun position :: "('a \<Rightarrow> bool) \<Rightarrow> 'a list \<Rightarrow> nat option" where
  "position P [] = None"
| "position P (x # xs) = (if P x then Some 0 else map_option Suc (position P xs))"

definition as_micros :: "duration \<Rightarrow> nat" where
  "as_micros d = d div 1000"

definition duration_bucket :: "duration \<Rightarrow> nat" where
  "duration_bucket d =
     (let seconds = Finite (as_secs_f64 d)
      in case position (f64_le seconds) DURATION_BUCKETS_SECONDS of
           Some i \<Rightarrow> i | None \<Rightarrow> length DURATION_BUCKETS_SECONDS - 1)"

definition push_metrics_record :: "bool \<Rightarrow> duration \<Rightarrow> push_metrics \<Rightarrow> push_metrics" where
  "push_metrics_record success d m =
     (let m1 = (if success then m\<lparr>pm_dispatch_success := pm_dispatch_success m + 1\<rparr>
                else m\<lparr>pm_dispatch_failure := pm_dispatch_failure m + 1\<rparr>);
          bucket = duration_bucket d
      in m1\<lparr>pm_duration_buckets :=
               (pm_duration_buckets m1)[bucket := pm_duration_buckets m1 ! bucket + 1],
            pm_duration_sum_micros := pm_duration_sum_micros m1 + of_nat (as_micros d)\<rparr>)"

definition push_metrics_snapshot_of :: "push_metrics \<Rightarrow> push_metrics_snapshot" where
  "push_metrics_snapshot_of m =
     \<lparr>ps_dispatch_success = pm_dispatch_success m, ps_dispatch_failure = pm_dispatch_failure m,
      ps_duration_buckets = pm_duration_buckets m,
      ps_duration_sum_micros = pm_duration_sum_micros m,
      ps_duration_count = sum_list (pm_duration_buckets m)\<rparr>"

section \<open>The bucket of a duration\<close>

text \<open>The bounds in nanoseconds, for the exact comparison.\<close>

definition bucket_bounds_nanos :: "nat list" where
  "bucket_bounds_nanos =
     [5000000, 10000000, 25000000, 50000000, 100000000, 250000000, 500000000, 1000000000,
      2500000000, 5000000000, 10000000000]"

definition exact_bucket :: "duration \<Rightarrow> nat" where
  "exact_bucket d = length (filter (\<lambda>b. b < d) bucket_bounds_nanos)"

lemmas f64_eval = as_secs_f64_small f64_of_nat_exact f64_nearest_def round_even_def
  f64_one_def as_secs_def subsec_nanos_def nanos_per_sec_def bit_length_steps

lemma bucket_bounds_millis:
  "as_secs_f64 d \<le> f64_nearest 5 1000 \<longleftrightarrow> d \<le> 5000000"
  "as_secs_f64 d \<le> f64_nearest 1 100 \<longleftrightarrow> d \<le> 10000000"
  "as_secs_f64 d \<le> f64_nearest 25 1000 \<longleftrightarrow> d \<le> 25000000"
  "as_secs_f64 d \<le> f64_nearest 5 100 \<longleftrightarrow> d \<le> 50000000"
  by (rule as_secs_f64_le_iff; simp add: f64_eval)+

lemma bucket_bounds_tenths:
  "as_secs_f64 d \<le> f64_nearest 1 10 \<longleftrightarrow> d \<le> 100000000"
  "as_secs_f64 d \<le> f64_nearest 25 100 \<longleftrightarrow> d \<le> 250000000"
  "as_secs_f64 d \<le> f64_nearest 5 10 \<longleftrightarrow> d \<le> 500000000"
  by (rule as_secs_f64_le_iff; simp add: f64_eval)+

lemma bucket_bounds_seconds:
  "as_secs_f64 d \<le> f64_of_nat 1 \<longleftrightarrow> d \<le> 1000000000"
  "as_secs_f64 d \<le> f64_nearest 25 10 \<longleftrightarrow> d \<le> 2500000000"
  "as_secs_f64 d \<le> f64_of_nat 5 \<longleftrightarrow> d \<le> 5000000000"
  "as_secs_f64 d \<le> f64_of_nat 10 \<longleftrightarrow> d \<le> 10000000000"
  by (rule as_secs_f64_le_iff; simp add: f64_eval)+

lemmas bucket_bounds = bucket_bounds_millis bucket_bounds_tenths bucket_bounds_seconds

lemma bucket_position:
  "sorted bs \<Longrightarrow> position (\<lambda>x. case x of Some b \<Rightarrow> d \<le> b | None \<Rightarrow> True) (map Some bs @ [None])
     = Some (length (filter (\<lambda>b. b < (d::nat)) bs))"
proof (induction bs)
  case (Cons b bs)
  show ?case
  proof (cases "d \<le> b")
    case True
    then have "filter (\<lambda>b. b < d) bs = []" using Cons.prems by (auto simp: filter_empty_conv)
    with True show ?thesis by simp
  qed (use Cons in simp)
qed simp

lemma position_map: "position P (map f xs) = position (\<lambda>x. P (f x)) xs"
  by (induction xs) simp_all

lemma position_cong: "list_all2 (\<lambda>x y. P x \<longleftrightarrow> Q y) xs ys \<Longrightarrow> position P xs = position Q ys"
  by (induction xs ys rule: list_all2_induct) simp_all

lemma duration_bucket_position:
  "position (f64_le (Finite (as_secs_f64 d))) DURATION_BUCKETS_SECONDS = Some (exact_bucket d)"
proof -
  have "list_all2 (\<lambda>x y. f64_le (Finite (as_secs_f64 d)) x \<longleftrightarrow> (case y of Some b \<Rightarrow> d \<le> b | None \<Rightarrow> True))
      DURATION_BUCKETS_SECONDS (map Some bucket_bounds_nanos @ [None])"
    by (simp add: DURATION_BUCKETS_SECONDS_def bucket_bounds_nanos_def bucket_bounds
        bucket_bounds [simplified One_nat_def])
  from position_cong [OF this] show ?thesis
    using bucket_position [of bucket_bounds_nanos d] by (simp add: exact_bucket_def bucket_bounds_nanos_def)
qed

section \<open>What the metrics count\<close>

text \<open>A run of the metrics: the recorded dispatches in order.\<close>

definition push_metrics_run :: "(bool \<times> duration) list \<Rightarrow> push_metrics" where
  "push_metrics_run ds = fold (\<lambda>(ok, d). push_metrics_record ok d) ds push_metrics_new"

lemma length_buckets [simp]: "length DURATION_BUCKETS_SECONDS = 12"
  by (simp add: DURATION_BUCKETS_SECONDS_def)

lemma duration_bucket_exact: "duration_bucket d = exact_bucket d"
  by (simp add: duration_bucket_def duration_bucket_position)

lemma exact_bucket_less: "exact_bucket d < 12"
  using length_filter_le [of "\<lambda>b. b < d" bucket_bounds_nanos]
  by (simp add: exact_bucket_def bucket_bounds_nanos_def)

lemma push_metrics_run_snoc:
  "push_metrics_run (ds @ [(ok, d)]) = push_metrics_record ok d (push_metrics_run ds)"
  by (simp add: push_metrics_run_def)

lemma sum_list_incr:
  "i < length (xs :: 'a::comm_monoid_add list) \<Longrightarrow> sum_list (xs[i := xs ! i + x]) = sum_list xs + x"
  by (induction xs arbitrary: i) (auto simp: nth_Cons' ac_simps less_Suc_eq_0_disj)

lemma push_metrics_run_buckets:
  "length (pm_duration_buckets (push_metrics_run ds)) = 12
   \<and> (\<forall>i < 12. pm_duration_buckets (push_metrics_run ds) ! i
        = of_nat (length (filter (\<lambda>x. exact_bucket (snd x) = i) ds)))"
proof (induction ds rule: rev_induct)
  case Nil
  then show ?case by (simp add: push_metrics_run_def push_metrics_new_def)
next
  case (snoc x ds)
  obtain ok d where x: "x = (ok, d)" by (cases x)
  have "length (pm_duration_buckets (push_metrics_run (ds @ [x]))) = 12"
    using snoc by (simp add: x push_metrics_run_snoc push_metrics_record_def Let_def)
  moreover have "pm_duration_buckets (push_metrics_run (ds @ [x])) ! i
      = of_nat (length (filter (\<lambda>x. exact_bucket (snd x) = i) (ds @ [x])))" if "i < 12" for i
    using snoc that exact_bucket_less [of d]
    by (simp add: x push_metrics_run_snoc push_metrics_record_def Let_def duration_bucket_exact nth_list_update)
  ultimately show ?case by blast
qed

lemma push_metrics_run_totals:
  "pm_dispatch_success (push_metrics_run ds) = of_nat (length (filter fst ds))
   \<and> pm_dispatch_failure (push_metrics_run ds) = of_nat (length (filter (\<lambda>x. \<not> fst x) ds))
   \<and> pm_duration_sum_micros (push_metrics_run ds) = of_nat (sum_list (map (\<lambda>x. as_micros (snd x)) ds))
   \<and> sum_list (pm_duration_buckets (push_metrics_run ds)) = of_nat (length ds)"
proof (induction ds rule: rev_induct)
  case Nil
  then show ?case by (simp add: push_metrics_run_def push_metrics_new_def sum_list_replicate)
next
  case (snoc x ds)
  obtain ok d where x: "x = (ok, d)" by (cases x)
  have "sum_list (pm_duration_buckets (push_metrics_run (ds @ [x])))
      = sum_list (pm_duration_buckets (push_metrics_run ds)) + 1"
    using push_metrics_run_buckets [of ds] exact_bucket_less [of d]
    by (simp add: x push_metrics_run_snoc push_metrics_record_def Let_def duration_bucket_exact sum_list_incr)
  then show ?case
    using snoc by (auto simp: x push_metrics_run_snoc push_metrics_record_def Let_def)
qed

text \<open>C38. The push metrics count exactly, modulo \<open>2 ^ 64\<close>: after any sequence of recorded dispatches the
  success and failure counters are the numbers of successes and failures, bucket i holds the dispatches
  whose duration is in the i-th interval when compared in nanoseconds (the comparison of doubles is
  exact at every bound), and the reported count is the number of dispatches and the sum of both counters.\<close>

theorem push_metrics_exact:
  "let s = push_metrics_snapshot_of (push_metrics_run ds) in
     ps_dispatch_success s = of_nat (length (filter fst ds))
     \<and> ps_dispatch_failure s = of_nat (length (filter (\<lambda>x. \<not> fst x) ds))
     \<and> ps_duration_buckets s
         = map (\<lambda>i. of_nat (length (filter (\<lambda>x. exact_bucket (snd x) = i) ds))) [0..<12]
     \<and> ps_duration_count s = of_nat (length ds)
     \<and> ps_duration_count s = ps_dispatch_success s + ps_dispatch_failure s
     \<and> ps_duration_sum_micros s = of_nat (sum_list (map (\<lambda>x. as_micros (snd x)) ds))"
proof -
  have "length ds = length (filter fst ds) + length (filter (\<lambda>x. \<not> fst x) ds)"
    by (simp add: sum_length_filter_compl)
  then have "(of_nat (length ds) :: u64)
      = of_nat (length (filter fst ds)) + of_nat (length (filter (\<lambda>x. \<not> fst x) ds))"
    by (simp only: of_nat_add)
  moreover have "pm_duration_buckets (push_metrics_run ds)
      = map (\<lambda>i. of_nat (length (filter (\<lambda>x. exact_bucket (snd x) = i) ds))) [0..<12]"
    using push_metrics_run_buckets [of ds] by (intro nth_equalityI) auto
  ultimately show ?thesis
    using push_metrics_run_totals [of ds] unfolding Let_def push_metrics_snapshot_of_def
    by (simp only: push_metrics_snapshot.simps)
qed

end
