(* ===== verification/Push_Loop.thy ===== *)
theory Push_Loop
  imports Broker Push_Metrics
begin

text \<open>
  Push delivery, \<^verbatim>\<open>push/push_loop.rs\<close>. At every interval the loop spawns one task per registered
  subscription (\<^verbatim>\<open>pull_and_dispatch_messages\<close>), which pulls a batch and dispatches its messages
  concurrently, bounded by a semaphore. Such a task is a \<open>push_job\<close>, its dispatches are its \<open>pj_tasks\<close>,
  and \<open>push_step\<close> interleaves them: a dispatch is in flight until the answer of the endpoint arrives, is
  then counted, and ends by acknowledging the message or giving it back. The short wait between two
  dispatches only restricts the interleavings. A job is cancelled, with all its dispatches, when the
  subscription is deleted.

  The HTTP client, the base64 engine and the JSON serializer are third-party: the answers of the
  endpoint are arguments of the steps, the two encoders are the fields of \<open>push_externals\<close>. The fields
  \<open>pj_batch\<close>, \<open>pj_settled\<close>, \<open>pu_requests\<close> and \<open>pu_dispatches\<close> are history: they record what was pulled,
  dispatched and counted, and no step reads them.
\<close>

section \<open>The payload\<close>

record push_payload_message =
  pp_attributes :: "(string, string) hash_map"
  pp_data :: string
  pp_message_id :: string
  pp_publish_time :: string
  pp_message_id_dupe :: string
  pp_publish_time_dupe :: string

record push_payload =
  pl_message :: push_payload_message
  pl_subscription :: string

record push_externals =
  px_base64_encode :: "bytes \<Rightarrow> string"
  px_to_json :: "push_payload \<Rightarrow> string"

definition message_payload :: "push_externals \<Rightarrow> subscription \<Rightarrow> topic_message \<Rightarrow> push_payload" where
  "message_payload px s m =
     (let encoded_data = px_base64_encode px (tm_data m)
      in \<lparr>pl_message =
            \<lparr>pp_attributes = fmempty,
             pp_data = encoded_data,
             pp_message_id = message_id_to_string (tm_id m),
             pp_publish_time = ''2000-01-01T12:00:00Z'',
             pp_message_id_dupe = message_id_to_string (tm_id m),
             pp_publish_time_dupe = ''2000-01-01T12:00:00Z''\<rparr>,
          pl_subscription = subscription_name_to_string (sub_name s)\<rparr>)"

definition encode_message_payload :: "push_externals \<Rightarrow> subscription \<Rightarrow> topic_message \<Rightarrow> string" where
  "encode_message_payload px s m = px_to_json px (message_payload px s m)"

section \<open>Dispatching one message\<close>

record http_request =
  hr_method :: string
  hr_url :: string
  hr_headers :: "(string \<times> string) list"
  hr_body :: string

datatype http_result = HttpResponse u16 | SendError

definition dispatch_request ::
    "push_externals \<Rightarrow> subscription \<Rightarrow> push_config \<Rightarrow> pulled_message \<Rightarrow> http_request" where
  "dispatch_request px s config p =
     \<lparr>hr_method = ''POST'', hr_url = pc_endpoint config,
      hr_headers = [(''Content-Type'', ''application/json;charset=utf8'')],
      hr_body = encode_message_payload px s (pm_message p)\<rparr>"

fun dispatch_success :: "http_result \<Rightarrow> bool" where
  "dispatch_success (HttpResponse status) \<longleftrightarrow> status \<in> {102, 200, 201, 202, 204}"
| "dispatch_success SendError \<longleftrightarrow> False"

text \<open>The end of a dispatch; the result of the call is ignored.\<close>

definition dispatch_settle ::
    "broker_env \<Rightarrow> subscription \<Rightarrow> pulled_message \<Rightarrow> bool \<Rightarrow> broker \<Rightarrow> broker" where
  "dispatch_settle env s p success b =
     (if \<not> success then snd (modify_ack_deadlines env s [deadline_modification_nack (pm_ack_id p)] b)
      else snd (subscription_acknowledge_messages env s [pm_ack_id p] b))"

section \<open>A job\<close>

datatype dispatch_stage = Requesting | Settling bool

record push_task =
  pt_message :: pulled_message
  pt_stage :: dispatch_stage

record push_job =
  pj_subscription :: subscription
  pj_config :: push_config
  pj_pulled :: bool
  pj_page :: "pulled_message list"
  pj_permits :: nat
  pj_tasks :: "push_task list"
  pj_batch :: "pulled_message list"
  pj_settled :: "pulled_message list"

record push_state =
  pu_broker :: broker
  pu_metrics :: push_metrics
  pu_jobs :: "push_job list"
  pu_requests :: "http_request list"
  pu_dispatches :: "(bool \<times> duration) list"

definition push_job_new :: "subscription \<Rightarrow> push_config \<Rightarrow> push_job" where
  "push_job_new s config =
     \<lparr>pj_subscription = s, pj_config = config, pj_pulled = False, pj_page = [], pj_permits = 0,
      pj_tasks = [], pj_batch = [], pj_settled = []\<rparr>"

text \<open>\<^verbatim>\<open>max_concurrency\<close> is a \<^verbatim>\<open>usize\<close>, which is 64 bits wide.\<close>

definition push_batch_size :: "u64 \<Rightarrow> u16" where
  "push_batch_size max_concurrency = ucast (min (max_concurrency * 2) 1000)"

definition push_pull ::
    "broker_env \<Rightarrow> u64 \<Rightarrow> push_job \<Rightarrow> broker \<Rightarrow> push_job option \<times> broker" where
  "push_pull env max_concurrency j b =
     (case subscription_pull_messages env (pj_subscription j) (push_batch_size max_concurrency) b of
        (Inl _, b') \<Rightarrow> (None, b')
      | (Inr page, b') \<Rightarrow>
          (Some (j\<lparr>pj_pulled := True, pj_page := page, pj_batch := page,
                   pj_permits := unat max_concurrency\<rparr>), b'))"

text \<open>One iteration of the loop over the page: a permit is taken before the dispatch is spawned.\<close>

definition push_start_dispatch ::
    "push_externals \<Rightarrow> push_job \<Rightarrow> (http_request \<times> push_job) option" where
  "push_start_dispatch px j =
     (case pj_page j of
        [] \<Rightarrow> None
      | p # rest \<Rightarrow>
          if pj_permits j = 0 then None
          else Some (dispatch_request px (pj_subscription j) (pj_config j) p,
                     j\<lparr>pj_page := rest, pj_permits := pj_permits j - 1,
                       pj_tasks := pj_tasks j @ [\<lparr>pt_message = p, pt_stage = Requesting\<rparr>]\<rparr>))"

definition push_respond :: "nat \<Rightarrow> bool \<Rightarrow> push_job \<Rightarrow> push_job option" where
  "push_respond k success j =
     (if k < length (pj_tasks j) \<and> pt_stage (pj_tasks j ! k) = Requesting
      then Some (j\<lparr>pj_tasks := (pj_tasks j)[k := (pj_tasks j ! k)\<lparr>pt_stage := Settling success\<rparr>]\<rparr>)
      else None)"

text \<open>The end of a spawned task: the call to the subscription, then the permit is dropped.\<close>

definition push_settle ::
    "broker_env \<Rightarrow> nat \<Rightarrow> push_job \<Rightarrow> broker \<Rightarrow> (push_job \<times> broker) option" where
  "push_settle env k j b =
     (if k < length (pj_tasks j) then
        (case pt_stage (pj_tasks j ! k) of
           Requesting \<Rightarrow> None
         | Settling success \<Rightarrow>
             (let p = pt_message (pj_tasks j ! k)
              in Some (j\<lparr>pj_tasks := take k (pj_tasks j) @ drop (Suc k) (pj_tasks j),
                         pj_permits := pj_permits j + 1, pj_settled := pj_settled j @ [p]\<rparr>,
                       dispatch_settle env (pj_subscription j) p success b)))
      else None)"

definition push_finished :: "push_job \<Rightarrow> bool" where
  "push_finished j \<longleftrightarrow> pj_pulled j \<and> pj_page j = [] \<and> pj_tasks j = []"

definition push_cancelled :: "push_job \<Rightarrow> broker \<Rightarrow> bool" where
  "push_cancelled j b \<longleftrightarrow>
     (case fmlookup (bk_subscription_actors b) (sub_internal_id (pj_subscription j)) of
        None \<Rightarrow> False | Some a \<Rightarrow> stopped a)"

section \<open>The loop\<close>

text \<open>\<^verbatim>\<open>PushSubscriptionsRegistry::entries\<close>: \<open>order\<close> is the iteration order of the keys.\<close>

definition push_registry_entries ::
    "subscription_name list \<Rightarrow> push_registry \<Rightarrow> (subscription_name \<times> push_config) list" where
  "push_registry_entries order reg =
     List.map_filter (\<lambda>n. map_option (Pair n) (fmlookup reg n)) order"

text \<open>An entry whose subscription is gone is skipped.\<close>

definition push_spawn :: "(subscription_name \<times> push_config) list \<Rightarrow> broker \<Rightarrow> push_job list" where
  "push_spawn entries b =
     List.map_filter
       (\<lambda>(name, config). case manager_get_subscription name b of
          Inl _ \<Rightarrow> None | Inr s \<Rightarrow> Some (push_job_new s config)) entries"

definition push_start :: "broker \<Rightarrow> push_state" where
  "push_start b =
     \<lparr>pu_broker = b, pu_metrics = push_metrics_new, pu_jobs = [], pu_requests = [], pu_dispatches = []\<rparr>"

definition push_tick :: "subscription_name list \<Rightarrow> push_state \<Rightarrow> push_state" where
  "push_tick order u =
     (let entries = push_registry_entries order (bk_push (pu_broker u))
      in u\<lparr>pu_jobs := pu_jobs u @ push_spawn entries (pu_broker u)\<rparr>)"

definition remove_job :: "nat \<Rightarrow> push_state \<Rightarrow> push_state" where
  "remove_job i u = u\<lparr>pu_jobs := take i (pu_jobs u) @ drop (Suc i) (pu_jobs u)\<rparr>"

definition set_job :: "nat \<Rightarrow> push_job \<Rightarrow> push_state \<Rightarrow> push_state" where
  "set_job i j u = u\<lparr>pu_jobs := (pu_jobs u)[i := j]\<rparr>"

text \<open>The steps of the loop and of its jobs; \<open>others\<close> is what the rest of the
  program can do to the broker meanwhile.\<close>

inductive push_step ::
    "push_externals \<Rightarrow> u64 \<Rightarrow> (broker \<Rightarrow> broker \<Rightarrow> bool) \<Rightarrow> push_state \<Rightarrow> push_state \<Rightarrow> bool"
  for px :: push_externals and mc :: u64 and others :: "broker \<Rightarrow> broker \<Rightarrow> bool" where
  tick: "distinct order \<Longrightarrow> fset_of_list order = fmdom (bk_push (pu_broker u)) \<Longrightarrow>
    push_step px mc others u (push_tick order u)"
| pull_failed: "i < length (pu_jobs u) \<Longrightarrow> \<not> pj_pulled (pu_jobs u ! i) \<Longrightarrow>
    push_pull env mc (pu_jobs u ! i) (pu_broker u) = (None, b') \<Longrightarrow>
    push_step px mc others u (remove_job i (u\<lparr>pu_broker := b'\<rparr>))"
| pulled: "i < length (pu_jobs u) \<Longrightarrow> \<not> pj_pulled (pu_jobs u ! i) \<Longrightarrow>
    push_pull env mc (pu_jobs u ! i) (pu_broker u) = (Some j, b') \<Longrightarrow>
    push_step px mc others u (set_job i j (u\<lparr>pu_broker := b'\<rparr>))"
| dispatched: "i < length (pu_jobs u) \<Longrightarrow>
    push_start_dispatch px (pu_jobs u ! i) = Some (r, j) \<Longrightarrow>
    push_step px mc others u (set_job i j (u\<lparr>pu_requests := pu_requests u @ [r]\<rparr>))"
| responded: "i < length (pu_jobs u) \<Longrightarrow> success = dispatch_success result \<Longrightarrow>
    push_respond k success (pu_jobs u ! i) = Some j \<Longrightarrow>
    push_step px mc others u (set_job i j (u\<lparr>pu_metrics := push_metrics_record success elapsed (pu_metrics u),
      pu_dispatches := pu_dispatches u @ [(success, elapsed)]\<rparr>))"
| settled: "i < length (pu_jobs u) \<Longrightarrow>
    push_settle env k (pu_jobs u ! i) (pu_broker u) = Some (j, b') \<Longrightarrow>
    push_step px mc others u (set_job i j (u\<lparr>pu_broker := b'\<rparr>))"
| finished: "i < length (pu_jobs u) \<Longrightarrow> push_finished (pu_jobs u ! i) \<Longrightarrow>
    push_step px mc others u (remove_job i u)"
| cancelled: "i < length (pu_jobs u) \<Longrightarrow> push_cancelled (pu_jobs u ! i) (pu_broker u) \<Longrightarrow>
    push_step px mc others u (remove_job i u)"
| other_activity: "others (pu_broker u) b' \<Longrightarrow> push_step px mc others u (u\<lparr>pu_broker := b'\<rparr>)"

inductive push_reachable ::
    "push_externals \<Rightarrow> u64 \<Rightarrow> (broker \<Rightarrow> broker \<Rightarrow> bool) \<Rightarrow> push_state \<Rightarrow> bool"
  for px :: push_externals and mc :: u64 and others :: "broker \<Rightarrow> broker \<Rightarrow> bool" where
  start: "push_reachable px mc others (push_start b)"
| step: "push_reachable px mc others u \<Longrightarrow> push_step px mc others u u' \<Longrightarrow> push_reachable px mc others u'"

end
