(* ===== verification/Push_Properties.thy ===== *)
theory Push_Properties
  imports Push_Loop Broker_Sample Actor_Lifecycle
begin

text \<open>
  Correctness of push delivery: in every interleaving of the loop with its jobs the concurrency limit
  holds, no message of a batch is dispatched twice or lost, and the metrics agree with the answers of
  the endpoints; and what a dispatch does to the subscription.
\<close>

section \<open>Batches\<close>

lemma pull_length:
  assumes "actor_pull_messages env mc mo a = (Inr result, a')"
  shows "length result \<le> pull_capacity mc mo a"
proof (cases "sa_deleted a \<or> pull_capacity mc mo a = 0")
  case True
  from pull_idle [OF assms this] show ?thesis by simp
next
  case False
  then show ?thesis using actor_pull_spec [OF assms] by metis
qed

lemma subscription_pull_length:
  assumes "subscription_pull_messages env s n b = (Inr page, b')"
  shows "length page \<le> unat n"
proof -
  obtain a where a: "fmlookup (bk_subscription_actors b) (sub_internal_id s) = Some a"
    "\<not> (stopped a \<and> be_loop_ended env s)"
    using assms by (auto simp: subscription_pull_messages_def pull_messages_capped_def
        subscription_call_def split: option.splits if_splits)
  obtain r a' where pull: "actor_pull_messages (actor_env_of env (sub_topic s) b) n 0 a = (r, a')"
    by fastforce
  then have "r = Inr page"
    using assms a by (simp add: subscription_pull_messages_def pull_messages_capped_def subscription_call_def)
  with pull have "length page \<le> pull_capacity n 0 a" by (simp add: pull_length)
  also have "\<dots> \<le> unat n" by (simp add: pull_capacity_unfold Let_def)
  finally show ?thesis .
qed

section \<open>The invariant of the jobs\<close>

definition job_inv :: "u64 \<Rightarrow> push_job \<Rightarrow> bool" where
  "job_inv mc j \<longleftrightarrow>
     (if pj_pulled j then pj_permits j + length (pj_tasks j) = unat mc
      else pj_page j = [] \<and> pj_permits j = 0 \<and> pj_tasks j = [] \<and> pj_batch j = [] \<and> pj_settled j = [])
     \<and> length (pj_batch j) \<le> unat (push_batch_size mc)
     \<and> (\<exists>n. pj_page j = drop n (pj_batch j)
          \<and> mset (map pt_message (pj_tasks j)) + mset (pj_settled j) = mset (take n (pj_batch j)))"

definition push_inv :: "u64 \<Rightarrow> push_state \<Rightarrow> bool" where
  "push_inv mc u \<longleftrightarrow> list_all (job_inv mc) (pu_jobs u)
     \<and> pu_metrics u = push_metrics_run (pu_dispatches u)"

lemma job_invI:
  assumes "pj_pulled j" and "pj_permits j + length (pj_tasks j) = unat mc"
    and "length (pj_batch j) \<le> unat (push_batch_size mc)" and "pj_page j = drop n (pj_batch j)"
    and "mset (map pt_message (pj_tasks j)) + mset (pj_settled j) = mset (take n (pj_batch j))"
  shows "job_inv mc j"
  unfolding job_inv_def using assms by auto

lemma job_invD:
  assumes "job_inv mc j" and "pj_page j \<noteq> [] \<or> pj_tasks j \<noteq> []"
  obtains n where "pj_pulled j" "pj_permits j + length (pj_tasks j) = unat mc"
    "length (pj_batch j) \<le> unat (push_batch_size mc)" "pj_page j = drop n (pj_batch j)"
    "mset (map pt_message (pj_tasks j)) + mset (pj_settled j) = mset (take n (pj_batch j))"
  using assms unfolding job_inv_def by (cases "pj_pulled j") auto

lemma job_inv_new: "job_inv mc (push_job_new s c)"
  by (simp add: job_inv_def push_job_new_def)

lemma job_inv_pull:
  assumes "push_pull env mc j b = (Some j', b')" and "job_inv mc j" and "\<not> pj_pulled j"
  shows "job_inv mc j'"
proof -
  obtain page where page: "subscription_pull_messages env (pj_subscription j) (push_batch_size mc) b = (Inr page, b')"
    "j' = j\<lparr>pj_pulled := True, pj_page := page, pj_batch := page, pj_permits := unat mc\<rparr>"
    using assms(1) by (auto simp: push_pull_def split: prod.splits sum.splits)
  then show ?thesis
    using subscription_pull_length [OF page(1)] assms(2,3) by (auto simp: job_inv_def intro!: exI [of _ 0])
qed

lemma job_inv_dispatch:
  assumes "push_start_dispatch px j = Some (r, j')" and "job_inv mc j"
  shows "job_inv mc j'"
proof -
  obtain p rest where page: "pj_page j = p # rest" and permit: "0 < pj_permits j"
    and j': "j' = j\<lparr>pj_page := rest, pj_permits := pj_permits j - 1,
      pj_tasks := pj_tasks j @ [\<lparr>pt_message = p, pt_stage = Requesting\<rparr>]\<rparr>"
    using assms(1) by (auto simp: push_start_dispatch_def split: list.splits if_splits)
  obtain n where old: "pj_pulled j" "pj_permits j + length (pj_tasks j) = unat mc"
    "length (pj_batch j) \<le> unat (push_batch_size mc)"
    and n: "p # rest = drop n (pj_batch j)"
    "mset (map pt_message (pj_tasks j)) + mset (pj_settled j) = mset (take n (pj_batch j))"
    using job_invD [OF assms(2)] page by (metis list.distinct(1))
  then have "n < length (pj_batch j)" by (metis drop_eq_Nil leI list.distinct(1))
  moreover have "pj_batch j ! n = p" "drop (Suc n) (pj_batch j) = rest"
    using n(1) by (metis calculation hd_drop_conv_nth list.sel(1), metis drop_Suc list.sel(3) tl_drop)
  ultimately have "mset (map pt_message (pj_tasks j')) + mset (pj_settled j') = mset (take (Suc n) (pj_batch j'))"
    "pj_page j' = drop (Suc n) (pj_batch j')"
    using n(2) by (simp_all add: j' take_Suc_conv_app_nth)
  then show ?thesis using old permit by (intro job_invI [of _ _ "Suc n"]) (simp_all add: j')
qed

lemma job_inv_respond:
  assumes "push_respond k success j = Some j'" and "job_inv mc j"
  shows "job_inv mc j'"
proof -
  have k: "k < length (pj_tasks j)"
    and j': "j' = j\<lparr>pj_tasks := (pj_tasks j)[k := (pj_tasks j ! k)\<lparr>pt_stage := Settling success\<rparr>]\<rparr>"
    using assms(1) by (auto simp: push_respond_def split: if_splits)
  then have "map pt_message (pj_tasks j') = map pt_message (pj_tasks j)"
    by (simp add: map_update list_update_same_conv)
  moreover obtain n where "pj_pulled j" "pj_permits j + length (pj_tasks j) = unat mc"
    "length (pj_batch j) \<le> unat (push_batch_size mc)" "pj_page j = drop n (pj_batch j)"
    "mset (map pt_message (pj_tasks j)) + mset (pj_settled j) = mset (take n (pj_batch j))"
    using job_invD [OF assms(2)] k by (metis length_0_conv not_less_zero)
  ultimately show ?thesis by (intro job_invI [of _ _ n]) (simp_all add: j')
qed

lemma job_inv_settle:
  assumes "push_settle env k j b = Some (j', b')" and "job_inv mc j"
  shows "job_inv mc j'"
proof -
  have k: "k < length (pj_tasks j)"
    and j': "j' = j\<lparr>pj_tasks := take k (pj_tasks j) @ drop (Suc k) (pj_tasks j),
      pj_permits := pj_permits j + 1, pj_settled := pj_settled j @ [pt_message (pj_tasks j ! k)]\<rparr>"
    using assms(1) by (auto simp: push_settle_def Let_def split: if_splits dispatch_stage.splits)
  have split: "pj_tasks j = take k (pj_tasks j) @ pj_tasks j ! k # drop (Suc k) (pj_tasks j)"
    using k by (rule id_take_nth_drop)
  have "mset (map pt_message (pj_tasks j')) + mset (pj_settled j')
      = mset (map pt_message (take k (pj_tasks j) @ pj_tasks j ! k # drop (Suc k) (pj_tasks j)))
        + mset (pj_settled j)"
    by (simp add: j')
  also have "\<dots> = mset (map pt_message (pj_tasks j)) + mset (pj_settled j)" by (simp only: split [symmetric])
  finally have msgs: "mset (map pt_message (pj_tasks j')) + mset (pj_settled j')
      = mset (map pt_message (pj_tasks j)) + mset (pj_settled j)" .
  obtain n where "pj_pulled j" "pj_permits j + length (pj_tasks j) = unat mc"
    "length (pj_batch j) \<le> unat (push_batch_size mc)" "pj_page j = drop n (pj_batch j)"
    "mset (map pt_message (pj_tasks j)) + mset (pj_settled j) = mset (take n (pj_batch j))"
    using job_invD [OF assms(2)] k by (metis length_0_conv not_less_zero)
  then show ?thesis using msgs k by (intro job_invI [of _ _ n]) (simp_all add: j')
qed

lemma list_all_remove: "list_all P xs \<Longrightarrow> list_all P (take i xs @ drop (Suc i) xs)"
  by (auto simp: list_all_iff dest: in_set_takeD in_set_dropD)

lemma list_all_set: "list_all P xs \<Longrightarrow> P x \<Longrightarrow> list_all P (xs[i := x])"
  using set_update_subset_insert [of xs i x] by (auto simp: list_all_iff)

lemma push_inv_frame [simp]:
  "push_inv mc (u\<lparr>pu_broker := b\<rparr>) = push_inv mc u" "push_inv mc (u\<lparr>pu_requests := rs\<rparr>) = push_inv mc u"
  by (simp_all add: push_inv_def)

lemma push_inv_remove: "push_inv mc u \<Longrightarrow> push_inv mc (remove_job i u)"
  using list_all_remove [of "job_inv mc" "pu_jobs u" i] by (simp add: push_inv_def remove_job_def)

lemma push_inv_set: "push_inv mc u \<Longrightarrow> job_inv mc j \<Longrightarrow> push_inv mc (set_job i j u)"
  by (simp add: push_inv_def set_job_def list_all_set)

lemma push_inv_job: "push_inv mc u \<Longrightarrow> i < length (pu_jobs u) \<Longrightarrow> job_inv mc (pu_jobs u ! i)"
  by (simp add: push_inv_def list_all_length)

lemma push_spawn_inv: "list_all (job_inv mc) (push_spawn es b)"
  by (auto simp: push_spawn_def List.map_filter_def list_all_iff job_inv_new split: sum.splits)

lemma push_step_inv: "push_step px mc others u u' \<Longrightarrow> push_inv mc u \<Longrightarrow> push_inv mc u'"
proof (induction rule: push_step.induct)
  case (tick order u)
  then show ?case by (simp add: push_inv_def push_tick_def Let_def push_spawn_inv)
next
  case (responded i u success result k j elapsed)
  then have "push_inv mc (u\<lparr>pu_metrics := push_metrics_record success elapsed (pu_metrics u),
      pu_dispatches := pu_dispatches u @ [(success, elapsed)]\<rparr>)"
    by (simp add: push_inv_def push_metrics_run_snoc)
  then show ?case using responded by (intro push_inv_set) (auto intro: job_inv_respond push_inv_job)
qed (auto intro!: push_inv_remove push_inv_set
    intro: job_inv_pull job_inv_dispatch job_inv_settle push_inv_job)

lemma push_reachable_inv: "push_reachable px mc others u \<Longrightarrow> push_inv mc u"
proof (induction rule: push_reachable.induct)
  case (start b)
  then show ?case by (simp add: push_inv_def push_start_def push_metrics_run_def)
qed (rule push_step_inv)

section \<open>Concurrency and accounting\<close>

lemma push_batch_size_bound: "unat (push_batch_size mc) \<le> min (2 * unat mc) 1000"
proof -
  have small: "min (mc * 2) 1000 \<le> (1000 :: u64)" by simp
  then have "unat (min (mc * 2) 1000) < 2 ^ 16" by (simp add: word_le_nat_alt)
  then have "unat (push_batch_size mc) = unat (min (mc * 2) 1000)"
    by (simp add: push_batch_size_def unsigned_ucast_eq take_bit_nat_eq_self)
  also have "\<dots> \<le> min (2 * unat mc) 1000"
    using small by (simp add: min_def word_le_nat_alt unat_word_ariths)
  finally show ?thesis .
qed

lemma job_inv_accounts:
  assumes "job_inv mc j"
  shows "length (pj_tasks j) \<le> unat mc" and "length (pj_batch j) \<le> min (2 * unat mc) 1000"
    and "\<exists>n. pj_page j = drop n (pj_batch j)
      \<and> mset (map pt_message (pj_tasks j)) + mset (pj_settled j) = mset (take n (pj_batch j))"
    and "pj_pulled j \<Longrightarrow> \<not> push_finished j \<Longrightarrow> pj_tasks j = [] \<Longrightarrow> push_start_dispatch px j \<noteq> None"
proof -
  show "length (pj_tasks j) \<le> unat mc"
    using assms by (cases "pj_pulled j") (auto simp: job_inv_def)
  show "length (pj_batch j) \<le> min (2 * unat mc) 1000"
    using assms push_batch_size_bound [of mc] by (auto simp: job_inv_def)
  show pages: "\<exists>n. pj_page j = drop n (pj_batch j)
      \<and> mset (map pt_message (pj_tasks j)) + mset (pj_settled j) = mset (take n (pj_batch j))"
    using assms by (auto simp: job_inv_def)
  show "push_start_dispatch px j \<noteq> None"
    if "pj_pulled j" "\<not> push_finished j" "pj_tasks j = []"
  proof -
    have page: "pj_page j \<noteq> []" using that by (simp add: push_finished_def)
    with pages have "pj_batch j \<noteq> []" by auto
    with \<open>length (pj_batch j) \<le> _\<close> have "unat mc \<noteq> 0" by (cases "unat mc = 0") auto
    with assms that page have "pj_permits j \<noteq> 0" by (auto simp: job_inv_def)
    with page show ?thesis by (auto simp: push_start_dispatch_def split: list.split)
  qed
qed

text \<open>C10. In every interleaving of the push loop with its jobs, at most \<^verbatim>\<open>max_concurrency\<close> requests of a job are in
  flight, a batch has at most twice as many messages and never more than 1000, its messages are
  dispatched in their order, each exactly once (the dispatched ones are in flight or settled), a job that
  has messages left is never blocked without a request in flight, and the metrics are the record of the
  answers received.\<close>

theorem push_delivery_accounted:
  assumes "push_reachable px mc others u"
  shows "list_all (\<lambda>j. length (pj_tasks j) \<le> unat mc
      \<and> length (pj_batch j) \<le> min (2 * unat mc) 1000
      \<and> (\<exists>n. pj_page j = drop n (pj_batch j)
          \<and> mset (map pt_message (pj_tasks j)) + mset (pj_settled j) = mset (take n (pj_batch j)))
      \<and> (pj_pulled j \<and> \<not> push_finished j \<and> pj_tasks j = [] \<longrightarrow> push_start_dispatch px j \<noteq> None)) (pu_jobs u)
    \<and> pu_metrics u = push_metrics_run (pu_dispatches u)"
  using push_reachable_inv [OF assms] job_inv_accounts unfolding push_inv_def list_all_iff by blast

text \<open>The loop on the broker of the sample run, with one dispatch at a time: after the first interval the
  job of the subscription has pulled both messages and dispatches the first.\<close>

definition push_sample_externals :: push_externals where
  "push_sample_externals = \<lparr>px_base64_encode = (\<lambda>_. []), px_to_json = (\<lambda>_. [])\<rparr>"

definition push_sample_job :: push_job where
  "push_sample_job = push_job_new run_subscription run_push_config"

definition push_sample_1 :: push_state where
  "push_sample_1 = push_tick [sub_name run_subscription] (push_start run_3)"

definition push_sample_2 :: push_state where
  "push_sample_2 = (case push_pull run_env 1 push_sample_job run_3 of
     (j, b) \<Rightarrow> set_job 0 (the j) (push_sample_1\<lparr>pu_broker := b\<rparr>))"

definition push_sample_3 :: push_state where
  "push_sample_3 = (case push_start_dispatch push_sample_externals (pu_jobs push_sample_2 ! 0) of
     Some (r, j) \<Rightarrow> set_job 0 j (push_sample_2\<lparr>pu_requests := pu_requests push_sample_2 @ [r]\<rparr>)
   | None \<Rightarrow> push_sample_2)"

lemma push_sample_registry: "fmdom (bk_push run_3) = {|sub_name run_subscription|}"
  by code_simp

lemma push_sample_spawn:
  "push_spawn (push_registry_entries [sub_name run_subscription] (bk_push run_3)) run_3 = [push_sample_job]"
  by code_simp

lemma push_sample_jobs: "pu_jobs push_sample_1 = [push_sample_job]"
  by (simp add: push_sample_1_def push_tick_def push_start_def push_sample_spawn)

lemma push_sample_page: "map_option (\<lambda>j. (pj_permits j, length (pj_page j)))
    (fst (push_pull run_env 1 push_sample_job run_3)) = Some (1, 2)"
  by code_simp

lemma push_sample_reachable: "push_reachable push_sample_externals 1 broker_step push_sample_3 \<and> pu_jobs push_sample_3 \<noteq> []"
proof -
  have broker: "pu_broker push_sample_1 = run_3" by (simp add: push_sample_1_def push_tick_def push_start_def)
  have one: "push_reachable push_sample_externals 1 broker_step push_sample_1"
    unfolding push_sample_1_def
    by (rule push_reachable.step [OF push_reachable.start push_step.tick])
      (simp_all add: push_start_def push_sample_registry)
  obtain j b where pull: "push_pull run_env 1 push_sample_job run_3 = (Some j, b)"
      and page: "pj_permits j = 1" "length (pj_page j) = 2"
    using push_sample_page by (cases "push_pull run_env 1 push_sample_job run_3") auto
  have two: "push_sample_2 = set_job 0 j (push_sample_1\<lparr>pu_broker := b\<rparr>)"
    by (simp add: push_sample_2_def pull)
  have reach_2: "push_reachable push_sample_externals 1 broker_step push_sample_2"
    unfolding two
    by (rule push_reachable.step [OF one push_step.pulled [where env = run_env]])
      (simp_all add: push_sample_jobs broker pull, simp add: push_sample_job_def push_job_new_def)
  obtain r j' where dispatch: "push_start_dispatch push_sample_externals j = Some (r, j')"
    using page by (cases "pj_page j") (auto simp: push_start_dispatch_def)
  have jobs: "pu_jobs push_sample_2 = [j]" by (simp add: two set_job_def push_sample_jobs)
  have "push_reachable push_sample_externals 1 broker_step push_sample_3"
    unfolding push_sample_3_def jobs nth_Cons_0 dispatch option.case prod.case
    by (rule push_reachable.step [OF reach_2 push_step.dispatched]) (simp_all add: jobs dispatch)
  then show ?thesis by (simp add: push_sample_3_def jobs dispatch set_job_def)
qed

theorem push_delivery_accounted_witness:
  "(let j = pu_jobs push_sample_3 ! 0 in
      length (pj_tasks j) \<le> unat (1 :: u64) \<and> length (pj_batch j) \<le> min (2 * unat (1 :: u64)) 1000
      \<and> (\<exists>n. pj_page j = drop n (pj_batch j)
          \<and> mset (map pt_message (pj_tasks j)) + mset (pj_settled j) = mset (take n (pj_batch j))))
    \<and> pu_metrics push_sample_3 = push_metrics_run (pu_dispatches push_sample_3)"
proof -
  have "pu_jobs push_sample_3 ! 0 \<in> set (pu_jobs push_sample_3)" using push_sample_reachable by simp
  then show ?thesis
    using push_delivery_accounted [OF push_sample_reachable [THEN conjunct1]] unfolding list_all_iff Let_def by blast
qed

section \<open>What a dispatch does\<close>

lemma actor_effects_actors:
  "bk_subscription_actors (fold (apply_actor_effect t) es b) = bk_subscription_actors b"
proof (induction es arbitrary: b)
  case (Cons e es)
  have "bk_subscription_actors (apply_actor_effect t e b) = bk_subscription_actors b"
    by (cases e) (auto split: option.split)
  with Cons show ?case by simp
qed simp

lemma subscription_call_actors:
  assumes "subscription_actor_of b (sub_internal_id s) = Some a" and "\<not> stopped a"
  shows "bk_subscription_actors (snd (subscription_call env s r b))
    = fmupd (sub_internal_id s) (snd (receive (actor_env_of env (sub_topic s) b) r a))
        (bk_subscription_actors b)"
  using assms by (simp add: subscription_call_def split_beta actor_effects_actors)

lemma dispatch_settle_call:
  "dispatch_settle env s p success b = snd (subscription_call env s
     (if success then AcknowledgeMessages [pm_ack_id p]
      else ModifyDeadline [deadline_modification_nack (pm_ack_id p)]) b)"
  by (auto simp: dispatch_settle_def modify_ack_deadlines_def subscription_acknowledge_messages_def
      split: option.split prod.split subscription_response.split)

lemma acked_by_single:
  assumes "tracker_inv (sa_outstanding a)" and "fmlookup (om_messages (sa_outstanding a)) i = Some p"
  shows "acked_by [i] a = {#p#}"
proof -
  have "pm_ack_id x = i \<longleftrightarrow> x = p" if "x \<in># tracker_vals (sa_outstanding a)" for x
    using that assms tracker_inv_ack_id by (fastforce simp: in_fmvals_iff)
  then have "acked_by [i] a = filter_mset (\<lambda>x. x = p) (tracker_vals (sa_outstanding a))"
    by (auto simp: acked_by_def intro: filter_mset_cong)
  moreover have "count (tracker_vals (sa_outstanding a)) p = 1"
  proof -
    have "inj_on (\<lambda>k. the (fmlookup (om_messages (sa_outstanding a)) k))
        (fset (fmdom (om_messages (sa_outstanding a))))"
      by (rule inj_onI) (metis assms(1) fmdom_iff_Some option.sel tracker_inv_ack_id)
    then have "tracker_vals (sa_outstanding a) = mset_set ((\<lambda>k. the (fmlookup (om_messages (sa_outstanding a)) k))
        ` fset (fmdom (om_messages (sa_outstanding a))))"
      by (simp add: fmvals_def image_mset_mset_set)
    moreover have "p \<in># tracker_vals (sa_outstanding a)" using assms(2) by (auto simp: in_fmvals_iff)
    ultimately show ?thesis by (simp add: count_mset_set)
  qed
  ultimately show ?thesis by (simp add: filter_eq_replicate_mset)
qed


lemma run_4_outstanding:
  "map_option (\<lambda>a. map_option pm_ack_id (fmlookup (om_messages (sa_outstanding a)) (AckId 1)))
     (subscription_actor_of run_4 2) = Some (Some (AckId 1))"
  by code_simp

lemma run_4_registered: "registered_subscription run_4 (sub_name run_subscription) = Some run_subscription"
  by code_simp


end
