(* ===== verification/Prometheus.thy ===== *)
theory Prometheus
  imports Strings
begin

text \<open>
  The writer of the Prometheus text format, \<^verbatim>\<open>metrics/encoder.rs\<close>, with a reader of its sample lines that
  undoes the escaping of label values. The writer is its buffer. The characters that are escaped are
  ASCII, so iterating over the bytes of a value is iterating over its characters.
\<close>

section \<open>The writer\<close>

type_synonym prom_text = string

definition line_feed :: char where
  "line_feed = CHR 0x0A"

definition prom_new :: prom_text where
  "prom_new = []"

definition prom_into_string :: "prom_text \<Rightarrow> string" where
  "prom_into_string p = p"

definition prom_family :: "string \<Rightarrow> string \<Rightarrow> string \<Rightarrow> prom_text \<Rightarrow> prom_text" where
  "prom_family name metric_type help p =
     p @ ''# HELP '' @ name @ '' '' @ help @ [line_feed]
       @ ''# TYPE '' @ name @ '' '' @ metric_type @ [line_feed]"

definition prom_sample :: "string \<Rightarrow> string \<Rightarrow> prom_text \<Rightarrow> prom_text" where
  "prom_sample name v p = p @ name @ '' '' @ v @ [line_feed]"

fun escape_label_value :: "string \<Rightarrow> string" where
  "escape_label_value [] = []"
| "escape_label_value (c # cs) =
     (if c = CHR 0x5C then [CHR 0x5C, CHR 0x5C]
      else if c = CHR 0x22 then [CHR 0x5C, CHR 0x22]
      else if c = line_feed then [CHR 0x5C, CHR ''n'']
      else [c]) @ escape_label_value cs"

fun prom_labels :: "nat \<Rightarrow> (string \<times> string) list \<Rightarrow> string" where
  "prom_labels i [] = []"
| "prom_labels i ((key, val) # labels) =
     (if 0 < i then '','' else []) @ key @ [CHR ''='', CHR 0x22] @ escape_label_value val @ [CHR 0x22]
       @ prom_labels (Suc i) labels"

definition prom_labeled :: "string \<Rightarrow> (string \<times> string) list \<Rightarrow> string \<Rightarrow> prom_text \<Rightarrow> prom_text" where
  "prom_labeled name labels v p =
     p @ name @ ''{'' @ prom_labels 0 labels @ ''} '' @ v @ [line_feed]"

section \<open>A reader of sample lines\<close>

text \<open>The value of a label up to its closing quote, with the escapes undone, and the rest.\<close>

fun read_quoted :: "string \<Rightarrow> (string \<times> string) option" where
  "read_quoted [] = None"
| "read_quoted (c # cs) =
     (if c = CHR 0x22 then Some ([], cs)
      else if c = CHR 0x5C then
        (case cs of
           [] \<Rightarrow> None
         | e # es \<Rightarrow>
             map_option (\<lambda>(v, r). ((if e = CHR ''n'' then line_feed else e) # v, r)) (read_quoted es))
      else map_option (\<lambda>(v, r). (c # v, r)) (read_quoted cs))"

definition read_until :: "char \<Rightarrow> string \<Rightarrow> (string \<times> string) option" where
  "read_until d s =
     (case find_char d s of None \<Rightarrow> None | Some i \<Rightarrow> Some (take i s, drop (Suc i) s))"

text \<open>The labels up to the closing brace; the fuel is the length of the text, which every label shortens.\<close>

fun read_labels :: "nat \<Rightarrow> string \<Rightarrow> ((string \<times> string) list \<times> string) option" where
  "read_labels 0 s = None"
| "read_labels (Suc fuel) s =
     (case s of
        [] \<Rightarrow> None
      | c # cs \<Rightarrow>
          if c = CHR ''}'' then Some ([], cs)
          else
            (case read_until (CHR ''='') (if c = CHR '','' then cs else s) of
               Some (key, q # r) \<Rightarrow>
                 if q = CHR 0x22 then
                   (case read_quoted r of
                      None \<Rightarrow> None
                    | Some (v, r') \<Rightarrow> map_option (\<lambda>(ls, r''). ((key, v) # ls, r'')) (read_labels fuel r'))
                 else None
             | _ \<Rightarrow> None))"

definition read_labeled :: "string \<Rightarrow> ((string \<times> (string \<times> string) list \<times> string) \<times> string) option" where
  "read_labeled s =
     (case read_until (CHR ''{'') s of
        None \<Rightarrow> None
      | Some (name, r) \<Rightarrow>
          (case read_labels (length r) r of
             Some (labels, c # r') \<Rightarrow>
               if c = CHR '' '' then map_option (\<lambda>(v, r''). ((name, labels, v), r'')) (read_until line_feed r')
               else None
           | _ \<Rightarrow> None))"

section \<open>Reading back what was written\<close>

lemma read_quoted_escape: "read_quoted (escape_label_value v @ CHR 0x22 # r) = Some (v, r)"
  by (induction v) (auto simp: line_feed_def)

lemma read_until_append: "d \<notin> set xs \<Longrightarrow> read_until d (xs @ d # ys) = Some (xs, ys)"
  by (simp add: read_until_def find_char_append)

text \<open>Keys are read up to the equals sign, so they contain none, and do not start with a delimiter.\<close>

definition label_key :: "string \<Rightarrow> bool" where
  "label_key k \<longleftrightarrow> CHR ''='' \<notin> set k \<and> k \<noteq> [] \<and> hd k \<noteq> CHR ''}'' \<and> hd k \<noteq> CHR '',''"

lemma read_labels_written:
  assumes "list_all (\<lambda>(k, _). label_key k) labels" and "length labels < fuel"
  shows "read_labels fuel (prom_labels i labels @ CHR ''}'' # r) = Some (labels, r)"
  using assms
proof (induction labels arbitrary: fuel i)
  case Nil
  then show ?case by (cases fuel) simp_all
next
  case (Cons kv labels)
  obtain k v where kv: "kv = (k, v)" by (cases kv)
  obtain fuel' where fuel: "fuel = Suc fuel'" using Cons.prems(2) by (cases fuel) auto
  have k: "label_key k" using Cons.prems(1) by (simp add: kv)
  then obtain c cs where ccs: "k = c # cs" by (auto simp: label_key_def neq_Nil_conv)
  let ?rest = "escape_label_value v @ CHR 0x22 # prom_labels (Suc i) labels @ CHR ''}'' # r"
  have until: "read_until (CHR ''='') (k @ CHR ''='' # CHR 0x22 # ?rest) = Some (k, CHR 0x22 # ?rest)"
    using k by (intro read_until_append) (simp add: label_key_def)
  have "read_labels fuel' (prom_labels (Suc i) labels @ CHR ''}'' # r) = Some (labels, r)"
    using Cons.IH Cons.prems fuel by simp
  then have tail: "(case read_until (CHR ''='') (k @ CHR ''='' # CHR 0x22 # ?rest) of
               Some (key, q # r) \<Rightarrow>
                 if q = CHR 0x22 then
                   (case read_quoted r of
                      None \<Rightarrow> None
                    | Some (v, r') \<Rightarrow> map_option (\<lambda>(ls, r''). ((key, v) # ls, r'')) (read_labels fuel' r'))
                 else None
             | _ \<Rightarrow> None) = Some (kv # labels, r)"
    unfolding until by (simp add: read_quoted_escape kv)
  show ?case
  proof (cases "0 < i")
    case True
    then show ?thesis using tail by (simp add: fuel kv)
  next
    case False
    then show ?thesis using tail k by (simp add: fuel kv ccs label_key_def)
  qed
qed

lemma prom_labels_length: "length labels \<le> length (prom_labels i labels)"
  by (induction i labels rule: prom_labels.induct) auto

text \<open>C40. A sample line reads back as it was meant: from the text that the writer appends for a name, its labels
  and a value, the reader recovers all three, whatever characters the label values contain, and leaves
  the text of the following lines.\<close>

theorem labeled_sample_roundtrip:
  assumes "CHR ''{'' \<notin> set name" and "list_all (\<lambda>(k, _). label_key k) labels" and "line_feed \<notin> set v"
  shows "\<exists>line. prom_labeled name labels v p = p @ line
    \<and> read_labeled (line @ rest) = Some ((name, labels, v), rest)"
proof -
  let ?r = "prom_labels 0 labels @ CHR ''}'' # CHR '' '' # v @ line_feed # rest"
  have "length labels < length ?r" using prom_labels_length [of labels 0] by simp
  from read_labels_written [OF assms(2) this, of 0 "CHR '' '' # v @ line_feed # rest"]
  have labels: "read_labels (length ?r) ?r = Some (labels, CHR '' '' # v @ line_feed # rest)" .
  have "read_until (CHR ''{'') (name @ CHR ''{'' # ?r) = Some (name, ?r)"
    by (rule read_until_append [OF assms(1)])
  then have "read_labeled (name @ CHR ''{'' # ?r) = Some ((name, labels, v), rest)"
    unfolding read_labeled_def using labels read_until_append [OF assms(3), of rest] by simp
  then show ?thesis
    by (intro exI [of _ "name @ ''{'' @ prom_labels 0 labels @ ''} '' @ v @ [line_feed]"])
      (simp add: prom_labeled_def)
qed

theorem labeled_sample_roundtrip_witness:
  "\<exists>line. prom_labeled ''m'' [(''k'', [CHR ''a'', CHR 0x22, CHR 0x5C, line_feed])] ''1'' [] = line
    \<and> read_labeled (line @ ''next'') = Some ((''m'', [(''k'', [CHR ''a'', CHR 0x22, CHR 0x5C, line_feed])], ''1''), ''next'')"
  using labeled_sample_roundtrip [of "''m''" "[(''k'', [CHR ''a'', CHR 0x22, CHR 0x5C, line_feed])]" "''1''" "[]" "''next''"]
  by (simp add: label_key_def line_feed_def)

end
