(* ===== verification/Metrics.thy ===== *)
theory Metrics
  imports Prometheus Push_Metrics Broker
begin

text \<open>
  The metrics service, \<^verbatim>\<open>metrics/mod.rs\<close>: it asks every topic and every subscription for its statistics and
  renders them, together with a snapshot of the push metrics, as Prometheus text; and the handler of the
  HTTP endpoint. The version of the build is an argument; the socket and the HTTP library are not
  modelled, a request is its path.
\<close>

section \<open>Rendering\<close>

definition show_u64 :: "u64 \<Rightarrow> string" where
  "show_u64 w = show_nat (unat w)"

text \<open>One sample per topic and per subscription, in the order of the statistics.\<close>

definition topic_samples ::
    "string \<Rightarrow> (topic_stats \<Rightarrow> u64) \<Rightarrow> topic_stats list \<Rightarrow> prom_text \<Rightarrow> prom_text" where
  "topic_samples name get ts p =
     fold (\<lambda>t. prom_labeled name [(''topic'', topic_name_to_string (ts_topic_name t))] (show_u64 (get t))) ts p"

definition subscription_samples ::
    "string \<Rightarrow> (subscription_stats \<Rightarrow> string) \<Rightarrow> subscription_stats list \<Rightarrow> prom_text \<Rightarrow> prom_text" where
  "subscription_samples name get ss p =
     fold (\<lambda>s. prom_labeled name
       [(''subscription'', subscription_name_to_string (ss_subscription_name s)),
        (''topic'', topic_name_to_string (ss_topic_name s))] (get s)) ss p"

definition render_process_info :: "string \<Rightarrow> u64 \<Rightarrow> nat \<Rightarrow> nat \<Rightarrow> prom_text \<Rightarrow> prom_text" where
  "render_process_info version start_time_seconds topics_total subscriptions_total p0 =
     (let p1 = prom_family ''deltio_build_info'' ''gauge'' ''Build information; the value is always 1.'' p0;
          p2 = prom_labeled ''deltio_build_info'' [(''version'', version)] (show_u64 1) p1;
          p3 = prom_family ''deltio_start_time_seconds'' ''gauge''
                 ''Unix timestamp at which the metrics service started.'' p2;
          p4 = prom_sample ''deltio_start_time_seconds'' (show_u64 start_time_seconds) p3;
          p5 = prom_family ''deltio_topics'' ''gauge'' ''Number of topics.'' p4;
          p6 = prom_sample ''deltio_topics'' (show_u64 (of_nat topics_total)) p5;
          p7 = prom_family ''deltio_subscriptions'' ''gauge'' ''Number of subscriptions.'' p6
      in prom_sample ''deltio_subscriptions'' (show_u64 (of_nat subscriptions_total)) p7)"

definition render_topics :: "topic_stats list \<Rightarrow> prom_text \<Rightarrow> prom_text" where
  "render_topics ts p0 =
     (let p1 = prom_family ''deltio_topic_retained_messages'' ''gauge''
                 ''Number of messages currently retained on the topic.'' p0;
          p2 = topic_samples ''deltio_topic_retained_messages'' (\<lambda>t. of_nat (ts_message_count t)) ts p1;
          p3 = prom_family ''deltio_topic_subscriptions'' ''gauge''
                 ''Number of subscriptions attached to the topic.'' p2;
          p4 = topic_samples ''deltio_topic_subscriptions'' (\<lambda>t. of_nat (ts_subscription_count t)) ts p3;
          p5 = prom_family ''deltio_topic_messages_published_total'' ''counter''
                 ''Total number of messages published to the topic.'' p4;
          p6 = topic_samples ''deltio_topic_messages_published_total'' ts_published_count ts p5;
          p7 = prom_family ''deltio_topic_messages_published_bytes_total'' ''counter''
                 ''Total number of message data bytes published to the topic.'' p6
      in topic_samples ''deltio_topic_messages_published_bytes_total'' ts_published_bytes ts p7)"

definition render_subscription_gauges :: "subscription_stats list \<Rightarrow> prom_text \<Rightarrow> prom_text" where
  "render_subscription_gauges ss p0 =
     (let p1 = prom_family ''deltio_subscription_backlog_messages'' ''gauge''
                 ''Number of messages in the subscription backlog waiting to be delivered.'' p0;
          p2 = subscription_samples ''deltio_subscription_backlog_messages''
                 (\<lambda>s. show_u64 (of_nat (ss_backlog_messages_count s))) ss p1;
          p3 = prom_family ''deltio_subscription_outstanding_messages'' ''gauge''
                 ''Number of messages delivered but not yet acknowledged.'' p2;
          p4 = subscription_samples ''deltio_subscription_outstanding_messages''
                 (\<lambda>s. show_u64 (of_nat (ss_outstanding_messages_count s))) ss p3;
          p5 = prom_family ''deltio_subscription_retry_messages'' ''gauge''
                 ''Number of messages waiting on retry backoff before redelivery.'' p4;
          p6 = subscription_samples ''deltio_subscription_retry_messages''
                 (\<lambda>s. show_u64 (of_nat (ss_retry_messages_count s))) ss p5;
          p7 = prom_family ''deltio_subscription_oldest_unacked_message_age_seconds'' ''gauge''
                 ''Age in seconds of the oldest unacknowledged message.'' p6
      in subscription_samples ''deltio_subscription_oldest_unacked_message_age_seconds''
           (\<lambda>s. format_fixed 3 (as_secs_f64 (ss_oldest_unacked_age s))) ss p7)"

definition subscription_counter_families ::
    "(string \<times> string \<times> (subscription_stats \<Rightarrow> u64)) list" where
  "subscription_counter_families =
     [(''deltio_subscription_messages_pulled_total'',
       ''Total number of messages delivered to consumers.'', \<lambda>s. ct_pulled (ss_counters s)),
      (''deltio_subscription_messages_acked_total'',
       ''Total number of messages acknowledged.'', \<lambda>s. ct_acked (ss_counters s)),
      (''deltio_subscription_messages_nacked_total'',
       ''Total number of messages explicitly nacked.'', \<lambda>s. ct_nacked (ss_counters s)),
      (''deltio_subscription_messages_expired_total'',
       ''Total number of messages redelivered after their ack deadline expired.'',
       \<lambda>s. ct_expired (ss_counters s)),
      (''deltio_subscription_messages_dead_lettered_total'',
       ''Total number of messages forwarded to a dead letter topic.'',
       \<lambda>s. ct_dead_lettered (ss_counters s))]"

definition render_subscription_counters :: "subscription_stats list \<Rightarrow> prom_text \<Rightarrow> prom_text" where
  "render_subscription_counters ss p =
     fold (\<lambda>(name, help, get) q.
         fold (\<lambda>s. prom_labeled name
                 [(''subscription'', subscription_name_to_string (ss_subscription_name s))]
                 (show_u64 (get s))) ss
           (prom_family name ''counter'' help q))
       subscription_counter_families p"

text \<open>The loop over the buckets of the histogram: the counts are accumulated.\<close>

fun cumulative_buckets :: "u64 \<Rightarrow> f64 list \<Rightarrow> u64 list \<Rightarrow> (f64 \<times> u64) list" where
  "cumulative_buckets cumulative (bound # bounds) (n # ns) =
     (bound, cumulative + n) # cumulative_buckets (cumulative + n) bounds ns"
| "cumulative_buckets cumulative _ _ = []"

definition bucket_label :: "f64 \<Rightarrow> string" where
  "bucket_label bound = (case bound of Infinity \<Rightarrow> ''+Inf'' | Finite x \<Rightarrow> f64_display bound)"

definition render_push :: "push_metrics_snapshot \<Rightarrow> prom_text \<Rightarrow> prom_text" where
  "render_push push p0 =
     (let p1 = prom_family ''deltio_push_dispatch_total'' ''counter''
                 ''Total number of HTTP push dispatches, by result.'' p0;
          p2 = prom_labeled ''deltio_push_dispatch_total'' [(''result'', ''success'')]
                 (show_u64 (ps_dispatch_success push)) p1;
          p3 = prom_labeled ''deltio_push_dispatch_total'' [(''result'', ''failure'')]
                 (show_u64 (ps_dispatch_failure push)) p2;
          p4 = prom_family ''deltio_push_dispatch_duration_seconds'' ''histogram''
                 ''Duration of HTTP push dispatches in seconds.'' p3;
          p5 = fold (\<lambda>(bound, cumulative).
                   prom_labeled ''deltio_push_dispatch_duration_seconds_bucket''
                     [(''le'', bucket_label bound)] (show_u64 cumulative))
                 (cumulative_buckets 0 DURATION_BUCKETS_SECONDS (ps_duration_buckets push)) p4;
          sum_seconds = f64_div (f64_of_nat (unat (ps_duration_sum_micros push))) (f64_of_nat 1000000);
          p6 = prom_sample ''deltio_push_dispatch_duration_seconds_sum'' (format_fixed 6 sum_seconds) p5
      in prom_sample ''deltio_push_dispatch_duration_seconds_count''
           (show_u64 (ps_duration_count push)) p6)"

definition render_text ::
    "string \<Rightarrow> nat \<Rightarrow> nat \<Rightarrow> topic_stats list \<Rightarrow> subscription_stats list \<Rightarrow> push_metrics_snapshot
     \<Rightarrow> u64 \<Rightarrow> string" where
  "render_text version topics_total subscriptions_total ts ss push start_time_seconds =
     prom_into_string
       (render_push push
         (render_subscription_counters ss
           (render_subscription_gauges ss
             (render_topics ts
               (render_process_info version start_time_seconds topics_total subscriptions_total prom_new)))))"

section \<open>Collecting\<close>

text \<open>\<^verbatim>\<open>list_all_topics\<close> and \<^verbatim>\<open>list_all_subscriptions\<close> clone the values in iteration order, which is the
  argument. The handles that do not answer drop out.\<close>

definition list_all_topics :: "topic list \<Rightarrow> topic list" where
  "list_all_topics order = order"

definition list_all_subscriptions :: "subscription list \<Rightarrow> subscription list" where
  "list_all_subscriptions order = order"

fun gather :: "('h \<Rightarrow> broker \<Rightarrow> ('e + 'a) \<times> broker) \<Rightarrow> 'h list \<Rightarrow> broker \<Rightarrow> 'a list \<times> broker" where
  "gather call [] b = ([], b)"
| "gather call (h # hs) b =
     (case call h b of
        (Inl _, b') \<Rightarrow> gather call hs b'
      | (Inr x, b') \<Rightarrow> (case gather call hs b' of (xs, b'') \<Rightarrow> (x # xs, b'')))"

text \<open>The service refers to the managers and to the push metrics; the current values of what it shares with
  the rest of the program are the arguments \<open>b\<close> and \<open>push\<close>.\<close>

record metrics_service =
  ms_start_time_seconds :: u64

definition metrics_service_new :: "system_time \<Rightarrow> metrics_service" where
  "metrics_service_new now =
     \<lparr>ms_start_time_seconds = (if 0 \<le> now then of_nat (as_secs (nat now)) else 0)\<rparr>"

definition metrics_render ::
    "string \<Rightarrow> broker_env \<Rightarrow> metrics_service \<Rightarrow> push_metrics \<Rightarrow> broker \<Rightarrow> string \<times> broker" where
  "metrics_render version env service push b =
     (let topics = list_all_topics (be_topic_order env);
          subscriptions = list_all_subscriptions (be_subscription_order env);
          (ts, b1) = gather (topic_handle_get_stats env) topics b;
          (ss, b2) = gather (subscription_get_stats env) subscriptions b1
      in (render_text version (length topics) (length subscriptions) ts ss
            (push_metrics_snapshot_of push) (ms_start_time_seconds service), b2))"

section \<open>The endpoint\<close>

record http_response =
  hp_status :: nat
  hp_content_type :: "string option"
  hp_body :: string

definition metrics_handle ::
    "string \<Rightarrow> broker_env \<Rightarrow> metrics_service \<Rightarrow> push_metrics \<Rightarrow> string \<Rightarrow> broker
     \<Rightarrow> http_response \<times> broker" where
  "metrics_handle version env service push path b =
     (if path = ''/metrics'' then
        (case metrics_render version env service push b of
           (body, b') \<Rightarrow>
             (\<lparr>hp_status = 200, hp_content_type = Some ''text/plain; version=0.0.4; charset=utf-8'',
               hp_body = body\<rparr>, b'))
      else if path = ''/healthz'' \<or> path = ''/health'' then
        (\<lparr>hp_status = 200, hp_content_type = Some ''text/plain; charset=utf-8'', hp_body = ''ok''\<rparr>, b)
      else (\<lparr>hp_status = 404, hp_content_type = None, hp_body = ''not found''\<rparr>, b))"

end
