(* ===== verification/Metrics_Properties.thy ===== *)
theory Metrics_Properties
  imports Metrics Broker_Sample
begin

text \<open>
  What the metrics endpoint shows: the histogram counts the dispatches up to each bound, and a scrape
  reports every topic and subscription of the broker without changing it.
\<close>

section \<open>The histogram\<close>

lemma cumulative_buckets_sums:
  "length bs = length ns \<Longrightarrow> cumulative_buckets c bs ns
     = zip bs (map (\<lambda>i. c + sum_list (take (Suc i) ns)) [0..<length ns])"
proof (induction bs ns arbitrary: c rule: list_induct2)
  case (Cons b bs n ns)
  have "[0..<length (n # ns)] = 0 # map Suc [0..<length ns]"
    by (simp add: map_Suc_upt upt_conv_Cons del: upt_Suc)
  with Cons show ?case by (simp add: add.assoc comp_def del: upt_Suc)
qed simp

lemma count_at_most:
  "length (filter (\<lambda>x. g x \<le> i) xs) = sum_list (map (\<lambda>j. length (filter (\<lambda>x. g x = j) xs)) [0..<Suc i])"
proof (induction i)
  case (Suc i)
  have "length (filter (\<lambda>x. g x \<le> Suc i) xs)
      = length (filter (\<lambda>x. g x \<le> i) xs) + length (filter (\<lambda>x. g x = Suc i) xs)"
    by (induction xs) (auto simp: le_Suc_eq)
  with Suc show ?case by simp
qed simp

lemma of_nat_sum_words: "of_nat (sum_list ns) = (sum_list (map of_nat ns) :: u64)"
  by (induction ns) simp_all

lemma exact_bucket_le:
  assumes "i < length bucket_bounds_nanos"
  shows "exact_bucket d \<le> i \<longleftrightarrow> d \<le> bucket_bounds_nanos ! i"
proof -
  have less: "length (filter (\<lambda>b. b < d) bs) \<le> i \<longleftrightarrow> d \<le> bs ! i"
    if "sorted bs" "i < length bs" for bs :: "nat list" and i
    using that
  proof (induction bs arbitrary: i)
    case (Cons b bs)
    show ?case
    proof (cases "b < d")
      case True
      then show ?thesis using Cons by (cases i) auto
    next
      case False
      then have "filter (\<lambda>b. b < d) bs = []" using Cons.prems(1) by (auto simp: filter_empty_conv)
      moreover have "d \<le> (b # bs) ! i"
        using False Cons.prems by (cases i) (auto simp: order_trans [of d b])
      ultimately show ?thesis using False by simp
    qed
  qed simp
  show ?thesis unfolding exact_bucket_def by (rule less [OF _ assms]) (simp add: bucket_bounds_nanos_def)
qed

text \<open>The rendered histogram is cumulative over the exact bounds: after any sequence of recorded dispatches,
  the bucket of a bound shows, modulo \<open>2 ^ 64\<close>, the number of dispatches that took at most that long, in
  the order of the bounds, and the last bucket shows all of them, which is also the reported count.\<close>

theorem histogram_counts_up_to_bound:
  "cumulative_buckets 0 DURATION_BUCKETS_SECONDS
       (ps_duration_buckets (push_metrics_snapshot_of (push_metrics_run ds)))
     = zip DURATION_BUCKETS_SECONDS
         (map (\<lambda>b. of_nat (length (filter (\<lambda>x. snd x \<le> b) ds))) bucket_bounds_nanos @ [of_nat (length ds)])
   \<and> ps_duration_count (push_metrics_snapshot_of (push_metrics_run ds)) = of_nat (length ds)"
proof -
  let ?n = "\<lambda>i. length (filter (\<lambda>x. exact_bucket (snd x) = i) ds)"
  let ?ns = "ps_duration_buckets (push_metrics_snapshot_of (push_metrics_run ds))"
  have ns: "?ns = map (\<lambda>i. of_nat (?n i)) [0..<12]"
    using push_metrics_run_buckets [of ds]
    by (intro nth_equalityI) (auto simp: push_metrics_snapshot_of_def)
  have sums: "sum_list (take (Suc i) ?ns) = of_nat (length (filter (\<lambda>x. exact_bucket (snd x) \<le> i) ds))"
    if "i < 12" for i
  proof -
    have "take (Suc i) ?ns = map (\<lambda>i. of_nat (?n i)) [0..<Suc i]"
      using that by (simp add: ns take_map take_upt del: upt_Suc)
    then show ?thesis by (simp only: count_at_most of_nat_sum_words map_map comp_def)
  qed
  have last: "length (filter (\<lambda>x. exact_bucket (snd x) \<le> i) ds) = length ds" if "\<not> i < 11" for i
  proof -
    have "exact_bucket (snd x) \<le> i" for x :: "bool \<times> duration"
      using exact_bucket_less [of "snd x"] that by linarith
    then show ?thesis by simp
  qed
  have bounds: "length bucket_bounds_nanos = 11" by (simp add: bucket_bounds_nanos_def)
  have "map (\<lambda>i. 0 + sum_list (take (Suc i) ?ns)) [0..<length ?ns]
      = map (\<lambda>i. of_nat (length (filter (\<lambda>x. exact_bucket (snd x) \<le> i) ds))) [0..<12]"
    using sums by (simp add: ns del: upt_Suc upt_rec_numeral)
  also have "\<dots> = map (\<lambda>b. of_nat (length (filter (\<lambda>x. snd x \<le> b) ds))) bucket_bounds_nanos
      @ [of_nat (length ds)]"
    using exact_bucket_le last bounds
    by (intro nth_equalityI) (auto simp: nth_append less_Suc_eq)
  finally have "map (\<lambda>i. 0 + sum_list (take (Suc i) ?ns)) [0..<length ?ns] = \<dots>" .
  then have "cumulative_buckets 0 DURATION_BUCKETS_SECONDS ?ns
      = zip DURATION_BUCKETS_SECONDS (map (\<lambda>b. of_nat (length (filter (\<lambda>x. snd x \<le> b) ds)))
          bucket_bounds_nanos @ [of_nat (length ds)])"
    by (subst cumulative_buckets_sums) (simp_all add: ns)
  then show ?thesis
    using push_metrics_run_totals [of ds] by (simp add: push_metrics_snapshot_of_def)
qed

section \<open>A scrape\<close>

lemma gather_all: "(\<And>h. h \<in> set hs \<Longrightarrow> call h b = (Inr (f h), b)) \<Longrightarrow> gather call hs b = (map f hs, b)"
  by (induction hs) simp_all

lemma topic_stats_call:
  assumes "topic_actor_of b (topic_internal_id t) = Some ta"
  shows "topic_handle_get_stats env t b = (topic_get_stats ta, b)"
  using assms by (simp add: topic_handle_get_stats_def topic_call_def set_topic_actor_def fmupd_lookup_idle)

lemma subscription_stats_call:
  assumes "subscription_actor_of b (sub_internal_id s) = Some a" and "\<not> stopped a"
  shows "subscription_get_stats env s b = (actor_get_stats (actor_env_of env (sub_topic s) b) a, b)"
  using assms by (simp add: subscription_get_stats_def subscription_call_def set_subscription_actor_def
      fmupd_lookup_idle)

text \<open>The statistics that belong to a handle of the broker.\<close>

definition topic_stats_of :: "broker \<Rightarrow> topic \<Rightarrow> topic_stats" where
  "topic_stats_of b t = projr (topic_get_stats (the (topic_actor_of b (topic_internal_id t))))"

definition subscription_stats_of :: "broker_env \<Rightarrow> broker \<Rightarrow> subscription \<Rightarrow> subscription_stats" where
  "subscription_stats_of env b s =
     projr (actor_get_stats (actor_env_of env (sub_topic s) b)
       (the (subscription_actor_of b (sub_internal_id s))))"

lemma scrape_answers:
  assumes "broker_reachable b" and "enumerates (be_topic_order env) (tm_topics (bk_topics b))"
    and "enumerates (be_subscription_order env) (sm_subscriptions (bk_subscriptions b))"
  shows "t \<in> set (be_topic_order env) \<Longrightarrow> topic_handle_get_stats env t b = (Inr (topic_stats_of b t), b)
      \<and> ts_topic_name (topic_stats_of b t) = topic_handle_name t"
    and "s \<in> set (be_subscription_order env) \<Longrightarrow>
      subscription_get_stats env s b = (Inr (subscription_stats_of env b s), b)
      \<and> ss_subscription_name (subscription_stats_of env b s) = sub_name s"
proof -
  note inv = broker_reachable_inv [OF assms(1)]
  show "topic_handle_get_stats env t b = (Inr (topic_stats_of b t), b)
      \<and> ts_topic_name (topic_stats_of b t) = topic_handle_name t" if t: "t \<in> set (be_topic_order env)"
  proof -
    obtain n where n: "registered_topic b n = Some t"
      using enumerates_set [OF assms(2)] t by blast
    obtain ta where ta: "topic_actor_of b (topic_internal_id t) = Some ta"
        "ti_name (ta_info ta) = topic_handle_name t"
      by (rule registered_topic_handle [OF inv n]) simp
    then show ?thesis
      by (simp add: topic_stats_call [OF ta(1)] topic_stats_of_def topic_get_stats_def topic_stats_new_def)
  qed
  show "subscription_get_stats env s b = (Inr (subscription_stats_of env b s), b)
      \<and> ss_subscription_name (subscription_stats_of env b s) = sub_name s"
    if s: "s \<in> set (be_subscription_order env)"
  proof -
    obtain n where n: "registered_subscription b n = Some s"
      using enumerates_set [OF assms(3)] s by blast
    obtain a where a: "subscription_actor_of b (sub_internal_id s) = Some a" "\<not> stopped a"
        "si_name (sa_info a) = sub_name s"
      by (rule registered_subscription_actor [OF inv n]) simp
    then show ?thesis
      by (simp add: subscription_stats_call [OF a(1,2)] subscription_stats_of_def actor_get_stats_def
          subscription_stats_new_def Let_def)
  qed
qed

lemma metrics_render_result:
  assumes "broker_reachable b" and "enumerates (be_topic_order env) (tm_topics (bk_topics b))"
    and "enumerates (be_subscription_order env) (sm_subscriptions (bk_subscriptions b))"
  shows "metrics_render version env service push b
      = (render_text version (hm_len (tm_topics (bk_topics b))) (hm_len (sm_subscriptions (bk_subscriptions b)))
           (map (topic_stats_of b) (be_topic_order env))
           (map (subscription_stats_of env b) (be_subscription_order env))
           (push_metrics_snapshot_of push) (ms_start_time_seconds service), b)"
proof -
  have "gather (topic_handle_get_stats env) (be_topic_order env) b
      = (map (topic_stats_of b) (be_topic_order env), b)"
    "gather (subscription_get_stats env) (be_subscription_order env) b
      = (map (subscription_stats_of env b) (be_subscription_order env), b)"
    using scrape_answers [OF assms] by (auto intro: gather_all)
  then show ?thesis
    using enumerates_length [OF assms(2)] enumerates_length [OF assms(3)]
    by (simp add: metrics_render_def list_all_topics_def list_all_subscriptions_def)
qed


lemma run_1_registries:
  "tm_topics (bk_topics run_1) = fmupd run_topic_name run_topic fmempty"
  "sm_subscriptions (bk_subscriptions run_1) = fmempty"
  by code_simp+


end
