(* ===== verification/Deltio.thy ===== *)
theory Deltio
  imports Push_Properties Metrics_Properties Broker_Properties
begin

text \<open>
  The application (\<^verbatim>\<open>src/src/lib.rs\<close>) and its start (\<^verbatim>\<open>src/src/main.rs\<close>): the managers, the push registry
  and the push metrics are created once and shared by the gRPC services, the push loop and the metrics
  endpoint. The program as a whole is the interleaving of these; it keeps the broker in its reachable states,
  so that what is proved of the broker holds while the push loop and the endpoint run.
\<close>

section \<open>The application\<close>

record push_loop =
  pl_interval :: duration
  pl_max_concurrency :: u64

definition push_loop_new :: "duration \<Rightarrow> u64 \<Rightarrow> push_loop" where
  "push_loop_new interval max_concurrency =
     \<lparr>pl_interval = interval, pl_max_concurrency = max_concurrency\<rparr>"

text \<open>The shared parts are the state \<open>dt_state\<close>: the broker holds both managers and the push registry, and the
  push metrics are beside it.\<close>

record deltio =
  dt_state :: push_state
  dt_metrics_service :: metrics_service

definition deltio_new :: "system_time \<Rightarrow> deltio" where
  "deltio_new now = \<lparr>dt_state = push_start broker_new, dt_metrics_service = metrics_service_new now\<rparr>"

definition deltio_push_loop :: "duration \<Rightarrow> u64 \<Rightarrow> deltio \<Rightarrow> push_loop" where
  "deltio_push_loop interval max_concurrency d = push_loop_new interval max_concurrency"

definition deltio_metrics_service :: "deltio \<Rightarrow> metrics_service" where
  "deltio_metrics_service d = dt_metrics_service d"

definition collect_metrics :: "string \<Rightarrow> broker_env \<Rightarrow> deltio \<Rightarrow> string \<times> deltio" where
  "collect_metrics version env d =
     (case metrics_render version env (dt_metrics_service d) (pu_metrics (dt_state d)) (pu_broker (dt_state d)) of
        (text, b) \<Rightarrow> (text, d\<lparr>dt_state := (dt_state d)\<lparr>pu_broker := b\<rparr>\<rparr>))"

section \<open>Start-up\<close>

datatype log_level_arg = Arg_Off | Arg_Error | Arg_Warn | Arg_Info | Arg_Debug | Arg_Trace

datatype level_filter = Filter_Off | Filter_Error | Filter_Warn | Filter_Info | Filter_Debug | Filter_Trace

fun map_log_level :: "log_level_arg \<Rightarrow> level_filter" where
  "map_log_level Arg_Off = Filter_Off"
| "map_log_level Arg_Error = Filter_Error"
| "map_log_level Arg_Warn = Filter_Warn"
| "map_log_level Arg_Info = Filter_Info"
| "map_log_level Arg_Debug = Filter_Debug"
| "map_log_level Arg_Trace = Filter_Trace"

record cli =
  cli_bind :: string
  cli_metrics_bind :: string
  cli_no_metrics :: bool
  cli_log :: log_level_arg
  cli_push_loop_interval :: u64
  cli_push_concurrency :: u64
  cli_single_thread :: bool

text \<open>The values without any option on the command line.\<close>

definition cli_default :: cli where
  "cli_default =
     \<lparr>cli_bind = ''0.0.0.0:8085'', cli_metrics_bind = ''0.0.0.0:9091'', cli_no_metrics = False,
      cli_log = Arg_Info, cli_push_loop_interval = 1000, cli_push_concurrency = 10,
      cli_single_thread = False\<rparr>"

datatype runtime_flavor = CurrentThread | MultiThread

text \<open>What \<^verbatim>\<open>main\<close> and \<^verbatim>\<open>main_core\<close> set up before the process waits for its tasks: the metrics endpoint is
  left out when it is disabled, and an error of it does not end the process.\<close>

record process =
  pr_runtime :: runtime_flavor
  pr_log_level :: level_filter
  pr_app :: deltio
  pr_listen :: string
  pr_push_loop :: push_loop
  pr_metrics_endpoint :: "string option"

definition main_core :: "system_time \<Rightarrow> runtime_flavor \<Rightarrow> cli \<Rightarrow> process" where
  "main_core now runtime args =
     (let app = deltio_new now
      in \<lparr>pr_runtime = runtime, pr_log_level = map_log_level (cli_log args), pr_app = app,
          pr_listen = cli_bind args,
          pr_push_loop = deltio_push_loop (unat (cli_push_loop_interval args) * 1000000)
            (cli_push_concurrency args) app,
          pr_metrics_endpoint = (if cli_no_metrics args then None else Some (cli_metrics_bind args))\<rparr>)"

definition main_process :: "system_time \<Rightarrow> cli \<Rightarrow> process" where
  "main_process now args = main_core now (if cli_single_thread args then CurrentThread else MultiThread) args"

section \<open>The running program\<close>

text \<open>The push loop of the process, beside the calls of the services, the timers and the spawned tasks, and
  requests to the metrics endpoint, in any order.\<close>

inductive system_step :: "push_externals \<Rightarrow> string \<Rightarrow> u64 \<Rightarrow> deltio \<Rightarrow> deltio \<Rightarrow> bool"
  for px :: push_externals and version :: string and mc :: u64 where
  running: "broker_room (pu_broker (dt_state d)) \<Longrightarrow> push_step px mc broker_step (dt_state d) u \<Longrightarrow>
    system_step px version mc d (d\<lparr>dt_state := u\<rparr>)"
| scraped: "enumerates (be_topic_order env) (tm_topics (bk_topics (pu_broker (dt_state d)))) \<Longrightarrow>
    enumerates (be_subscription_order env) (sm_subscriptions (bk_subscriptions (pu_broker (dt_state d)))) \<Longrightarrow>
    metrics_handle version env (deltio_metrics_service d) (pu_metrics (dt_state d)) path (pu_broker (dt_state d))
      = (response, b') \<Longrightarrow>
    system_step px version mc d (d\<lparr>dt_state := (dt_state d)\<lparr>pu_broker := b'\<rparr>\<rparr>)"

inductive system_reachable :: "push_externals \<Rightarrow> string \<Rightarrow> cli \<Rightarrow> deltio \<Rightarrow> bool"
  for px :: push_externals and version :: string and args :: cli where
  start: "system_reachable px version args (pr_app (main_process now args))"
| step: "system_reachable px version args d \<Longrightarrow>
    system_step px version (pl_max_concurrency (pr_push_loop (main_process now args))) d d' \<Longrightarrow>
    system_reachable px version args d'"

text \<open>The calls of the push loop are calls of known subscriptions.\<close>

definition jobs_known :: "push_state \<Rightarrow> bool" where
  "jobs_known u \<longleftrightarrow> (\<forall>j \<in> set (pu_jobs u). known_subscription (pu_broker u) (pj_subscription j))"

lemma known_subscription_step:
  "broker_reachable b \<Longrightarrow> broker_step b b' \<Longrightarrow> known_subscription b s \<Longrightarrow> known_subscription b' s"
  using known_subscription_extends broker_step_inv broker_step_extends broker_reachable_inv by blast

lemma push_pull_call:
  "snd (push_pull env mc j b) = snd (subscription_call env (pj_subscription j) (PullMessages (push_batch_size mc) 0) b)"
  by (auto simp: push_pull_def subscription_pull_messages_def pull_messages_capped_def
      split: prod.split option.split sum.split subscription_response.split)

lemma push_call_step:
  assumes "broker_room b" and "known_subscription b s" and "r \<in> {PullMessages c m, AcknowledgeMessages ids, ModifyDeadline mods}"
  shows "broker_step b (snd (subscription_call env s r b))"
  using assms by (intro broker_step.subscription_called) (auto simp: subscription_request_ok_def)

lemma push_pull_subscription: "push_pull env mc j b = (Some j', b') \<Longrightarrow> pj_subscription j' = pj_subscription j"
  by (auto simp: push_pull_def split: prod.splits sum.splits)

lemma push_job_subscription:
  "push_start_dispatch px j = Some (r, j') \<Longrightarrow> pj_subscription j' = pj_subscription j"
  "push_respond k success j = Some j' \<Longrightarrow> pj_subscription j' = pj_subscription j"
  "push_settle env k j b = Some (j', b') \<Longrightarrow> pj_subscription j' = pj_subscription j"
  by (auto simp: push_start_dispatch_def push_respond_def push_settle_def Let_def
      split: list.splits if_splits dispatch_stage.splits)

lemma jobs_known_mono:
  assumes "jobs_known u" and "\<And>s. known_subscription (pu_broker u) s \<Longrightarrow> known_subscription (pu_broker u') s"
    and "pj_subscription ` set (pu_jobs u') \<subseteq> pj_subscription ` set (pu_jobs u)"
  shows "jobs_known u'"
  using assms unfolding jobs_known_def by (metis image_iff image_subset_iff)

lemma remove_job_subset: "pj_subscription ` set (pu_jobs (remove_job i u)) \<subseteq> pj_subscription ` set (pu_jobs u)"
  by (auto simp: remove_job_def dest: in_set_takeD in_set_dropD)

lemma set_job_subset:
  assumes "i < length (pu_jobs u)" and "pj_subscription j = pj_subscription (pu_jobs u ! i)"
  shows "pj_subscription ` set (pu_jobs (set_job i j u)) \<subseteq> pj_subscription ` set (pu_jobs u)"
  using assms set_update_subset_insert [of "pu_jobs u" i j] by (fastforce simp: set_job_def)

lemma push_job_fields [simp]:
  "pu_broker (remove_job i u) = pu_broker u" "pu_broker (set_job i j u) = pu_broker u"
  by (simp_all add: remove_job_def set_job_def)

lemma called_jobs_known:
  assumes "jobs_known u" and "broker_reachable (pu_broker u)" and "broker_step (pu_broker u) b'"
  shows "jobs_known (remove_job i (u\<lparr>pu_broker := b'\<rparr>))"
    and "\<lbrakk>i < length (pu_jobs u); pj_subscription j = pj_subscription (pu_jobs u ! i)\<rbrakk>
      \<Longrightarrow> jobs_known (set_job i j (u\<lparr>pu_broker := b'\<rparr>))"
  using known_subscription_step [OF assms(2,3)] remove_job_subset [of i "u\<lparr>pu_broker := b'\<rparr>"]
    set_job_subset [of i "u\<lparr>pu_broker := b'\<rparr>" j]
  by (auto intro!: jobs_known_mono [OF assms(1)])

lemma push_pull_step:
  assumes "jobs_known u" and "broker_room (pu_broker u)" and "i < length (pu_jobs u)"
    and "push_pull env mc (pu_jobs u ! i) (pu_broker u) = (r, b')"
  shows "broker_step (pu_broker u) b'"
  using assms push_pull_call [of env mc "pu_jobs u ! i" "pu_broker u"]
    push_call_step [of "pu_broker u" "pj_subscription (pu_jobs u ! i)"]
  by (auto simp: jobs_known_def)

lemma push_step_system:
  assumes "push_step px mc broker_step u u'" and "broker_room (pu_broker u)"
    and "broker_reachable (pu_broker u)" and "jobs_known u"
  shows "(pu_broker u' = pu_broker u \<or> broker_step (pu_broker u) (pu_broker u')) \<and> jobs_known u'"
  using assms
proof (induction rule: push_step.induct)
  case (tick order u)
  note inv = broker_reachable_inv [OF tick(4)]
  have "known_subscription (pu_broker u) (pj_subscription j)"
    if "j \<in> set (push_spawn entries (pu_broker u))" for j entries
    using that registered_known [OF inv]
    by (auto simp: push_spawn_def List.map_filter_def manager_get_subscription_def state_get_subscription_def
        push_job_new_def split: option.splits)
  then show ?case using tick(5) by (auto simp: jobs_known_def push_tick_def Let_def)
next
  case (pull_failed i u env b')
  then have "broker_step (pu_broker u) b'" by (metis push_pull_step)
  then show ?case using called_jobs_known(1) [OF pull_failed(6,5)] by simp
next
  case (pulled i u env j b')
  then have "broker_step (pu_broker u) b'" by (metis push_pull_step)
  then show ?case
    using called_jobs_known(2) [OF pulled(6,5)] push_pull_subscription [OF pulled(3)] pulled(1) by simp
next
  case (dispatched i u r j)
  then show ?case
    using set_job_subset [of i "u\<lparr>pu_requests := pu_requests u @ [r]\<rparr>" j] push_job_subscription(1)
    by (auto intro!: jobs_known_mono [OF dispatched.prems(3)])
next
  case (responded i u success result k j elapsed)
  show ?case
    using responded set_job_subset [of i u j] push_job_subscription(2) [OF responded(3)]
    by (auto intro!: jobs_known_mono [OF responded.prems(3)] simp: set_job_def)
next
  case (settled i u env k j b')
  then have "\<exists>p success. b' = dispatch_settle env (pj_subscription (pu_jobs u ! i)) p success (pu_broker u)"
    by (auto simp: push_settle_def Let_def split: if_splits dispatch_stage.splits)
  then have step: "broker_step (pu_broker u) b'"
    using settled push_call_step [of "pu_broker u" "pj_subscription (pu_jobs u ! i)"]
    by (auto simp: dispatch_settle_call jobs_known_def)
  then show ?case
    using called_jobs_known(2) [OF settled(5,4)] push_job_subscription(3) [OF settled(2)] settled(1) by simp
next
  case (other_activity u b')
  then show ?case
    using known_subscription_step [OF other_activity.prems(2) other_activity.hyps]
    by (auto intro!: jobs_known_mono [OF other_activity.prems(3)])
next
  case (finished i u)
  then show ?case using jobs_known_mono [OF finished.prems(3) _ remove_job_subset] by simp
next
  case (cancelled i u)
  then show ?case using jobs_known_mono [OF cancelled.prems(3) _ remove_job_subset] by simp
qed

lemma system_reachable_invs:
  assumes "system_reachable px version args d"
  shows "broker_reachable (pu_broker (dt_state d)) \<and> jobs_known (dt_state d)
    \<and> push_reachable px (cli_push_concurrency args) broker_step (dt_state d)"
  using assms
proof (induction rule: system_reachable.induct)
  case (start now)
  have "dt_state (pr_app (main_process now args)) = push_start broker_new"
    by (simp add: main_process_def main_core_def Let_def deltio_new_def)
  then show ?case
    using broker_reachable.new push_reachable.start [of px _ broker_step broker_new]
    by (simp add: jobs_known_def push_start_def)
next
  case (step d now d')
  have mc: "pl_max_concurrency (pr_push_loop (main_process now args)) = cli_push_concurrency args"
    by (simp add: main_process_def main_core_def Let_def deltio_push_loop_def push_loop_new_def)
  from step(2) [unfolded mc] show ?case
  proof cases
    case (running u)
    then show ?thesis
      using push_step_system [OF running(3,2)] step.IH broker_reachable.step push_reachable.step
      by (metis deltio.select_convs(1) deltio.update_convs(1) deltio.surjective)
  next
    case (scraped env path response b')
    then have "b' = pu_broker (dt_state d)"
      using metrics_render_result [OF _ scraped(2,3)] step.IH
      by (auto simp: metrics_handle_def split: prod.splits if_splits)
    then show ?thesis using step.IH scraped(1) by simp
  qed
qed

text \<open>
  C6. The program as a whole: however the services, the timers, the spawned tasks, the push loop with its
  dispatches and the scrapes of the metrics endpoint interleave, the broker stays in its reachable states
  (so that its refinement, its fan-out and its invariants hold of the running program), the push loop works
  on subscriptions that exist or were deleted, with at most the configured number of requests in flight per
  job, and the push metrics are the record of the answers received since the start.
\<close>

theorem program_keeps_guarantees:
  assumes "system_reachable px version args d"
  shows "broker_reachable (pu_broker (dt_state d))
    \<and> list_all (\<lambda>j. known_subscription (pu_broker (dt_state d)) (pj_subscription j)
         \<and> length (pj_tasks j) \<le> unat (cli_push_concurrency args)) (pu_jobs (dt_state d))
    \<and> pu_metrics (dt_state d) = push_metrics_run (pu_dispatches (dt_state d))"
proof -
  note invs = system_reachable_invs [OF assms]
  then have "push_inv (cli_push_concurrency args) (dt_state d)" using push_reachable_inv by blast
  then show ?thesis
    using invs job_inv_accounts(1) unfolding push_inv_def jobs_known_def list_all_iff by blast
qed

lemma system_sample_steps:
  assumes "system_reachable px version args (d\<lparr>dt_state := push_start b\<rparr>)" "broker_room b" "broker_step b b'"
  shows "system_reachable px version args (d\<lparr>dt_state := push_start b'\<rparr>)"
proof -
  let ?d = "d\<lparr>dt_state := push_start b\<rparr>"
  have "push_step px mc broker_step (push_start b) (push_start b')" for mc
    using push_step.other_activity [of broker_step "push_start b" b' px mc] assms(3) by (simp add: push_start_def)
  then have "system_step px version mc ?d (?d\<lparr>dt_state := push_start b'\<rparr>)" for mc
    using assms(2) by (intro system_step.running) (simp_all add: push_start_def)
  then show ?thesis using system_reachable.step [OF assms(1)] by fastforce
qed

lemma system_sample_reachable:
  "system_reachable push_sample_externals ''1'' cli_default ((deltio_new 0)\<lparr>dt_state := push_sample_1\<rparr>)"
proof -
  let ?d = "\<lambda>b. (deltio_new 0)\<lparr>dt_state := push_start b\<rparr>"
  have "pr_app (main_process 0 cli_default) = ?d broker_new"
    by (simp add: main_process_def main_core_def Let_def deltio_new_def)
  then have "system_reachable push_sample_externals ''1'' cli_default (?d broker_new)"
    by (metis system_reachable.start)
  then have "system_reachable push_sample_externals ''1'' cli_default (?d run_3)"
    using system_sample_steps run_rooms run_steps by metis
  moreover have "push_step push_sample_externals mc broker_step (push_start run_3) push_sample_1" for mc
    unfolding push_sample_1_def by (rule push_step.tick) (simp_all add: push_start_def push_sample_registry)
  then have "system_step push_sample_externals ''1'' mc (?d run_3) ((?d run_3)\<lparr>dt_state := push_sample_1\<rparr>)" for mc
    using run_rooms(4) by (intro system_step.running) (simp_all add: push_start_def)
  ultimately show ?thesis using system_reachable.step by fastforce
qed

theorem program_keeps_guarantees_witness:
  "broker_reachable (pu_broker push_sample_1) \<and> pu_jobs push_sample_1 = [push_sample_job]
   \<and> known_subscription (pu_broker push_sample_1) run_subscription
   \<and> pu_metrics push_sample_1 = push_metrics_run (pu_dispatches push_sample_1)"
  using program_keeps_guarantees [OF system_sample_reachable] push_sample_jobs
  by (simp add: push_sample_job_def push_job_new_def)

end
