(* ===== verification/Spec2Isabelle.thy ===== *)
theory Spec2Isabelle
  imports Filter_Syntax Flow_Control Topic_Properties Api_Masks Api_Steps Consumer_Properties Deltio
begin

text \<open>
  A verification library for Deltio, an in-memory Google Cloud Pub/Sub emulator written in Rust.

  \<^bold>\<open>The program.\<close> Clients talk gRPC to two services (\<^verbatim>\<open>api/publisher.rs\<close>, \<^verbatim>\<open>api/subscriber.rs\<close>), which
  parse the requests (\<^verbatim>\<open>api/parser.rs\<close>) and call the topic manager and the subscription manager
  (\<^verbatim>\<open>topics/topic_manager.rs\<close>, \<^verbatim>\<open>subscriptions/subscription_manager.rs\<close>). The managers map names to
  handles; behind every handle runs an actor with a mailbox. A topic actor (\<^verbatim>\<open>topics/topic_actor.rs\<close>)
  stamps published messages with ids and posts them to the subscriptions attached to it. A subscription
  actor (\<^verbatim>\<open>subscriptions/subscription_actor.rs\<close>) keeps the messages that wait (a backlog, and one queue per
  ordering key), the outstanding ones with their deadlines, and those that wait for a retry; it serves
  pulls, acknowledgements, deadline changes, seeks and updates, and its timers return expired messages.
  The push loop (\<^verbatim>\<open>push/push_loop.rs\<close>) pulls for the subscriptions that have a push configuration and
  posts their messages to HTTP endpoints; the metrics endpoint (\<^verbatim>\<open>metrics/mod.rs\<close>) renders the statistics
  of all actors. \<^verbatim>\<open>lib.rs\<close> and \<^verbatim>\<open>main.rs\<close> put these parts together.

  \<^bold>\<open>Theories.\<close> \<open>Prelude\<close> has the machine integers, clocks, results and hash maps that all components
  share. The data of messages and names is in \<open>Strings\<close>, \<open>Names\<close>, \<open>Message\<close>, \<open>Policies\<close> and
  \<open>Time_Format\<close>. The containers are \<open>Ordered_Set\<close> (B-tree sets), \<open>Message_List\<close>
  (\<^verbatim>\<open>collections/messages.rs\<close>), \<open>Outstanding\<close> and \<open>Retry_Queue\<close>; the contract the last two share, a
  queue ordered by due time, is the locale of \<open>Due_Queue\<close>, and both are interpreted in it. The filter
  language is \<open>Message_Filter\<close>, its printer and round trip \<open>Filter_Syntax\<close>. \<open>Subscription_Info\<close> and
  \<open>Subscription_Actor\<close> are the subscription's data and actor; \<open>Actor_Pull\<close> specifies a pull,
  \<open>Actor_Invariant\<close> proves the invariant of the actor for every handler and every state reachable through
  the select loop, and \<open>Actor_Properties\<close>, \<open>Actor_Acknowledge\<close>, \<open>Actor_Redelivery\<close>,
  \<open>Actor_Lifecycle\<close> and \<open>Actor_Wakeup\<close> state what the handlers promise. \<open>Flow_Control\<close> and \<open>Paging\<close> are
  \<^verbatim>\<open>subscriptions/flow_control.rs\<close>, \<^verbatim>\<open>paging/mod.rs\<close> and \<^verbatim>\<open>api/page_token.rs\<close>. \<open>Registry\<close> is the contract of
  both managers, \<open>Topic\<close> the topic actor and topic manager, \<open>Topic_Properties\<close> their properties,
  \<open>Broker\<close> the managers, the push registry and the actors composed, with the methods of the handles.
  \<open>Api_Parser\<close>, \<open>Publisher\<close>, \<open>Subscriber\<close> and \<open>Streaming_Pull\<close> are the services, \<open>Api_Masks\<close> and
  \<open>Api_Properties\<close> their properties.

  The broker as a whole: \<open>Actor_Frame\<close> says what a handler leaves alone, \<open>Broker_Invariant\<close> has the steps of
  the broker (\<open>broker_step\<close>: the calls of the services, the timers and the spawned tasks) and the invariant
  that managers and actors agree, \<open>Broker_Handles\<close> shows that handles held by clients and topics stay valid,
  \<open>Broker_Refinement\<close> has the abstract specification \<open>pubsub\<close> and interprets the contract of \<open>Simulation\<close>,
  \<open>Broker_Properties\<close> is what follows from it, \<open>Api_Steps\<close> shows that the services only take steps of the
  broker, and \<open>Broker_Sample\<close> is a run for the witnesses. Push delivery and metrics: \<open>Float64\<close> is the
  part of binary floating point that the code uses, \<open>Push_Metrics\<close> is \<^verbatim>\<open>push/metrics.rs\<close>, \<open>Push_Loop\<close> is
  \<^verbatim>\<open>push/push_loop.rs\<close> with the interleaving of its tasks, \<open>Push_Properties\<close> its correctness; \<open>Prometheus\<close> is
  \<^verbatim>\<open>metrics/encoder.rs\<close> with a reader of its format, \<open>Metrics\<close> and \<open>Metrics_Properties\<close> the service and the
  endpoint. \<open>Deltio\<close> is the application and the running program. Waiting: \<open>Observer\<close> is
  \<^verbatim>\<open>SubscriptionObserver\<close> with the futures of \<^verbatim>\<open>subscriptions/futures.rs\<close>, \<open>Consumers\<close> the pulls and streams
  that wait on one subscription, interleaved with its actor; \<open>Consumer_Invariant\<close>, \<open>Consumer_Sample\<close> and
  \<open>Consumer_Properties\<close> hold their invariant, concrete runs and their liveness.

  \<^bold>\<open>How code is represented.\<close> A struct is a record, an enum a datatype, a result a sum with the error on
  the left. Counters and casts keep their width as words and wrap, as in the release profile. A hash map is
  a finite map; where the code depends on its iteration order, the order is an argument. A handler is a
  function from the state of its actor to a response and the new state; what it does to other components
  is appended to a list of effects, which \<open>Broker\<close> carries out. Clocks and everything else that is read
  from outside are in the environment argument. Third-party code (the base64 engine, timestamp
  conversions, the JSON serializer, the answers of push endpoints, the text of a filter error, the
  notifier of tokio) is an argument, with what the code relies on as a hypothesis.

  \<^bold>\<open>Fuel and loops.\<close> The filter parser's mutual recursion has fuel, linear in the number of tokens;
  \<open>filter_parse_total\<close> shows that it never runs out. The waiting loops (polling a queue, a blocking pull, a
  streaming pull, flow control) run on the list of the states or rounds they observe, so a list that ends
  is a wait that has not ended. All other loops are total functions with a measure.

  \<^bold>\<open>What is shown.\<close> For the broker: it refines the specification \<open>pubsub\<close>, in which a topic is a name, a
  subscription a bag of messages, a publish adds the accepted messages to the bags of the topic and nothing
  else fills a bag; a publish to a registered topic succeeds and reaches every subscription once; no bag
  holds a message twice or one that its filter refuses; managers and actors agree. For the subscription
  actor: ordering keys are delivered one message at a time and in order, pulls respect their limits and make
  progress, ack ids are fresh, messages are neither lost nor invented except where the code drops them on
  purpose, acknowledgements and deadline changes act exactly on their ids, dead letters leave at the
  configured attempt, seek, detach and delete do what they document, the actor signals what becomes available, and the
  unchecked unwraps of the tracker are safe. For the consumers that wait on a subscription: as long as they
  have the same flow-control limit, messages that can be handed out never wait while every consumer sleeps;
  with different limits they can. For push delivery: the concurrency limit, the accounting of every message of a batch and the
  effect of an answer on its message, in every interleaving; the histogram puts every duration into its exact
  bucket although it compares floating-point seconds. For the rest: publishes hand out fresh consecutive ids,
  listings are complete and paginated without gaps, scrapes are complete and their labels can be read back,
  created subscriptions are visible, field masks are exact, confirmations are complete, and names, filters
  and page tokens survive printing and parsing. \<open>Deltio\<close> composes the parts: the running program keeps the
  broker in its reachable states.

  \<^bold>\<open>Bounds.\<close> The counters of the code are 32 and 64 bits wide. A step of the broker is taken while none of
  them is about to wrap (\<open>broker_room\<close>, \<open>topic_request_ok\<close>): fewer than \<open>2^32 - 1\<close> topics, subscriptions and
  messages per topic over the life of the process, and room in the ack ids and retry sequence numbers.

  \<^bold>\<open>Not modelled.\<close> The sockets, the gRPC and HTTP servers and clients, command-line parsing, logging and
  tracing, the generated protocol code, and the benchmarks. The handlers run one at a time: the
  interleaving of calls is the order in which the actors receive them. A caller that goes away after its
  wake-up while the queue of the actor is full, before its next pull is sent, is not modelled.
\<close>

end
